(* ===== verification/Prelude.thy ===== *)
theory Prelude
  imports Main "HOL-Library.Word" "HOL-Library.Char_ord"
begin

text \<open>
  What the theories of this development share: the model's byte strings (a
  \<^verbatim>\<open>std::string\<close> or \<^verbatim>\<open>std::string_view\<close> is a list of 8-bit characters), the
  characters that Isabelle cannot write as a literal, the operations of the C++ standard
  library that the modelled code calls (\<^verbatim>\<open>substr\<close>, \<^verbatim>\<open>std::to_string\<close>,
  \<^verbatim>\<open>std::upper_bound\<close>), generic list lemmas, and the collections of rewrite rules
  that the component theories fill.

  A C++ pointer that may be null is an \<open>option\<close>. An exception, a failed assertion or
  an early return is a value of a sum or of an option. A \<^verbatim>\<open>std::size_t\<close> that indexes a
  buffer held in memory is a natural number: no modelled computation on it leaves the
  range of the buffer, which is what the bounds theorems show.
\<close>

section \<open>Collections of rules\<close>

named_theorems lex_simps "how the scanners change each field of the lexer state"
named_theorems eval_simps "unfolding rules that evaluate the model on closed terms"

section \<open>Characters\<close>

abbreviation chr_nul :: char where "chr_nul \<equiv> CHR 0x00"
abbreviation chr_tab :: char where "chr_tab \<equiv> CHR 0x09"
abbreviation chr_nl :: char where "chr_nl \<equiv> CHR 0x0A"
abbreviation chr_cr :: char where "chr_cr \<equiv> CHR 0x0D"
abbreviation chr_dquote :: char where "chr_dquote \<equiv> CHR 0x22"
abbreviation chr_squote :: char where "chr_squote \<equiv> CHR 0x27"
abbreviation chr_backslash :: char where "chr_backslash \<equiv> CHR 0x5C"

text \<open>The UTF-8 bytes of the dash and of the section sign, which messages use.\<close>

definition em_dash :: string where
  "em_dash = [CHR 0xE2, CHR 0x80, CHR 0x94]"

definition section_sign :: string where
  "section_sign = [CHR 0xC2, CHR 0xA7]"

definition quoted :: "string \<Rightarrow> string" where
  "quoted x = [chr_squote] @ x @ [chr_squote]"

section \<open>Substrings\<close>

text \<open>\<^verbatim>\<open>std::string_view::substr(pos, n)\<close>, for a position inside the text.\<close>

definition substr :: "string \<Rightarrow> nat \<Rightarrow> nat \<Rightarrow> string" where
  "substr s p n = take n (drop p s)"

lemma length_substr [simp]: "p + n \<le> length s \<Longrightarrow> length (substr s p n) = n"
  by (simp add: substr_def)

lemma substr_0 [simp]: "substr s p 0 = []"
  by (simp add: substr_def)

lemma substr_append: "substr s p (m + n) = substr s p m @ substr s (p + m) n"
  by (simp add: substr_def take_add add.commute)

lemma substr_split: "p \<le> q \<Longrightarrow> q \<le> r \<Longrightarrow> substr s p (r - p) = substr s p (q - p) @ substr s q (r - q)"
  using substr_append [of s p "q - p" "r - q"] by simp

lemma substr_Suc: "p < length s \<Longrightarrow> substr s p (Suc n) = s ! p # substr s (Suc p) n"
  by (simp add: substr_def Cons_nth_drop_Suc [symmetric])

lemma substr_single: "p < length s \<Longrightarrow> substr s p (Suc p - p) = [s ! p]"
  by (simp add: substr_Suc)

lemma substr_all: "substr s 0 (length s) = s"
  by (simp add: substr_def)

section \<open>Decimal rendering\<close>

text \<open>\<^verbatim>\<open>std::to_string\<close> on an unsigned value.\<close>

definition digit_char :: "nat \<Rightarrow> char" where
  "digit_char d = char_of (48 + d)"

fun dec :: "nat \<Rightarrow> string" where
  "dec n = (if n < 10 then [digit_char n] else dec (n div 10) @ [digit_char (n mod 10)])"

declare dec.simps [simp del]

lemma dec_nonempty [simp]: "dec n \<noteq> []"
  by (subst dec.simps) simp

text \<open>\<^verbatim>\<open>std::to_string\<close> on a signed value.\<close>

definition dec_int :: "int \<Rightarrow> string" where
  "dec_int i = (if i < 0 then CHR ''-'' # dec (nat (- i)) else dec (nat i))"

section \<open>Binary search over a sorted vector\<close>

text \<open>
  \<^verbatim>\<open>std::upper_bound(first, last, v) - first\<close>: the index of the first element that is
  greater than \<open>v\<close> in a sorted vector.
\<close>

definition upper_bound :: "nat list \<Rightarrow> nat \<Rightarrow> nat" where
  "upper_bound xs v = length (takeWhile (\<lambda>x. x \<le> v) xs)"

lemma upper_bound_le: "upper_bound xs v \<le> length xs"
  by (simp add: upper_bound_def length_takeWhile_le)

lemma upper_bound_append:
  "(\<forall>x \<in> set xs. x \<le> v) \<Longrightarrow> upper_bound (xs @ ys) v = length xs + upper_bound ys v"
  by (simp add: upper_bound_def takeWhile_append2)

lemma upper_bound_none: "(\<forall>x \<in> set xs. v < x) \<Longrightarrow> upper_bound xs v = 0"
  by (cases xs) (simp_all add: upper_bound_def)

section \<open>Lists and options\<close>

definition last_opt :: "'a list \<Rightarrow> 'a option" where
  "last_opt xs = (if xs = [] then None else Some (last xs))"

lemma last_opt_simps [simp]:
  "last_opt [] = None"
  "last_opt (xs @ [x]) = Some x"
  by (simp_all add: last_opt_def)

lemma takeWhile_stops:
  "x \<in> set xs \<Longrightarrow> \<not> P x \<Longrightarrow>
     length (takeWhile P xs) < length xs \<and> \<not> P (xs ! length (takeWhile P xs))"
  by (induction xs) auto

lemma take_takeWhile: "n \<le> length (takeWhile P xs) \<Longrightarrow> take n (takeWhile P xs) = take n xs"
  by (subst takeWhile_eq_take) simp

lemma takeWhile_rev_append:
  "(\<forall>x \<in> set ys. P x) \<Longrightarrow> \<not> P z \<Longrightarrow> takeWhile P (rev (xs @ z # ys)) = rev ys"
  by (simp add: takeWhile_tail)

end
