(* ===== verification/Diag.thy ===== *)
theory Diag
  imports Prelude
begin

text \<open>
  The diagnostics layer: \<^verbatim>\<open>include/vestra/diag/source_manager.hpp\<close>,
  \<^verbatim>\<open>src/diag/source_manager.cpp\<close>, \<^verbatim>\<open>include/vestra/diag/diagnostic.hpp\<close> and
  \<^verbatim>\<open>src/diag/diagnostic.cpp\<close>. The source manager owns the text of every loaded file
  and turns a byte offset into a line and a column; the reporter accumulates diagnostics
  and counts errors and warnings. File identifiers, lines and columns keep the 32 bits the
  code stores them in.
\<close>

section \<open>Locations and files\<close>

type_synonym file_id = "32 word"

definition Invalid_file :: file_id where
  "Invalid_file = 0"

record source_loc =
  loc_file :: file_id
  loc_offset :: nat

record source_range =
  range_begin :: source_loc
  range_length :: nat

record line_col_t =
  lc_line :: "32 word"
  lc_col :: "32 word"

record source_file =
  file_name :: string
  file_text :: string
  file_line_starts :: "nat list"

record source_manager =
  sm_files :: "source_file list"

datatype sm_error =
    Out_of_range string
  | Io_failure string

definition loc_is_valid :: "source_loc \<Rightarrow> bool" where
  "loc_is_valid l \<longleftrightarrow> loc_file l \<noteq> Invalid_file"

definition range_end :: "source_range \<Rightarrow> source_loc" where
  "range_end r = \<lparr>loc_file = loc_file (range_begin r),
                  loc_offset = loc_offset (range_begin r) + range_length r\<rparr>"

definition range_is_valid :: "source_range \<Rightarrow> bool" where
  "range_is_valid r \<longleftrightarrow> loc_is_valid (range_begin r)"

definition no_range :: source_range where
  "no_range = \<lparr>range_begin = \<lparr>loc_file = Invalid_file, loc_offset = 0\<rparr>, range_length = 0\<rparr>"

definition empty_source_manager :: source_manager where
  "empty_source_manager = \<lparr>sm_files = []\<rparr>"

section \<open>The source manager\<close>

fun line_starts_loop :: "nat \<Rightarrow> string \<Rightarrow> nat list \<Rightarrow> nat list" where
  "line_starts_loop i [] starts = starts"
| "line_starts_loop i (c # cs) starts =
     line_starts_loop (Suc i) cs (if c = chr_nl then starts @ [i + 1] else starts)"

definition compute_line_starts :: "string \<Rightarrow> nat list" where
  "compute_line_starts text = line_starts_loop 0 text [0]"

definition default_file :: source_file where
  "default_file = \<lparr>file_name = [], file_text = [], file_line_starts = []\<rparr>"

text \<open>
  Slot 0 of the vector is reserved on the first call, so that no file gets the identifier
  \<open>Invalid\<close>. The identifier is the new last index, cast to 32 bits.
\<close>

definition add_in_memory :: "string \<Rightarrow> string \<Rightarrow> source_manager \<Rightarrow> file_id \<times> source_manager" where
  "add_in_memory name text sm =
     (let fs = (if sm_files sm = [] then [default_file] else sm_files sm);
          f = \<lparr>file_name = name, file_text = text, file_line_starts = compute_line_starts text\<rparr>;
          fs' = fs @ [f]
      in (of_nat (length fs' - 1), sm\<lparr>sm_files := fs'\<rparr>))"

text \<open>
  Loading a file reads it from the file system, which is the parameter \<open>read_file\<close>:
  \<open>None\<close> when the stream cannot be opened.
\<close>

definition load_file ::
  "(string \<Rightarrow> string option) \<Rightarrow> string \<Rightarrow> source_manager \<Rightarrow> sm_error + (file_id \<times> source_manager)"
where
  "load_file read_file path sm =
     (case read_file path of
        None \<Rightarrow> Inl (Io_failure (''cannot open source file: '' @ path))
      | Some text \<Rightarrow> Inr (add_in_memory path text sm))"

definition sm_get :: "source_manager \<Rightarrow> file_id \<Rightarrow> sm_error + source_file" where
  "sm_get sm i =
     (let idx = unat i
      in if idx = 0 \<or> length (sm_files sm) \<le> idx
         then Inl (Out_of_range ''SourceManager::get: invalid FileId'')
         else Inr (sm_files sm ! idx))"

definition sm_source :: "source_manager \<Rightarrow> file_id \<Rightarrow> sm_error + string" where
  "sm_source sm i = map_sum id file_text (sm_get sm i)"

definition sm_name :: "source_manager \<Rightarrow> file_id \<Rightarrow> sm_error + string" where
  "sm_name sm i = map_sum id file_name (sm_get sm i)"

definition line_index :: "source_file \<Rightarrow> nat \<Rightarrow> nat" where
  "line_index f off = upper_bound (file_line_starts f) off - 1"

definition line_col :: "source_manager \<Rightarrow> source_loc \<Rightarrow> sm_error + line_col_t" where
  "line_col sm l =
     (case sm_get sm (loc_file l) of
        Inl e \<Rightarrow> Inl e
      | Inr f \<Rightarrow>
          (let line_idx = line_index f (loc_offset l);
               col = loc_offset l - file_line_starts f ! line_idx
           in Inr \<lparr>lc_line = of_nat (line_idx + 1), lc_col = of_nat (col + 1)\<rparr>))"

definition line_bounds :: "source_file \<Rightarrow> nat \<Rightarrow> nat \<times> nat" where
  "line_bounds f off =
     (let line_idx = line_index f off;
          start = file_line_starts f ! line_idx;
          next_line = (if line_idx + 1 < length (file_line_starts f)
                       then file_line_starts f ! (line_idx + 1) else length (file_text f));
          e0 = next_line;
          e1 = (if start < e0 \<and> file_text f ! (e0 - 1) = chr_nl then e0 - 1 else e0);
          e2 = (if start < e1 \<and> file_text f ! (e1 - 1) = chr_cr then e1 - 1 else e1)
      in (start, e2))"

definition line_text :: "source_manager \<Rightarrow> source_loc \<Rightarrow> sm_error + string" where
  "line_text sm l =
     (case sm_get sm (loc_file l) of
        Inl e \<Rightarrow> Inl e
      | Inr f \<Rightarrow> (case line_bounds f (loc_offset l) of
                    (start, e) \<Rightarrow> Inr (substr (file_text f) start (e - start))))"

section \<open>The reporter\<close>

datatype severity = Note | Warning | Error

record label =
  label_range :: source_range
  label_message :: string

text \<open>A diagnostic holds its notes, which are diagnostics themselves.\<close>

datatype diagnostic =
  Diagnostic (diag_severity: severity) (diag_message: string) (diag_labels: "label list")
    (diag_notes: "diagnostic list")

definition diag_error :: "string \<Rightarrow> diagnostic" where
  "diag_error msg = Diagnostic Error msg [] []"

definition diag_warning :: "string \<Rightarrow> diagnostic" where
  "diag_warning msg = Diagnostic Warning msg [] []"

definition diag_note :: "string \<Rightarrow> diagnostic" where
  "diag_note msg = Diagnostic Note msg [] []"

definition diag_at_label :: "source_range \<Rightarrow> string \<Rightarrow> diagnostic \<Rightarrow> diagnostic" where
  "diag_at_label r lbl d = Diagnostic (diag_severity d) (diag_message d)
     (diag_labels d @ [\<lparr>label_range = r, label_message = lbl\<rparr>]) (diag_notes d)"

text \<open>The call of \<^verbatim>\<open>at\<close> with its default argument, the only one the modelled stages make.\<close>

definition diag_at :: "source_range \<Rightarrow> diagnostic \<Rightarrow> diagnostic" where
  "diag_at r d = diag_at_label r [] d"

declare diag_at_label_def [simp]

definition with_note :: "diagnostic \<Rightarrow> diagnostic \<Rightarrow> diagnostic" where
  "with_note n d = Diagnostic (diag_severity d) (diag_message d) (diag_labels d) (diag_notes d @ [n])"

record reporter =
  error_cap :: nat
  diagnostics :: "diagnostic list"
  error_count :: nat
  warning_count :: nat

definition new_reporter :: "nat \<Rightarrow> reporter" where
  "new_reporter cap = \<lparr>error_cap = cap, diagnostics = [], error_count = 0, warning_count = 0\<rparr>"

text \<open>The cap of a reporter that the caller gives none.\<close>

definition default_error_cap :: nat where
  "default_error_cap = 32"

definition report :: "diagnostic \<Rightarrow> reporter \<Rightarrow> reporter" where
  "report d r =
     (let r1 = (case diag_severity d of
                  Error \<Rightarrow> r\<lparr>error_count := error_count r + 1\<rparr>
                | Warning \<Rightarrow> r\<lparr>warning_count := warning_count r + 1\<rparr>
                | Note \<Rightarrow> r)
      in r1\<lparr>diagnostics := diagnostics r1 @ [d]\<rparr>)"

definition has_errors :: "reporter \<Rightarrow> bool" where
  "has_errors r \<longleftrightarrow> 0 < error_count r"

definition should_stop :: "reporter \<Rightarrow> bool" where
  "should_stop r \<longleftrightarrow> error_cap r \<le> error_count r"

section \<open>Rendering\<close>

definition severity_label :: "severity \<Rightarrow> string" where
  "severity_label s = (case s of Error \<Rightarrow> ''error'' | Warning \<Rightarrow> ''warning'' | Note \<Rightarrow> ''note'')"

definition spaces :: "nat \<Rightarrow> string" where
  "spaces n = replicate n CHR '' ''"

definition underline :: "nat \<Rightarrow> string" where
  "underline span = (if span \<le> 1 then ''^'' else CHR ''^'' # replicate (span - 1) CHR ''~'')"

text \<open>
  The three pieces \<^verbatim>\<open>render_to\<close> writes for one label: the numbered source line, the
  blank gutter up to the column, and the underline with its message. An exception of the
  source manager passes through.
\<close>

definition render_label :: "source_manager \<Rightarrow> label \<Rightarrow> sm_error + string" where
  "render_label sm lb =
     (if \<not> range_is_valid (label_range lb) then Inr []
      else case line_col sm (range_begin (label_range lb)) of
        Inl e \<Rightarrow> Inl e
      | Inr lc \<Rightarrow> (case line_text sm (range_begin (label_range lb)) of
            Inl e \<Rightarrow> Inl e
          | Inr text \<Rightarrow>
              (let num = dec (unat (lc_line lc));
                   caret_off = unat (lc_col lc - 1)
               in Inr (''    '' @ num @ '' | '' @ text @ [chr_nl]
                    @ ''    '' @ spaces (length num) @ '' | '' @ spaces caret_off
                    @ underline (range_length (label_range lb))
                    @ (if label_message lb = [] then [] else CHR '' '' # label_message lb) @ [chr_nl]))))"

fun render_labels :: "source_manager \<Rightarrow> label list \<Rightarrow> sm_error + string" where
  "render_labels sm [] = Inr []"
| "render_labels sm (l # ls) =
     (case render_label sm l of
        Inl e \<Rightarrow> Inl e
      | Inr a \<Rightarrow> (case render_labels sm ls of Inl e \<Rightarrow> Inl e | Inr b \<Rightarrow> Inr (a @ b)))"

definition render_header :: "source_manager \<Rightarrow> diagnostic \<Rightarrow> sm_error + string" where
  "render_header sm d =
     (let tail = severity_label (diag_severity d) @ '': '' @ diag_message d @ [chr_nl]
      in case diag_labels d of
        [] \<Rightarrow> Inr tail
      | l # _ \<Rightarrow>
          (if \<not> range_is_valid (label_range l) then Inr tail
           else let b = range_begin (label_range l)
                in case line_col sm b of
                     Inl e \<Rightarrow> Inl e
                   | Inr lc \<Rightarrow> (case sm_name sm (loc_file b) of
                         Inl e \<Rightarrow> Inl e
                       | Inr n \<Rightarrow> Inr (n @ '':'' @ dec (unat (lc_line lc)) @ '':''
                                     @ dec (unat (lc_col lc)) @ '': '' @ tail))))"

fun render_diag :: "source_manager \<Rightarrow> diagnostic \<Rightarrow> sm_error + string"
  and render_diags :: "source_manager \<Rightarrow> diagnostic list \<Rightarrow> sm_error + string"
where
  "render_diag sm (Diagnostic sev msg labels notes) =
     (case render_header sm (Diagnostic sev msg labels notes) of
        Inl e \<Rightarrow> Inl e
      | Inr h \<Rightarrow> (case render_labels sm labels of
            Inl e \<Rightarrow> Inl e
          | Inr b \<Rightarrow> (case render_diags sm notes of Inl e \<Rightarrow> Inl e | Inr n \<Rightarrow> Inr (h @ b @ n))))"
| "render_diags sm [] = Inr []"
| "render_diags sm (d # ds) =
     (case render_diag sm d of
        Inl e \<Rightarrow> Inl e
      | Inr a \<Rightarrow> (case render_diags sm ds of Inl e \<Rightarrow> Inl e | Inr b \<Rightarrow> Inr (a @ b)))"

definition render_to :: "source_manager \<Rightarrow> reporter \<Rightarrow> sm_error + string" where
  "render_to sm r = render_diags sm (diagnostics r)"

section \<open>Line starts\<close>

text \<open>
  The vector of line starts, seen from a cut of the text: what comes before the cut gives
  the starts up to it, what comes after only starts that lie beyond it.
\<close>

lemma line_starts_loop_append:
  "line_starts_loop i (xs @ ys) st = line_starts_loop (i + length xs) ys (line_starts_loop i xs st)"
  by (induction i xs st rule: line_starts_loop.induct) simp_all

lemma line_starts_loop_acc: "line_starts_loop i ys st = st @ line_starts_loop i ys []"
proof (induction ys arbitrary: i st)
  case (Cons y ys)
  show ?case by (simp add: Cons.IH [of _ "st @ [Suc i]"] Cons.IH [of _ st] Cons.IH [of _ "[Suc i]"])
qed simp

lemma line_starts_loop_bounds: "x \<in> set (line_starts_loop i ys []) \<Longrightarrow> i < x \<and> x \<le> i + length ys"
proof (induction ys arbitrary: i)
  case (Cons y ys)
  have "x \<in> set (if y = chr_nl then [Suc i] else []) \<or> x \<in> set (line_starts_loop (Suc i) ys [])"
    using Cons.prems line_starts_loop_acc [of "Suc i" ys "[Suc i]"] by (auto split: if_splits)
  then show ?case using Cons.IH [of "Suc i"] by (auto split: if_splits)
qed simp

lemma line_starts_loop_hd:
  "line_starts_loop i ys [] \<noteq> [] \<longleftrightarrow> chr_nl \<in> set ys"
  "chr_nl \<in> set ys \<Longrightarrow>
     hd (line_starts_loop i ys []) = Suc (i + length (takeWhile (\<lambda>c. c \<noteq> chr_nl) ys))"
proof (induction ys arbitrary: i)
  case (Cons y ys)
  { case 1 show ?case
      using Cons.IH(1) [of "Suc i"] line_starts_loop_acc [of "Suc i" ys "[Suc i]"] by auto }
  { case 2 then show ?case
      using Cons.IH(2) [of "Suc i"] line_starts_loop_acc [of "Suc i" ys "[Suc i]"] by auto }
qed simp_all

lemma compute_line_starts_append:
  "compute_line_starts (xs @ ys) = compute_line_starts xs @ line_starts_loop (length xs) ys []"
  by (simp add: compute_line_starts_def line_starts_loop_append)
     (rule line_starts_loop_acc)

lemma compute_line_starts_snoc:
  "compute_line_starts (xs @ [c]) = compute_line_starts xs @ (if c = chr_nl then [Suc (length xs)] else [])"
  by (simp add: compute_line_starts_append)

lemma compute_line_starts_Nil [simp]: "compute_line_starts [] = [0]"
  by (simp add: compute_line_starts_def)

lemma compute_line_starts_nonempty [simp]: "compute_line_starts xs \<noteq> []"
  by (induction xs rule: rev_induct) (simp_all add: compute_line_starts_snoc)

lemma length_compute_line_starts: "length (compute_line_starts xs) = Suc (count_list xs chr_nl)"
  by (induction xs rule: rev_induct) (simp_all add: compute_line_starts_snoc)

lemma last_compute_line_starts:
  "last (compute_line_starts xs) + length (takeWhile (\<lambda>c. c \<noteq> chr_nl) (rev xs)) = length xs"
  by (induction xs rule: rev_induct) (simp_all add: compute_line_starts_snoc)

lemma compute_line_starts_bound: "x \<in> set (compute_line_starts xs) \<Longrightarrow> x \<le> length xs"
  by (induction xs rule: rev_induct) (auto simp: compute_line_starts_snoc split: if_splits)

lemma upper_bound_compute_line_starts:
  "upper_bound (compute_line_starts (xs @ ys)) (length xs) = length (compute_line_starts xs)"
proof -
  have "upper_bound (line_starts_loop (length xs) ys []) (length xs) = 0"
    by (rule upper_bound_none) (use line_starts_loop_bounds in blast)
  then show ?thesis
    by (simp add: compute_line_starts_append upper_bound_append compute_line_starts_bound)
qed

section \<open>The line and column of an offset\<close>

definition line_number :: "string \<Rightarrow> nat \<Rightarrow> nat" where
  "line_number text off = Suc (count_list (take off text) chr_nl)"

definition column :: "string \<Rightarrow> nat \<Rightarrow> nat" where
  "column text off = Suc (length (takeWhile (\<lambda>c. c \<noteq> chr_nl) (rev (take off text))))"

definition strip_cr :: "string \<Rightarrow> string" where
  "strip_cr s = (if s \<noteq> [] \<and> last s = chr_cr then butlast s else s)"

text \<open>Every file of a manager carries the line starts of its own text.\<close>

definition sm_ok :: "source_manager \<Rightarrow> bool" where
  "sm_ok sm \<longleftrightarrow> (\<forall>i. 0 < i \<and> i < length (sm_files sm) \<longrightarrow>
     file_line_starts (sm_files sm ! i) = compute_line_starts (file_text (sm_files sm ! i)))"

lemma line_index_compute:
  assumes "file_line_starts f = compute_line_starts (file_text f)" "off \<le> length (file_text f)"
  shows "line_index f off = count_list (take off (file_text f)) chr_nl"
    and "line_index f off < length (file_line_starts f)"
    and "file_line_starts f ! line_index f off = Suc off - column (file_text f) off"
    and "file_line_starts f ! line_index f off \<le> off"
proof -
  let ?t = "file_text f" and ?pre = "take off (file_text f)"
  have cut: "compute_line_starts ?t = compute_line_starts ?pre @ line_starts_loop off (drop off ?t) []"
    using compute_line_starts_append [of ?pre "drop off ?t"] assms(2) by simp
  have "upper_bound (compute_line_starts ?t) off = length (compute_line_starts ?pre)"
    using upper_bound_compute_line_starts [of ?pre "drop off ?t"] assms(2) by simp
  then have idx: "line_index f off = length (compute_line_starts ?pre) - 1"
    by (simp add: line_index_def assms(1))
  then show "line_index f off = count_list ?pre chr_nl"
    by (simp add: length_compute_line_starts)
  show "line_index f off < length (file_line_starts f)"
    by (simp add: idx assms(1) cut length_compute_line_starts)
  have "file_line_starts f ! line_index f off = last (compute_line_starts ?pre)"
    by (simp add: idx assms(1) cut nth_append last_conv_nth length_compute_line_starts)
  with last_compute_line_starts [of ?pre] assms(2)
  show "file_line_starts f ! line_index f off = Suc off - column ?t off"
    and "file_line_starts f ! line_index f off \<le> off"
    by (simp_all add: column_def)
qed

lemma sm_get_Inr:
  "sm_get sm i = Inr f \<longleftrightarrow> 0 < unat i \<and> unat i < length (sm_files sm) \<and> f = sm_files sm ! unat i"
  by (auto simp: sm_get_def Let_def)

lemma sm_ok_get: "sm_ok sm \<Longrightarrow> sm_get sm i = Inr f \<Longrightarrow> file_line_starts f = compute_line_starts (file_text f)"
  by (auto simp: sm_ok_def sm_get_Inr)

lemma line_col_compute:
  assumes "sm_ok sm" "sm_get sm (loc_file l) = Inr f" "loc_offset l \<le> length (file_text f)"
  shows "line_col sm l = Inr \<lparr>lc_line = of_nat (line_number (file_text f) (loc_offset l)),
                              lc_col = of_nat (column (file_text f) (loc_offset l))\<rparr>"
proof -
  note starts = sm_ok_get [OF assms(1,2)]
  have "column (file_text f) (loc_offset l) \<le> Suc (loc_offset l)"
    using length_takeWhile_le [of "\<lambda>c. c \<noteq> chr_nl" "rev (take (loc_offset l) (file_text f))"] assms(3)
    by (simp add: column_def)
  then show ?thesis
    using line_index_compute [OF starts assms(3)] assms(2)
    by (simp add: line_col_def Let_def line_number_def)
qed

text \<open>The end of a line: the next line start, or the end of the text.\<close>

lemma line_bounds_compute:
  assumes "file_line_starts f = compute_line_starts (file_text f)" "off \<le> length (file_text f)"
  defines "start \<equiv> Suc off - column (file_text f) off"
  defines "line \<equiv> takeWhile (\<lambda>c. c \<noteq> chr_nl) (drop start (file_text f))"
  shows "line_bounds f off = (start, start + length (strip_cr line))"
    and "start + length line \<le> length (file_text f)"
    and "start \<le> off" "off \<le> start + length line"
proof -
  let ?t = "file_text f" and ?pre = "take off (file_text f)" and ?post = "drop off (file_text f)"
  let ?tail = "takeWhile (\<lambda>c. c \<noteq> chr_nl) (rev ?pre)"
  let ?p = "\<lambda>c. c \<noteq> chr_nl"
  have idx: "file_line_starts f ! line_index f off = start" "line_index f off < length (file_line_starts f)"
    using line_index_compute [OF assms(1,2)] by (simp_all add: start_def)
  have len: "length ?tail \<le> off" using length_takeWhile_le [of ?p "rev ?pre"] assms(2) by simp
  then have start: "start = off - length ?tail" by (simp add: start_def column_def)
  show "start \<le> off" by (simp add: start)
  have tail: "drop start ?pre = rev ?tail"
  proof -
    have "?pre = rev (dropWhile ?p (rev ?pre)) @ rev ?tail"
      by (metis rev_append rev_rev_ident takeWhile_dropWhile_id)
    moreover have "length (rev (dropWhile ?p (rev ?pre))) = start"
      using assms(2) len by (simp add: start dropWhile_eq_drop)
    ultimately show ?thesis by (metis append_eq_conv_conj)
  qed
  have pre: "start - length ?pre = 0" using \<open>start \<le> off\<close> assms(2) by simp
  have split: "drop start ?t = drop start ?pre @ ?post"
    using drop_append [of start ?pre ?post] unfolding pre append_take_drop_id drop_0 .
  have line: "line = rev ?tail @ takeWhile ?p ?post"
    unfolding line_def split tail by (rule takeWhile_append2) (auto dest: set_takeWhileD)
  show "off \<le> start + length line" using len by (simp add: line start)
  show bound: "start + length line \<le> length ?t"
    using len length_takeWhile_le [of ?p ?post] assms(2) by (simp add: line start)
  have starts: "file_line_starts f = compute_line_starts ?pre @ line_starts_loop off ?post []"
    using compute_line_starts_append [of ?pre ?post] assms(1,2) by simp
  have idx1: "Suc (line_index f off) = length (compute_line_starts ?pre)"
    using line_index_compute(1) [OF assms(1,2)] by (simp add: length_compute_line_starts)
  have nth: "?t ! (start + i) = line ! i" if "i < length line" for i
    using that bound by (simp add: line_def takeWhile_nth)
  let ?e = "start + length line"
  have e1: "(let e0 = (if line_index f off + 1 < length (file_line_starts f)
                       then file_line_starts f ! (line_index f off + 1) else length ?t)
             in if start < e0 \<and> ?t ! (e0 - 1) = chr_nl then e0 - 1 else e0) = ?e"
  proof (cases "chr_nl \<in> set ?post")
    case True
    have "line_starts_loop off ?post [] \<noteq> []" "hd (line_starts_loop off ?post []) = Suc ?e"
      using line_starts_loop_hd [where i = off and ys = "?post"] True len by (simp_all add: line start)
    moreover have "?t ! ?e = chr_nl"
    proof -
      have "chr_nl \<in> set (drop start ?t)" using True by (simp add: split)
      from takeWhile_stops [OF this, of ?p] bound show ?thesis by (simp add: line_def)
    qed
    ultimately show ?thesis
      by (simp add: starts idx1 nth_append hd_conv_nth)
  next
    case False
    then have "line_starts_loop off ?post [] = []" using line_starts_loop_hd(1) [where i = off and ys = "?post"] by simp
    moreover have "?e = length ?t"
    proof -
      have "takeWhile ?p ?post = ?post" using False by (auto simp: takeWhile_eq_all_conv)
      then have "length (takeWhile ?p ?post) = length ?post" by (rule arg_cong)
      then show ?thesis using len assms(2) by (simp add: line start)
    qed
    moreover have "?t ! (?e - 1) \<noteq> chr_nl" if "start < ?e"
      using nth [of "length line - 1"] that set_takeWhileD [of "line ! (length line - 1)" ?p "drop start ?t"]
      by (auto simp: line_def)
    ultimately show ?thesis by (auto simp: starts idx1 Let_def)
  qed
  have "?t ! (?e - 1) = last line" if "line \<noteq> []"
    using nth [of "length line - 1"] that by (cases line rule: rev_cases) simp_all
  then show "line_bounds f off = (start, start + length (strip_cr line))"
    using e1 idx(1) by (auto simp: line_bounds_def Let_def strip_cr_def) (cases line, simp_all)
qed

lemma line_text_compute:
  assumes "sm_ok sm" "sm_get sm (loc_file l) = Inr f" "loc_offset l \<le> length (file_text f)"
  shows "line_text sm l = Inr (strip_cr (takeWhile (\<lambda>c. c \<noteq> chr_nl)
           (drop (Suc (loc_offset l) - column (file_text f) (loc_offset l)) (file_text f))))"
proof -
  let ?rest = "drop (Suc (loc_offset l) - column (file_text f) (loc_offset l)) (file_text f)"
  let ?line = "takeWhile (\<lambda>c. c \<noteq> chr_nl) ?rest"
  have "take (length (strip_cr ?line)) ?line = strip_cr ?line" by (simp add: strip_cr_def butlast_conv_take)
  moreover have "take (length (strip_cr ?line)) ?line = take (length (strip_cr ?line)) ?rest"
    by (rule take_takeWhile) (simp add: strip_cr_def)
  ultimately show ?thesis
    using line_bounds_compute(1) [OF sm_ok_get [OF assms(1,2)] assms(3)] assms(2)
    by (simp add: line_text_def substr_def)
qed

section \<open>The manager keeps its files\<close>

lemma sm_ok_empty: "sm_ok empty_source_manager"
  by (simp add: sm_ok_def empty_source_manager_def)

lemma add_in_memory_files:
  assumes "add_in_memory name text sm = (i, sm')"
  shows "sm_files sm' = (if sm_files sm = [] then [default_file] else sm_files sm)
      @ [\<lparr>file_name = name, file_text = text, file_line_starts = compute_line_starts text\<rparr>]"
    and "i = of_nat (max 1 (length (sm_files sm)))"
  using assms by (auto simp: add_in_memory_def Let_def max_def Suc_le_eq)

lemma sm_ok_add_in_memory:
  assumes "sm_ok sm" "add_in_memory name text sm = (i, sm')"
  shows "sm_ok sm'"
  using assms(1) by (auto simp: sm_ok_def add_in_memory_files(1) [OF assms(2)] nth_append less_Suc_eq)

section \<open>Properties\<close>

text \<open>
  C37: For a manager whose files carry the line starts of their texts, the line of an offset is
  one more than the number of newlines before it and its column is one more than the distance
  to the last of them, both cut to 32 bits.
\<close>

theorem line_col_correct:
  assumes "sm_ok sm" "sm_get sm f = Inr file" "off \<le> length (file_text file)"
  shows "line_col sm \<lparr>loc_file = f, loc_offset = off\<rparr> =
     Inr \<lparr>lc_line = of_nat (line_number (file_text file) off), lc_col = of_nat (column (file_text file) off)\<rparr>"
  using line_col_compute [OF assms(1), of "\<lparr>loc_file = f, loc_offset = off\<rparr>"] assms(2,3) by simp

definition sample_manager :: source_manager where
  "sample_manager = snd (add_in_memory ''a.vs'' (''ab'' @ [chr_cr, chr_nl] @ ''cde'') empty_source_manager)"

lemma sample_ok: "sm_ok sample_manager"
  unfolding sample_manager_def by (rule sm_ok_add_in_memory [OF sm_ok_empty]) (rule surjective_pairing)

lemma sample_get: "sm_get sample_manager 1 = Inr \<lparr>file_name = ''a.vs'',
    file_text = ''ab'' @ [chr_cr, chr_nl] @ ''cde'', file_line_starts = [0, 4]\<rparr>"
  by code_simp

theorem line_col_correct_witness:
  "line_col sample_manager \<lparr>loc_file = 1, loc_offset = 6\<rparr> = Inr \<lparr>lc_line = 2, lc_col = 3\<rparr>"
  using line_col_correct [OF sample_ok sample_get, of 6]
  by (simp add: line_number_def column_def)

text \<open>
  C38: The line of an offset is shown without its newline and without a carriage return before
  it: the text from the start of the line up to the next newline or the end of the file.
\<close>

theorem line_text_correct:
  assumes "sm_ok sm" "sm_get sm f = Inr file" "off \<le> length (file_text file)"
  shows "line_text sm \<lparr>loc_file = f, loc_offset = off\<rparr> =
     Inr (strip_cr (takeWhile (\<lambda>c. c \<noteq> chr_nl)
            (drop (Suc off - column (file_text file) off) (file_text file))))"
  using line_text_compute [OF assms(1), of "\<lparr>loc_file = f, loc_offset = off\<rparr>"] assms(2,3) by simp

theorem line_text_correct_witness:
  "line_text sample_manager \<lparr>loc_file = 1, loc_offset = 1\<rparr> = Inr ''ab''"
  using line_text_correct [OF sample_ok sample_get, of 1] by (simp add: strip_cr_def column_def)

text \<open>
  C39: A file that is added gets a fresh valid identifier under which its name and text are
  found; every file that was there keeps its identifier, and the line starts stay right. The
  identifier has 32 bits, so this needs fewer files than that.
\<close>

theorem add_in_memory_correct:
  assumes "sm_ok sm" "length (sm_files sm) < 2 ^ 32" "add_in_memory name text sm = (i, sm')"
  shows "i \<noteq> Invalid_file \<and> (\<forall>f. sm_get sm i \<noteq> Inr f) \<and> sm_name sm' i = Inr name
     \<and> sm_source sm' i = Inr text \<and> (\<forall>j f. sm_get sm j = Inr f \<longrightarrow> sm_get sm' j = Inr f) \<and> sm_ok sm'"
proof -
  have u: "unat i = max 1 (length (sm_files sm))"
    using assms(2) by (simp add: add_in_memory_files(2) [OF assms(3)] unsigned_of_nat take_bit_nat_eq_self)
  have get: "sm_get sm' i = Inr \<lparr>file_name = name, file_text = text, file_line_starts = compute_line_starts text\<rparr>"
    by (cases "sm_files sm = []") (auto simp: sm_get_Inr u add_in_memory_files(1) [OF assms(3)] nth_append max_def Suc_le_eq)
  have "i \<noteq> Invalid_file" using u by (auto simp: Invalid_file_def max_def split: if_splits)
  moreover have "\<forall>f. sm_get sm i \<noteq> Inr f" by (auto simp: sm_get_Inr u)
  moreover have "\<forall>j f. sm_get sm j = Inr f \<longrightarrow> sm_get sm' j = Inr f"
    by (auto simp: sm_get_Inr add_in_memory_files(1) [OF assms(3)] nth_append)
  ultimately show ?thesis
    using get sm_ok_add_in_memory [OF assms(1,3)] by (simp add: sm_name_def sm_source_def)
qed

theorem add_in_memory_correct_witness:
  "\<exists>i sm'. add_in_memory ''b.vs'' ''z'' sample_manager = (i, sm') \<and> sm_source sm' i = Inr ''z''
     \<and> sm_get sm' 1 = sm_get sample_manager 1"
proof -
  obtain i sm' where a: "add_in_memory ''b.vs'' ''z'' sample_manager = (i, sm')" by fastforce
  have "length (sm_files sample_manager) < 2 ^ 32"
    by (simp add: sample_manager_def add_in_memory_def empty_source_manager_def)
  from add_in_memory_correct [OF sample_ok this a] have "sm_source sm' i = Inr ''z''"
    "sm_get sm' 1 = sm_get sample_manager 1" using sample_get by simp_all
  with a show ?thesis by blast
qed

text \<open>
  The interface every pass uses: it reports diagnostics into a sink and asks it for the number
  of errors. What a client concludes from an error count holds for any sink with these laws.
\<close>

locale diagnostic_sink =
  fixes push :: "diagnostic \<Rightarrow> 's \<Rightarrow> 's" and errors :: "'s \<Rightarrow> nat"
  assumes errors_push: "errors (push d s) = errors s + (if diag_severity d = Error then 1 else 0)"
begin

lemma errors_fold: "errors (fold push ds s) = errors s + length (filter (\<lambda>d. diag_severity d = Error) ds)"
  by (induction ds arbitrary: s) (simp_all add: errors_push)

lemma errors_unchanged: "errors (fold push ds s) = errors s \<longleftrightarrow> (\<forall>d \<in> set ds. diag_severity d \<noteq> Error)"
  by (auto simp: errors_fold filter_empty_conv)

end

interpretation sink: diagnostic_sink report error_count
  by unfold_locales (simp add: report_def split: severity.split)

lemma report_fold:
  "diagnostics (fold report ds r) = diagnostics r @ ds" "error_cap (fold report ds r) = error_cap r"
  "warning_count (fold report ds r) = warning_count r + length (filter (\<lambda>d. diag_severity d = Warning) ds)"
  by (induction ds arbitrary: r) (simp_all add: report_def split: severity.split)

text \<open>
  C40: A reporter keeps every diagnostic in the order of the reports, counts its errors and
  its warnings exactly, has errors when one of them is an error, and asks to stop from the cap
  on.
\<close>

theorem reporter_counts:
  "let r = fold report ds (new_reporter cap); n = length (filter (\<lambda>d. diag_severity d = Error) ds)
   in diagnostics r = ds \<and> error_count r = n
      \<and> warning_count r = length (filter (\<lambda>d. diag_severity d = Warning) ds)
      \<and> (has_errors r = (\<exists>d \<in> set ds. diag_severity d = Error)) \<and> (should_stop r = (cap \<le> n))"
  using sink.errors_unchanged [of ds "new_reporter cap"]
  by (auto simp: report_fold sink.errors_fold has_errors_def should_stop_def new_reporter_def Let_def)

end
