(* ===== verification/Tokens.thy ===== *)
theory Tokens
  imports Diag
begin

text \<open>
  The token kinds of \<^verbatim>\<open>include/vestra/lex/token.hpp\<close> and the two tables of
  \<^verbatim>\<open>src/lex/token.cpp\<close>: the spelling of a kind, which diagnostics print, and the keyword
  table that turns a scanned word into its kind. A constructor is the C++ enumerator
  with the prefix \<open>Tk\<close>.
\<close>

section \<open>Token kinds\<close>

text \<open>
  The enumeration, with its operators and its keywords as types of their own, as the
  comments of the enumeration group them: one datatype of 128 constructors costs Isabelle
  minutes. \<^verbatim>\<open>TokenKind::Plus\<close> is \<open>TkOp OpPlus\<close>, \<^verbatim>\<open>TokenKind::KwLet\<close> is \<open>TkKw KwLet\<close>.
\<close>

datatype (plugins only: code) op_kind =
    OpPlus | OpMinus | OpStar | OpSlash | OpPercent | OpAmpPlus | OpAmpMinus | OpAmpStar
  | OpAmp | OpPipe | OpCaret | OpTilde | OpBang | OpShiftL | OpShiftR | OpAssign | OpPlusEq
  | OpMinusEq | OpStarEq | OpSlashEq | OpPercentEq | OpAmpEq | OpPipeEq | OpCaretEq
  | OpShiftLEq | OpShiftREq | OpEqEq | OpBangEq | OpLt | OpGt | OpLtEq | OpGtEq | OpAmpAmp
  | OpPipePipe | OpQuestionQuestion

datatype (plugins only: code) keyword =
    KwModule | KwImport | KwFunc | KwStruct | KwEnum | KwProtocol | KwExtension | KwOpaque
  | KwType | KwEmbed | KwDeinit | KwLet | KwVar | KwConst | KwStatic | KwReturn | KwIf
  | KwElse | KwMatch | KwCase | KwDefault | KwFor | KwIn | KwWhile | KwBreak | KwContinue
  | KwWhere | KwDo | KwCatch | KwThrow | KwThrows | KwWith | KwUsing | KwAsync | KwAwait
  | KwSpawn | KwSelect | KwOn | KwComptime | KwQuote | KwCopy | KwRead | KwInout | KwSink
  | KwNonescaping | KwSome | KwDyn | KwLinear | KwTry | KwTryQuestion | KwTryBang | KwAs
  | KwAsQuestion | KwDerive | KwTrue | KwFalse | KwNil | KwSelfLower | KwSelfUpper
  | KwPrivate | KwInternal | KwPackage | KwPublic

datatype (plugins only: code) token_kind =
    TkEof | TkError | TkNewline | TkIntLit | TkFloatLit | TkStringLit | TkByteStringLit
  | TkCharLit | TkIdentifier | TkInterpStringBegin | TkInterpStringPart | TkInterpStringEnd
  | TkLParen | TkRParen | TkLBrace | TkRBrace | TkLBracket | TkRBracket | TkComma
  | TkSemicolon | TkColon | TkDot | TkDotDot | TkDotDotLt | TkArrow | TkFatArrow | TkAt
  | TkDollar | TkQuestion | TkUnderscore | TkOp op_kind | TkKw keyword


text \<open>
  A token: its kind, the source range it covers and its lexeme, which is a view into
  the source buffer.
\<close>

record token =
  tok_kind :: token_kind
  tok_range :: source_range
  tok_lexeme :: string

definition token_is :: "token \<Rightarrow> token_kind \<Rightarrow> bool" where
  "token_is t k \<longleftrightarrow> tok_kind t = k"

section \<open>Spellings\<close>

text \<open>
  The switch of \<^verbatim>\<open>spelling\<close>, one table per type. Its last line, for a value that is
  no enumerator, is unreachable.
\<close>

definition spelling_keyword :: "keyword \<Rightarrow> string" where
  "spelling_keyword k =
     (case k of
        KwModule \<Rightarrow> ''module''
      | KwImport \<Rightarrow> ''import''
      | KwFunc \<Rightarrow> ''func''
      | KwStruct \<Rightarrow> ''struct''
      | KwEnum \<Rightarrow> ''enum''
      | KwProtocol \<Rightarrow> ''protocol''
      | KwExtension \<Rightarrow> ''extension''
      | KwOpaque \<Rightarrow> ''opaque''
      | KwType \<Rightarrow> ''type''
      | KwEmbed \<Rightarrow> ''embed''
      | KwDeinit \<Rightarrow> ''deinit''
      | KwLet \<Rightarrow> ''let''
      | KwVar \<Rightarrow> ''var''
      | KwConst \<Rightarrow> ''const''
      | KwStatic \<Rightarrow> ''static''
      | KwReturn \<Rightarrow> ''return''
      | KwIf \<Rightarrow> ''if''
      | KwElse \<Rightarrow> ''else''
      | KwMatch \<Rightarrow> ''match''
      | KwCase \<Rightarrow> ''case''
      | KwDefault \<Rightarrow> ''default''
      | KwFor \<Rightarrow> ''for''
      | KwIn \<Rightarrow> ''in''
      | KwWhile \<Rightarrow> ''while''
      | KwBreak \<Rightarrow> ''break''
      | KwContinue \<Rightarrow> ''continue''
      | KwWhere \<Rightarrow> ''where''
      | KwDo \<Rightarrow> ''do''
      | KwCatch \<Rightarrow> ''catch''
      | KwThrow \<Rightarrow> ''throw''
      | KwThrows \<Rightarrow> ''throws''
      | KwWith \<Rightarrow> ''with''
      | KwUsing \<Rightarrow> ''using''
      | KwAsync \<Rightarrow> ''async''
      | KwAwait \<Rightarrow> ''await''
      | KwSpawn \<Rightarrow> ''spawn''
      | KwSelect \<Rightarrow> ''select''
      | KwOn \<Rightarrow> ''on''
      | KwComptime \<Rightarrow> ''comptime''
      | KwQuote \<Rightarrow> ''quote''
      | KwCopy \<Rightarrow> ''copy''
      | KwRead \<Rightarrow> ''read''
      | KwInout \<Rightarrow> ''inout''
      | KwSink \<Rightarrow> ''sink''
      | KwNonescaping \<Rightarrow> ''nonescaping''
      | KwSome \<Rightarrow> ''some''
      | KwDyn \<Rightarrow> ''dyn''
      | KwLinear \<Rightarrow> ''linear''
      | KwTry \<Rightarrow> ''try''
      | KwTryQuestion \<Rightarrow> ''try?''
      | KwTryBang \<Rightarrow> ''try!''
      | KwAs \<Rightarrow> ''as''
      | KwAsQuestion \<Rightarrow> ''as?''
      | KwDerive \<Rightarrow> ''derive''
      | KwTrue \<Rightarrow> ''true''
      | KwFalse \<Rightarrow> ''false''
      | KwNil \<Rightarrow> ''nil''
      | KwSelfLower \<Rightarrow> ''self''
      | KwSelfUpper \<Rightarrow> ''Self''
      | KwPrivate \<Rightarrow> ''private''
      | KwInternal \<Rightarrow> ''internal''
      | KwPackage \<Rightarrow> ''package''
      | KwPublic \<Rightarrow> ''public'')"

definition spelling_op :: "op_kind \<Rightarrow> string" where
  "spelling_op k =
     (case k of
        OpPlus \<Rightarrow> ''+''
      | OpMinus \<Rightarrow> ''-''
      | OpStar \<Rightarrow> ''*''
      | OpSlash \<Rightarrow> ''/''
      | OpPercent \<Rightarrow> ''%''
      | OpAmpPlus \<Rightarrow> ''&+''
      | OpAmpMinus \<Rightarrow> ''&-''
      | OpAmpStar \<Rightarrow> ''&*''
      | OpAmp \<Rightarrow> ''&''
      | OpPipe \<Rightarrow> ''|''
      | OpCaret \<Rightarrow> ''^''
      | OpTilde \<Rightarrow> ''~''
      | OpBang \<Rightarrow> ''!''
      | OpShiftL \<Rightarrow> ''<<''
      | OpShiftR \<Rightarrow> ''>>''
      | OpAssign \<Rightarrow> ''=''
      | OpPlusEq \<Rightarrow> ''+=''
      | OpMinusEq \<Rightarrow> ''-=''
      | OpStarEq \<Rightarrow> ''*=''
      | OpSlashEq \<Rightarrow> ''/=''
      | OpPercentEq \<Rightarrow> ''%=''
      | OpAmpEq \<Rightarrow> ''&=''
      | OpPipeEq \<Rightarrow> ''|=''
      | OpCaretEq \<Rightarrow> ''^=''
      | OpShiftLEq \<Rightarrow> ''<<=''
      | OpShiftREq \<Rightarrow> ''>>=''
      | OpEqEq \<Rightarrow> ''==''
      | OpBangEq \<Rightarrow> ''!=''
      | OpLt \<Rightarrow> ''<''
      | OpGt \<Rightarrow> ''>''
      | OpLtEq \<Rightarrow> ''<=''
      | OpGtEq \<Rightarrow> ''>=''
      | OpAmpAmp \<Rightarrow> ''&&''
      | OpPipePipe \<Rightarrow> ''||''
      | OpQuestionQuestion \<Rightarrow> ''??'')"

definition spelling :: "token_kind \<Rightarrow> string" where
  "spelling k =
     (case k of
        TkEof \<Rightarrow> ''<eof>''
      | TkError \<Rightarrow> ''<error>''
      | TkNewline \<Rightarrow> ''<newline>''
      | TkIntLit \<Rightarrow> ''integer literal''
      | TkFloatLit \<Rightarrow> ''float literal''
      | TkStringLit \<Rightarrow> ''string literal''
      | TkByteStringLit \<Rightarrow> ''byte string literal''
      | TkCharLit \<Rightarrow> ''character literal''
      | TkIdentifier \<Rightarrow> ''identifier''
      | TkInterpStringBegin \<Rightarrow> ''<interp string begin>''
      | TkInterpStringPart \<Rightarrow> ''interp string fragment''
      | TkInterpStringEnd \<Rightarrow> ''<interp string end>''
      | TkLParen \<Rightarrow> ''(''
      | TkRParen \<Rightarrow> '')''
      | TkLBrace \<Rightarrow> ''{''
      | TkRBrace \<Rightarrow> ''}''
      | TkLBracket \<Rightarrow> ''[''
      | TkRBracket \<Rightarrow> '']''
      | TkComma \<Rightarrow> '',''
      | TkSemicolon \<Rightarrow> '';''
      | TkColon \<Rightarrow> '':''
      | TkDot \<Rightarrow> ''.''
      | TkDotDot \<Rightarrow> ''..''
      | TkDotDotLt \<Rightarrow> ''..<''
      | TkArrow \<Rightarrow> ''->''
      | TkFatArrow \<Rightarrow> ''=>''
      | TkAt \<Rightarrow> ''@''
      | TkDollar \<Rightarrow> ''$''
      | TkQuestion \<Rightarrow> ''?''
      | TkUnderscore \<Rightarrow> ''_''
      | TkOp p \<Rightarrow> spelling_op p
      | TkKw w \<Rightarrow> spelling_keyword w)"

section \<open>Keywords\<close>

definition keyword_table :: "(string \<times> token_kind) list" where
  "keyword_table =
     [(''module'', TkKw KwModule), (''import'', TkKw KwImport), (''func'', TkKw KwFunc),
      (''struct'', TkKw KwStruct), (''enum'', TkKw KwEnum), (''protocol'', TkKw KwProtocol),
      (''extension'', TkKw KwExtension), (''opaque'', TkKw KwOpaque),
      (''type'', TkKw KwType), (''embed'', TkKw KwEmbed), (''deinit'', TkKw KwDeinit),
      (''let'', TkKw KwLet), (''var'', TkKw KwVar), (''const'', TkKw KwConst),
      (''static'', TkKw KwStatic), (''return'', TkKw KwReturn), (''if'', TkKw KwIf),
      (''else'', TkKw KwElse), (''match'', TkKw KwMatch), (''case'', TkKw KwCase),
      (''default'', TkKw KwDefault), (''for'', TkKw KwFor), (''in'', TkKw KwIn),
      (''while'', TkKw KwWhile), (''break'', TkKw KwBreak), (''continue'', TkKw KwContinue),
      (''where'', TkKw KwWhere), (''do'', TkKw KwDo), (''catch'', TkKw KwCatch),
      (''throw'', TkKw KwThrow), (''throws'', TkKw KwThrows), (''with'', TkKw KwWith),
      (''using'', TkKw KwUsing), (''async'', TkKw KwAsync), (''await'', TkKw KwAwait),
      (''spawn'', TkKw KwSpawn), (''select'', TkKw KwSelect), (''on'', TkKw KwOn),
      (''comptime'', TkKw KwComptime), (''quote'', TkKw KwQuote), (''copy'', TkKw KwCopy),
      (''read'', TkKw KwRead), (''inout'', TkKw KwInout), (''sink'', TkKw KwSink),
      (''nonescaping'', TkKw KwNonescaping), (''some'', TkKw KwSome), (''dyn'', TkKw KwDyn),
      (''linear'', TkKw KwLinear), (''try'', TkKw KwTry), (''as'', TkKw KwAs),
      (''derive'', TkKw KwDerive), (''true'', TkKw KwTrue), (''false'', TkKw KwFalse),
      (''nil'', TkKw KwNil), (''self'', TkKw KwSelfLower), (''Self'', TkKw KwSelfUpper),
      (''private'', TkKw KwPrivate), (''internal'', TkKw KwInternal),
      (''package'', TkKw KwPackage), (''public'', TkKw KwPublic)]"

definition keyword_or_identifier :: "string \<Rightarrow> token_kind" where
  "keyword_or_identifier lexeme =
     (case map_of keyword_table lexeme of Some k \<Rightarrow> k | None \<Rightarrow> TkIdentifier)"

section \<open>The tables are consistent\<close>

text \<open>The enumerators in the order of the header.\<close>

definition all_ops :: "op_kind list" where
  "all_ops = [OpPlus, OpMinus, OpStar, OpSlash, OpPercent, OpAmpPlus, OpAmpMinus, OpAmpStar,
     OpAmp, OpPipe, OpCaret, OpTilde, OpBang, OpShiftL, OpShiftR, OpAssign, OpPlusEq,
     OpMinusEq, OpStarEq, OpSlashEq, OpPercentEq, OpAmpEq, OpPipeEq, OpCaretEq, OpShiftLEq,
     OpShiftREq, OpEqEq, OpBangEq, OpLt, OpGt, OpLtEq, OpGtEq, OpAmpAmp, OpPipePipe,
     OpQuestionQuestion]"

definition all_keywords :: "keyword list" where
  "all_keywords = [KwModule, KwImport, KwFunc, KwStruct, KwEnum, KwProtocol, KwExtension,
     KwOpaque, KwType, KwEmbed, KwDeinit, KwLet, KwVar, KwConst, KwStatic, KwReturn, KwIf,
     KwElse, KwMatch, KwCase, KwDefault, KwFor, KwIn, KwWhile, KwBreak, KwContinue, KwWhere,
     KwDo, KwCatch, KwThrow, KwThrows, KwWith, KwUsing, KwAsync, KwAwait, KwSpawn, KwSelect,
     KwOn, KwComptime, KwQuote, KwCopy, KwRead, KwInout, KwSink, KwNonescaping, KwSome,
     KwDyn, KwLinear, KwTry, KwTryQuestion, KwTryBang, KwAs, KwAsQuestion, KwDerive, KwTrue,
     KwFalse, KwNil, KwSelfLower, KwSelfUpper, KwPrivate, KwInternal, KwPackage, KwPublic]"

definition all_kinds :: "token_kind list" where
  "all_kinds = [TkEof, TkError, TkNewline, TkIntLit, TkFloatLit, TkStringLit,
     TkByteStringLit, TkCharLit, TkIdentifier, TkInterpStringBegin, TkInterpStringPart,
     TkInterpStringEnd, TkLParen, TkRParen, TkLBrace, TkRBrace, TkLBracket, TkRBracket,
     TkComma, TkSemicolon, TkColon, TkDot, TkDotDot, TkDotDotLt, TkArrow, TkFatArrow, TkAt,
     TkDollar, TkQuestion, TkUnderscore]
     @ map TkOp all_ops @ map TkKw all_keywords"

lemma all_ops_UNIV: "p \<in> set all_ops"
  by (cases p) (simp_all add: all_ops_def)

lemma all_keywords_UNIV: "w \<in> set all_keywords"
  by (cases w) (simp_all add: all_keywords_def)

lemma all_kinds_UNIV: "k \<in> set all_kinds"
  by (cases k) (simp_all add: all_kinds_def all_ops_UNIV all_keywords_UNIV)

lemma distinct_spellings: "distinct (map spelling all_kinds)"
  by code_simp

lemma keyword_table_spells: "\<forall>(s, k) \<in> set keyword_table. spelling k = s \<and> k \<in> TkKw ` set all_keywords"
  by code_simp

lemma keyword_table_complete:
  "\<forall>w \<in> set all_keywords. w = KwTryQuestion \<or> w = KwTryBang \<or> w = KwAsQuestion
     \<or> map_of keyword_table (spelling_keyword w) = Some (TkKw w)"
  by code_simp

lemma keyword_or_identifier_TkKw:
  assumes "keyword_or_identifier s = TkKw w"
  shows "(s, TkKw w) \<in> set keyword_table"
  using assms by (auto simp: keyword_or_identifier_def dest!: map_of_SomeD split: option.splits)

lemma keyword_or_identifier_cases:
  "keyword_or_identifier s = TkIdentifier \<or> (\<exists>w. keyword_or_identifier s = TkKw w)"
  using keyword_table_spells
  by (fastforce simp: keyword_or_identifier_def dest: map_of_SomeD split: option.splits)

lemma map_of_keyword_table:
  "map_of keyword_table s = Some k \<Longrightarrow> spelling k = s \<and> k \<in> range TkKw"
  using keyword_table_spells by (fastforce dest: map_of_SomeD)

lemma keyword_table_excludes:
  "\<forall>w \<in> {KwTryQuestion, KwTryBang, KwAsQuestion}. map_of keyword_table (spelling_keyword w) = None"
  by code_simp

text \<open>
  C20: No two token kinds have the same spelling, so a diagnostic that prints a kind names it.
\<close>

theorem spelling_injective: "spelling a = spelling b \<longleftrightarrow> a = b"
  using distinct_spellings all_kinds_UNIV [of a] all_kinds_UNIV [of b]
  by (auto simp: distinct_map inj_on_def)

text \<open>
  C21: A scanned word is a keyword exactly when it is the spelling of that keyword, for every
  keyword but the three that the scanner builds from a word and a mark (\<^verbatim>\<open>try?\<close>,
  \<^verbatim>\<open>try!\<close> and \<^verbatim>\<open>as?\<close>); every other word is an identifier.
\<close>

theorem keyword_roundtrip:
  "(keyword_or_identifier s = TkKw w \<longleftrightarrow>
      s = spelling (TkKw w) \<and> w \<notin> {KwTryQuestion, KwTryBang, KwAsQuestion})
   \<and> keyword_or_identifier s \<in> insert TkIdentifier (range TkKw)"
proof -
  have "keyword_or_identifier s = TkKw w \<longleftrightarrow> map_of keyword_table s = Some (TkKw w)"
    by (auto simp: keyword_or_identifier_def split: option.splits)
  also have "\<dots> \<longleftrightarrow> s = spelling (TkKw w) \<and> w \<notin> {KwTryQuestion, KwTryBang, KwAsQuestion}"
  proof (intro iffI conjI)
    assume k: "map_of keyword_table s = Some (TkKw w)"
    from map_of_keyword_table [OF k] show s: "s = spelling (TkKw w)" by simp
    show "w \<notin> {KwTryQuestion, KwTryBang, KwAsQuestion}"
    proof
      assume "w \<in> {KwTryQuestion, KwTryBang, KwAsQuestion}"
      then have "map_of keyword_table (spelling_keyword w) = None" by (rule bspec [OF keyword_table_excludes])
      with k s show False by (simp add: spelling_def)
    qed
  next
    assume "s = spelling (TkKw w) \<and> w \<notin> {KwTryQuestion, KwTryBang, KwAsQuestion}"
    then show "map_of keyword_table s = Some (TkKw w)"
      using keyword_table_complete all_keywords_UNIV [of w] by (auto simp: spelling_def)
  qed
  finally show ?thesis using keyword_or_identifier_cases [of s] by auto
qed

end
