(* ===== verification/Lexer.thy ===== *)
theory Lexer
  imports Tokens
begin

text \<open>
  The lexer, \<^verbatim>\<open>include/vestra/lex/lexer.hpp\<close> and \<^verbatim>\<open>src/lex/lexer.cpp\<close>. The record
  \<open>lexer\<close> holds the members of the class, with the reporter it points to and the vector
  of tokens that every scanner receives as \<^verbatim>\<open>out\<close>. A method is a function from the state to the
  state. A \<^verbatim>\<open>while\<close> loop over the input is a recursive function whose measure is the input
  that is left. The stack of splice depths has its top first.
\<close>

declare One_nat_def [simp del]

section \<open>State\<close>

record lexer =
  lx_file :: file_id
  lx_reporter :: reporter
  lx_src :: string
  lx_pos :: nat
  bracket_depth :: int
  prev_was_operator :: bool
  splice_depths :: "int list"
  lx_out :: "token list"

definition new_lexer :: "source_manager \<Rightarrow> file_id \<Rightarrow> reporter \<Rightarrow> sm_error + lexer" where
  "new_lexer sm f rep =
     map_sum id (\<lambda>src. \<lparr>lx_file = f, lx_reporter = rep, lx_src = src, lx_pos = 0, bracket_depth = 0,
                        prev_was_operator = False, splice_depths = [], lx_out = []\<rparr>) (sm_source sm f)"

section \<open>Character classes\<close>

definition is_digit :: "char \<Rightarrow> bool" where
  "is_digit c \<longleftrightarrow> CHR ''0'' \<le> c \<and> c \<le> CHR ''9''"

definition is_id_start :: "char \<Rightarrow> bool" where
  "is_id_start c \<longleftrightarrow> (CHR ''a'' \<le> c \<and> c \<le> CHR ''z'') \<or> (CHR ''A'' \<le> c \<and> c \<le> CHR ''Z'') \<or> c = CHR ''_''"

definition is_id_cont :: "char \<Rightarrow> bool" where
  "is_id_cont c \<longleftrightarrow> is_id_start c \<or> is_digit c"

definition is_hex :: "char \<Rightarrow> bool" where
  "is_hex c \<longleftrightarrow> is_digit c \<or> (CHR ''a'' \<le> c \<and> c \<le> CHR ''f'') \<or> (CHR ''A'' \<le> c \<and> c \<le> CHR ''F'')"

definition is_oct :: "char \<Rightarrow> bool" where
  "is_oct c \<longleftrightarrow> CHR ''0'' \<le> c \<and> c \<le> CHR ''7''"

definition is_bin :: "char \<Rightarrow> bool" where
  "is_bin c \<longleftrightarrow> c = CHR ''0'' \<or> c = CHR ''1''"

text \<open>The operators that suppress a newline after them.\<close>

definition is_binary_operator :: "token_kind \<Rightarrow> bool" where
  "is_binary_operator k =
     (case k of
        TkOp OpPlus \<Rightarrow> True | TkOp OpMinus \<Rightarrow> True | TkOp OpStar \<Rightarrow> True | TkOp OpSlash \<Rightarrow> True
      | TkOp OpPercent \<Rightarrow> True | TkOp OpAmpPlus \<Rightarrow> True | TkOp OpAmpMinus \<Rightarrow> True
      | TkOp OpAmpStar \<Rightarrow> True | TkOp OpAmp \<Rightarrow> True | TkOp OpPipe \<Rightarrow> True | TkOp OpCaret \<Rightarrow> True
      | TkOp OpShiftL \<Rightarrow> True | TkOp OpShiftR \<Rightarrow> True | TkOp OpEqEq \<Rightarrow> True | TkOp OpBangEq \<Rightarrow> True
      | TkOp OpLt \<Rightarrow> True | TkOp OpGt \<Rightarrow> True | TkOp OpLtEq \<Rightarrow> True | TkOp OpGtEq \<Rightarrow> True
      | TkOp OpAmpAmp \<Rightarrow> True | TkOp OpPipePipe \<Rightarrow> True | TkOp OpQuestionQuestion \<Rightarrow> True
      | TkOp OpAssign \<Rightarrow> True | TkOp OpPlusEq \<Rightarrow> True | TkOp OpMinusEq \<Rightarrow> True | TkOp OpStarEq \<Rightarrow> True
      | TkOp OpSlashEq \<Rightarrow> True | TkOp OpPercentEq \<Rightarrow> True | TkOp OpAmpEq \<Rightarrow> True | TkOp OpPipeEq \<Rightarrow> True
      | TkOp OpCaretEq \<Rightarrow> True | TkOp OpShiftLEq \<Rightarrow> True | TkOp OpShiftREq \<Rightarrow> True
      | TkArrow \<Rightarrow> True | TkFatArrow \<Rightarrow> True | TkComma \<Rightarrow> True | TkColon \<Rightarrow> True
      | TkDotDot \<Rightarrow> True | TkDotDotLt \<Rightarrow> True
      | _ \<Rightarrow> False)"

section \<open>Position and emission\<close>

definition at_end :: "lexer \<Rightarrow> bool" where
  "at_end l \<longleftrightarrow> length (lx_src l) \<le> lx_pos l"

definition peek_at :: "lexer \<Rightarrow> nat \<Rightarrow> char" where
  "peek_at l ahead =
     (let p = lx_pos l + ahead in if p < length (lx_src l) then lx_src l ! p else chr_nul)"

abbreviation peek :: "lexer \<Rightarrow> char" where
  "peek l \<equiv> peek_at l 0"

definition skip :: "nat \<Rightarrow> lexer \<Rightarrow> lexer" where
  "skip n l = l\<lparr>lx_pos := lx_pos l + n\<rparr>"

text \<open>
  \<^verbatim>\<open>advance\<close> asserts that the input is not at its end. Every later position is at least the
  one it leaves, so a final position inside the input shows that no assertion failed.
\<close>

definition advance :: "lexer \<Rightarrow> char \<times> lexer" where
  "advance l = (lx_src l ! lx_pos l, skip 1 l)"

definition match :: "char \<Rightarrow> lexer \<Rightarrow> bool \<times> lexer" where
  "match expected l = (if peek l \<noteq> expected then (False, l) else (True, skip 1 l))"

definition loc_at :: "lexer \<Rightarrow> nat \<Rightarrow> source_loc" where
  "loc_at l off = \<lparr>loc_file = lx_file l, loc_offset = off\<rparr>"

definition range_from :: "lexer \<Rightarrow> nat \<Rightarrow> source_range" where
  "range_from l start = \<lparr>range_begin = loc_at l start, range_length = lx_pos l - start\<rparr>"

definition push_token :: "token \<Rightarrow> lexer \<Rightarrow> lexer" where
  "push_token t l = l\<lparr>lx_out := lx_out l @ [t]\<rparr>"

definition emit_with_text :: "token_kind \<Rightarrow> nat \<Rightarrow> string \<Rightarrow> lexer \<Rightarrow> lexer" where
  "emit_with_text k start text l =
     (let l1 = push_token \<lparr>tok_kind = k, tok_range = range_from l start, tok_lexeme = text\<rparr> l
      in if k \<noteq> TkNewline then l1\<lparr>prev_was_operator := is_binary_operator k\<rparr> else l1)"

definition emit :: "token_kind \<Rightarrow> nat \<Rightarrow> lexer \<Rightarrow> lexer" where
  "emit k start l =
     (let l1 = push_token \<lparr>tok_kind = k, tok_range = range_from l start,
                           tok_lexeme = substr (lx_src l) start (lx_pos l - start)\<rparr> l
      in if k \<noteq> TkNewline then l1\<lparr>prev_was_operator := is_binary_operator k\<rparr> else l1)"

definition error_at :: "source_range \<Rightarrow> string \<Rightarrow> lexer \<Rightarrow> lexer" where
  "error_at r msg l = l\<lparr>lx_reporter := report (diag_at r (diag_error msg)) (lx_reporter l)\<rparr>"

text \<open>The input that is left, which every loop of the lexer consumes.\<close>

definition remaining :: "lexer \<Rightarrow> nat" where
  "remaining l = length (lx_src l) - lx_pos l"

lemma remaining_skip: "\<not> at_end l \<Longrightarrow> 0 < n \<Longrightarrow> remaining (skip n l) < remaining l"
  by (simp add: remaining_def skip_def at_end_def)

section \<open>Whitespace and comments\<close>

function block_comment_loop :: "int \<Rightarrow> lexer \<Rightarrow> int \<times> lexer" where
  "block_comment_loop depth l =
     (if 0 < depth \<and> \<not> at_end l then
        (if peek l = CHR ''/'' \<and> peek_at l 1 = CHR ''*'' then block_comment_loop (depth + 1) (skip 2 l)
         else if peek l = CHR ''*'' \<and> peek_at l 1 = CHR ''/'' then block_comment_loop (depth - 1) (skip 2 l)
         else block_comment_loop depth (skip 1 l))
      else (depth, l))"
  by pat_completeness auto
termination
  by (relation "measure (\<lambda>(d, l). remaining l)") (simp_all add: remaining_skip)

definition scan_block_comment :: "lexer \<Rightarrow> lexer" where
  "scan_block_comment l =
     (case block_comment_loop 1 l of
        (depth, l1) \<Rightarrow>
          if depth \<noteq> 0
          then error_at \<lparr>range_begin = loc_at l1 (lx_pos l1), range_length = 0\<rparr> ''unterminated block comment'' l1
          else l1)"

function skip_line :: "string \<Rightarrow> nat \<Rightarrow> nat" where
  "skip_line src scan =
     (if scan < length src \<and> src ! scan \<noteq> chr_nl then skip_line src (scan + 1) else scan)"
  by pat_completeness auto
termination
  by (relation "measure (\<lambda>(src, scan). length src - scan)") auto

definition is_blank :: "char \<Rightarrow> bool" where
  "is_blank c \<longleftrightarrow> c = CHR '' '' \<or> c = chr_tab \<or> c = chr_cr"

declare skip_line.simps [simp del] block_comment_loop.simps [simp del]

lemma skip_line_ge: "scan \<le> skip_line src scan"
  by (induction src scan rule: skip_line.induct) (subst skip_line.simps, auto)

lemma skip_line_gt: "scan < length src \<Longrightarrow> src ! scan \<noteq> chr_nl \<Longrightarrow> scan < skip_line src scan"
  by (subst skip_line.simps) (use skip_line_ge [of "scan + 1" src] in simp)

text \<open>The lookahead after a newline: the position of the next significant character.\<close>

function lookahead :: "string \<Rightarrow> nat \<Rightarrow> nat" where
  "lookahead src scan =
     (if scan < length src then
        (let d = src ! scan in
         if is_blank d \<or> d = chr_nl then lookahead src (scan + 1)
         else if d = CHR ''/'' \<and> scan + 1 < length src \<and> src ! (scan + 1) = CHR ''/''
         then lookahead src (skip_line src scan)
         else scan)
      else scan)"
  by pat_completeness auto
termination
proof (relation "measure (\<lambda>(src, scan). length src - scan)", goal_cases)
  case (3 src scan d)
  then show ?case using skip_line_gt [of scan src] by (auto simp: diff_less_mono2)
qed simp_all

declare lookahead.simps [simp del]

definition continues_line :: "char \<Rightarrow> bool" where
  "continues_line d \<longleftrightarrow> d = CHR ''+'' \<or> d = CHR ''-'' \<or> d = CHR ''*'' \<or> d = CHR ''/'' \<or> d = CHR ''%''
     \<or> d = CHR ''|'' \<or> d = CHR ''^'' \<or> d = CHR ''?'' \<or> d = CHR ''.''"

definition next_starts_with_operator :: "lexer \<Rightarrow> bool" where
  "next_starts_with_operator l =
     (let scan = lookahead (lx_src l) (lx_pos l)
      in scan < length (lx_src l) \<and> continues_line (lx_src l ! scan))"

text \<open>The branch of a newline, after the position has moved past it.\<close>

definition handle_newline :: "nat \<Rightarrow> lexer \<Rightarrow> lexer" where
  "handle_newline start l =
     (if 0 < bracket_depth l \<or> prev_was_operator l then l
      else if \<not> next_starts_with_operator l then emit_with_text TkNewline start [chr_nl] l
      else l)"


text \<open>The line comment: the position moves to the end of the line.\<close>

function skip_to_newline :: "lexer \<Rightarrow> lexer" where
  "skip_to_newline l =
     (if \<not> at_end l \<and> peek l \<noteq> chr_nl then skip_to_newline (skip 1 l) else l)"
  by pat_completeness auto
termination
  by (relation "measure remaining") (simp_all add: remaining_skip)

declare skip_to_newline.simps [simp del]

lemma remaining_skip_le: "remaining (skip n l) \<le> remaining l"
  by (simp add: remaining_def skip_def)

lemma remaining_error_at [simp]: "remaining (error_at r msg l) = remaining l"
  by (simp add: remaining_def error_at_def)

lemma remaining_block_comment: "remaining (snd (block_comment_loop d l)) \<le> remaining l"
proof (induction d l rule: block_comment_loop.induct)
  case (1 d l)
  then show ?case
    by (subst block_comment_loop.simps)
       (use remaining_skip_le [of 1 l] remaining_skip_le [of 2 l] in auto)
qed

lemma remaining_scan_block_comment: "remaining (scan_block_comment l) \<le> remaining l"
  using remaining_block_comment [of 1 l] by (auto simp: scan_block_comment_def split: prod.split)

lemma remaining_skip_to_newline: "remaining (skip_to_newline l) \<le> remaining l"
proof (induction l rule: skip_to_newline.induct)
  case (1 l)
  then show ?case by (subst skip_to_newline.simps) (use remaining_skip_le [of 1 l] in auto)
qed

lemma remaining_skip_to_newline_less:
  assumes "\<not> at_end l" "peek l \<noteq> chr_nl"
  shows "remaining (skip_to_newline l) < remaining l"
  using assms remaining_skip_to_newline [of "skip 1 l"] remaining_skip [of l 1]
  by (subst skip_to_newline.simps) simp

lemma remaining_handle_newline [simp]: "remaining (handle_newline start l) = remaining l"
  by (simp add: remaining_def handle_newline_def emit_with_text_def push_token_def)

function skip_whitespace_and_comments :: "lexer \<Rightarrow> lexer" where
  "skip_whitespace_and_comments l =
     (if at_end l then l
      else
        (let c = peek l in
         if is_blank c then skip_whitespace_and_comments (skip 1 l)
         else if c = chr_nl then skip_whitespace_and_comments (handle_newline (lx_pos l) (skip 1 l))
         else if c = CHR ''/'' \<and> peek_at l 1 = CHR ''/'' then skip_whitespace_and_comments (skip_to_newline l)
         else if c = CHR ''/'' \<and> peek_at l 1 = CHR ''*''
         then skip_whitespace_and_comments (scan_block_comment (skip 2 l))
         else l))"
  by pat_completeness auto
termination
proof (relation "measure remaining", goal_cases)
  case (5 l)
  then show ?case
    using remaining_scan_block_comment [of "skip 2 l"] remaining_skip [of l 2] by simp
qed (simp_all add: remaining_skip remaining_skip_to_newline_less)

declare skip_whitespace_and_comments.simps [simp del]

section \<open>Numbers, identifiers, strings and characters\<close>

function eat_digits :: "(char \<Rightarrow> bool) \<Rightarrow> lexer \<Rightarrow> lexer" where
  "eat_digits pred l =
     (if \<not> at_end l \<and> (pred (peek l) \<or> peek l = CHR ''_'') then eat_digits pred (skip 1 l) else l)"
  by pat_completeness auto
termination
  by (relation "measure (\<lambda>(p, l). remaining l)") (simp_all add: remaining_skip)

declare eat_digits.simps [simp del]

definition scan_fraction :: "bool \<Rightarrow> lexer \<Rightarrow> bool \<times> lexer" where
  "scan_fraction is_float l =
     (if peek l = CHR ''.'' \<and> is_digit (peek_at l 1)
      then (True, eat_digits is_digit (snd (advance l))) else (is_float, l))"

definition scan_exponent :: "bool \<Rightarrow> lexer \<Rightarrow> bool \<times> lexer" where
  "scan_exponent is_float l =
     (if peek l = CHR ''e'' \<or> peek l = CHR ''E'' then
        (let l1 = snd (advance l);
             l2 = (if peek l1 = CHR ''+'' \<or> peek l1 = CHR ''-'' then snd (advance l1) else l1)
         in (True, eat_digits is_digit l2))
      else (is_float, l))"

definition scan_number :: "nat \<Rightarrow> lexer \<Rightarrow> lexer" where
  "scan_number start l =
     (case (if lx_src l ! start = CHR ''0''
               \<and> (peek l = CHR ''x'' \<or> peek l = CHR ''o'' \<or> peek l = CHR ''b'') then
              (case advance l of
                 (base, l1) \<Rightarrow>
                   (False, if base = CHR ''x'' then eat_digits is_hex l1
                           else if base = CHR ''o'' then eat_digits is_oct l1
                           else eat_digits is_bin l1))
            else
              (case scan_fraction False (eat_digits is_digit l) of
                 (is_float, l1) \<Rightarrow> scan_exponent is_float l1)) of
        (is_float, l2) \<Rightarrow> emit (if is_float then TkFloatLit else TkIntLit) start l2)"

function eat_identifier :: "lexer \<Rightarrow> lexer" where
  "eat_identifier l = (if \<not> at_end l \<and> is_id_cont (peek l) then eat_identifier (skip 1 l) else l)"
  by pat_completeness auto
termination
  by (relation "measure remaining") (simp_all add: remaining_skip)

declare eat_identifier.simps [simp del]

definition scan_identifier :: "nat \<Rightarrow> lexer \<Rightarrow> lexer" where
  "scan_identifier start l =
     (let l1 = eat_identifier l;
          lex = substr (lx_src l1) start (lx_pos l1 - start);
          kind = keyword_or_identifier lex;
          kl = (if kind = TkKw KwTry then
                  (if peek l1 = CHR ''?'' then (TkKw KwTryQuestion, snd (advance l1))
                   else if peek l1 = CHR ''!'' then (TkKw KwTryBang, snd (advance l1))
                   else (kind, l1))
                else if kind = TkKw KwAs \<and> peek l1 = CHR ''?'' then (TkKw KwAsQuestion, snd (advance l1))
                else (kind, l1));
          kind2 = (if fst kl = TkIdentifier \<and> lex = ''_'' then TkUnderscore else fst kl)
      in emit kind2 start (snd kl))"

text \<open>An escape: the backslash and, unless the input ends there, the character after it.\<close>

definition skip_escape :: "lexer \<Rightarrow> lexer" where
  "skip_escape l = (let l1 = snd (advance l) in if \<not> at_end l1 then snd (advance l1) else l1)"

lemma remaining_advance: "\<not> at_end l \<Longrightarrow> remaining (snd (advance l)) < remaining l"
  by (simp add: advance_def remaining_skip)

lemma remaining_skip_escape: "\<not> at_end l \<Longrightarrow> remaining (skip_escape l) < remaining l"
  using remaining_advance [of l] remaining_advance [of "snd (advance l)"]
  by (auto simp: skip_escape_def Let_def)

text \<open>The scan ahead for a splice: whether the literal holds one before its closing quote.\<close>

function has_splice :: "lexer \<Rightarrow> bool" where
  "has_splice l =
     (if at_end l then False
      else
        (let c = peek l in
         if c = chr_dquote \<or> c = chr_nl then False
         else if c = chr_backslash then
           (if peek_at l 1 = CHR ''('' then True else has_splice (skip_escape l))
         else has_splice (snd (advance l))))"
  by pat_completeness auto
termination
  by (relation "measure remaining") (simp_all add: remaining_advance remaining_skip_escape)

declare has_splice.simps [simp del]

function string_loop :: "nat \<Rightarrow> bool \<Rightarrow> lexer \<Rightarrow> lexer" where
  "string_loop start is_byte l =
     (if at_end l then
        emit TkError start
          (error_at \<lparr>range_begin = loc_at l (lx_pos l), range_length = 0\<rparr>
             ''unterminated string literal at end of file'' l)
      else
        (let c = peek l in
         if c = chr_dquote then emit (if is_byte then TkByteStringLit else TkStringLit) start (snd (advance l))
         else if c = chr_backslash then string_loop start is_byte (skip_escape l)
         else if c = chr_nl then
           emit TkError start
             (error_at \<lparr>range_begin = loc_at l (lx_pos l), range_length = 1\<rparr>
                ''unterminated string literal'' l)
         else string_loop start is_byte (snd (advance l))))"
  by pat_completeness auto
termination
  by (relation "measure (\<lambda>(s, b, l). remaining l)") (simp_all add: remaining_advance remaining_skip_escape)

declare string_loop.simps [simp del]

definition emit_part :: "nat \<Rightarrow> nat \<Rightarrow> lexer \<Rightarrow> lexer" where
  "emit_part frag_start frag_end l =
     push_token \<lparr>tok_kind = TkInterpStringPart,
                 tok_range = \<lparr>range_begin = loc_at l frag_start, range_length = frag_end - frag_start\<rparr>,
                 tok_lexeme = substr (lx_src l) frag_start (frag_end - frag_start)\<rparr> l"

definition open_splice :: "lexer \<Rightarrow> lexer" where
  "open_splice l =
     (let marker_start = lx_pos l;
          l1 = snd (advance (snd (advance l)));
          l2 = l1\<lparr>bracket_depth := bracket_depth l1 + 1\<rparr>;
          l3 = l2\<lparr>splice_depths := bracket_depth l2 # splice_depths l2\<rparr>
      in emit TkLParen marker_start l3)"

function interp_loop :: "nat \<Rightarrow> lexer \<Rightarrow> lexer" where
  "interp_loop frag_start l =
     (if at_end l then
        emit TkError frag_start
          (error_at \<lparr>range_begin = loc_at l frag_start, range_length = lx_pos l - frag_start\<rparr>
             ''unterminated interpolated string literal at end of file'' l)
      else
        (let c = peek l in
         if c = chr_dquote then
           emit TkInterpStringEnd (lx_pos l) (snd (advance (emit_part frag_start (lx_pos l) l)))
         else if c = chr_backslash \<and> peek_at l 1 = CHR ''('' then
           open_splice (emit_part frag_start (lx_pos l) l)
         else if c = chr_backslash then interp_loop frag_start (skip_escape l)
         else if c = chr_nl then
           emit TkError frag_start
             (error_at \<lparr>range_begin = loc_at l (lx_pos l), range_length = 1\<rparr>
                ''unterminated interpolated string literal'' l)
         else interp_loop frag_start (snd (advance l))))"
  by pat_completeness auto
termination
  by (relation "measure (\<lambda>(s, l). remaining l)") (simp_all add: remaining_advance remaining_skip_escape)

declare interp_loop.simps [simp del]

definition scan_interp_continue :: "lexer \<Rightarrow> lexer" where
  "scan_interp_continue l = interp_loop (lx_pos l) l"

definition scan_string :: "nat \<Rightarrow> bool \<Rightarrow> lexer \<Rightarrow> lexer" where
  "scan_string start is_byte l =
     (if \<not> is_byte \<and> has_splice l then scan_interp_continue (emit TkInterpStringBegin start l)
      else string_loop start is_byte l)"

definition scan_char :: "nat \<Rightarrow> lexer \<Rightarrow> lexer" where
  "scan_char start l =
     (let l1 = (if peek l = chr_backslash then skip_escape l
                else if \<not> at_end l \<and> peek l \<noteq> chr_squote then snd (advance l)
                else l)
      in if peek l1 \<noteq> chr_squote
         then emit TkError start (error_at (range_from l1 start) ''unterminated character literal'' l1)
         else emit TkCharLit start (snd (advance l1)))"

section \<open>The main loop\<close>

text \<open>
  Punctuation and operators, after their first character \<open>c\<close> has been consumed:
  \<open>None\<close> when no case of the switch takes it.
\<close>

definition emit_if_match ::
  "char \<Rightarrow> token_kind \<Rightarrow> nat \<Rightarrow> (lexer \<Rightarrow> lexer) \<Rightarrow> lexer \<Rightarrow> lexer" where
  "emit_if_match e k start els l =
     (case match e l of (True, l1) \<Rightarrow> emit k start l1 | (False, l1) \<Rightarrow> els l1)"

definition scan_shift :: "char \<Rightarrow> op_kind \<Rightarrow> op_kind \<Rightarrow> op_kind \<Rightarrow> op_kind \<Rightarrow> nat \<Rightarrow> lexer \<Rightarrow> lexer" where
  "scan_shift c shift_eq shift cmp_eq cmp start l =
     (case match c l of
        (True, l1) \<Rightarrow> emit_if_match CHR ''='' (TkOp shift_eq) start (emit (TkOp shift) start) l1
      | (False, l1) \<Rightarrow> emit_if_match CHR ''='' (TkOp cmp_eq) start (emit (TkOp cmp) start) l1)"

definition scan_operator :: "char \<Rightarrow> nat \<Rightarrow> lexer \<Rightarrow> lexer option" where
  "scan_operator c start l =
     (if c = CHR '','' then Some (emit TkComma start l)
      else if c = CHR '';'' then Some (emit TkSemicolon start l)
      else if c = CHR ''@'' then Some (emit TkAt start l)
      else if c = CHR ''$'' then Some (emit TkDollar start l)
      else if c = CHR ''~'' then Some (emit (TkOp OpTilde) start l)
      else if c = CHR '':'' then Some (emit TkColon start l)
      else if c = CHR ''.'' then
        Some (case match CHR ''.'' l of
                (True, l1) \<Rightarrow> emit_if_match CHR ''<'' TkDotDotLt start (emit TkDotDot start) l1
              | (False, l1) \<Rightarrow> emit TkDot start l1)
      else if c = CHR ''?'' then
        Some (emit_if_match CHR ''?'' (TkOp OpQuestionQuestion) start (emit TkQuestion start) l)
      else if c = CHR ''+'' then Some (emit_if_match CHR ''='' (TkOp OpPlusEq) start (emit (TkOp OpPlus) start) l)
      else if c = CHR ''-'' then
        Some (emit_if_match CHR ''='' (TkOp OpMinusEq) start
               (emit_if_match CHR ''>'' TkArrow start (emit (TkOp OpMinus) start)) l)
      else if c = CHR ''*'' then Some (emit_if_match CHR ''='' (TkOp OpStarEq) start (emit (TkOp OpStar) start) l)
      else if c = CHR ''/'' then Some (emit_if_match CHR ''='' (TkOp OpSlashEq) start (emit (TkOp OpSlash) start) l)
      else if c = CHR ''%'' then Some (emit_if_match CHR ''='' (TkOp OpPercentEq) start (emit (TkOp OpPercent) start) l)
      else if c = CHR ''^'' then Some (emit_if_match CHR ''='' (TkOp OpCaretEq) start (emit (TkOp OpCaret) start) l)
      else if c = CHR ''&'' then
        Some (emit_if_match CHR ''&'' (TkOp OpAmpAmp) start
               (emit_if_match CHR ''='' (TkOp OpAmpEq) start
                 (emit_if_match CHR ''+'' (TkOp OpAmpPlus) start
                   (emit_if_match CHR ''-'' (TkOp OpAmpMinus) start
                     (emit_if_match CHR ''*'' (TkOp OpAmpStar) start (emit (TkOp OpAmp) start))))) l)
      else if c = CHR ''|'' then
        Some (emit_if_match CHR ''|'' (TkOp OpPipePipe) start
               (emit_if_match CHR ''='' (TkOp OpPipeEq) start (emit (TkOp OpPipe) start)) l)
      else if c = CHR ''='' then
        Some (emit_if_match CHR ''='' (TkOp OpEqEq) start
               (emit_if_match CHR ''>'' TkFatArrow start (emit (TkOp OpAssign) start)) l)
      else if c = CHR ''!'' then Some (emit_if_match CHR ''='' (TkOp OpBangEq) start (emit (TkOp OpBang) start) l)
      else if c = CHR ''<'' then Some (scan_shift CHR ''<'' OpShiftLEq OpShiftL OpLtEq OpLt start l)
      else if c = CHR ''>'' then Some (scan_shift CHR ''>'' OpShiftREq OpShiftR OpGtEq OpGt start l)
      else None)"

definition scan_other :: "char \<Rightarrow> nat \<Rightarrow> lexer \<Rightarrow> lexer" where
  "scan_other c start l =
     (if c = CHR ''b'' \<and> peek l = chr_dquote then scan_string start True (snd (advance l))
      else if is_digit c then scan_number start l
      else if is_id_start c then scan_identifier start l
      else emit TkError start
             (error_at (range_from l start) (''unexpected character '' @ [chr_squote, c, chr_squote]) l))"

definition bracket_change :: "int \<Rightarrow> lexer \<Rightarrow> lexer" where
  "bracket_change d l = l\<lparr>bracket_depth := bracket_depth l + d\<rparr>"

text \<open>A closing parenthesis that ends a splice resumes the string it interrupts.\<close>

definition close_paren :: "nat \<Rightarrow> lexer \<Rightarrow> lexer" where
  "close_paren start l =
     (let l1 = emit TkRParen start (bracket_change (- 1) l)
      in case splice_depths l1 of
           [] \<Rightarrow> l1
         | depth # rest \<Rightarrow>
             if bracket_depth l1 < depth then scan_interp_continue (l1\<lparr>splice_depths := rest\<rparr>) else l1)"

definition scan_token :: "lexer \<Rightarrow> lexer" where
  "scan_token l0 =
     (let start = lx_pos l0; c = fst (advance l0); l = snd (advance l0) in
      if c = CHR ''('' then emit TkLParen start (bracket_change 1 l)
      else if c = CHR '')'' then close_paren start l
      else if c = CHR ''['' then emit TkLBracket start (bracket_change 1 l)
      else if c = CHR '']'' then emit TkRBracket start (bracket_change (- 1) l)
      else if c = CHR ''{'' then emit TkLBrace start (bracket_change 1 l)
      else if c = CHR ''}'' then emit TkRBrace start (bracket_change (- 1) l)
      else if c = chr_dquote then scan_string start False l
      else if c = chr_squote then scan_char start l
      else (case scan_operator c start l of Some l1 \<Rightarrow> l1 | None \<Rightarrow> scan_other c start l))"


section \<open>What a scanner does to the state\<close>

text \<open>A move: the position goes forward inside the input and nothing else changes.\<close>

definition moves :: "lexer \<Rightarrow> lexer \<Rightarrow> bool" where
  "moves l l' \<longleftrightarrow> l' = l\<lparr>lx_pos := lx_pos l'\<rparr> \<and> lx_pos l \<le> lx_pos l' \<and> lx_pos l' \<le> length (lx_src l)"

lemma moves_refl [simp]: "moves l l \<longleftrightarrow> lx_pos l \<le> length (lx_src l)"
  by (simp add: moves_def)

lemma moves_src: "moves l l' \<Longrightarrow> lx_src l' = lx_src l"
  by (cases l; cases l') (simp add: moves_def)

lemma moves_trans [trans]: "moves a b \<Longrightarrow> moves b c \<Longrightarrow> moves a c"
  by (cases a; cases b; cases c) (simp add: moves_def)

lemma moves_skip: "lx_pos l + n \<le> length (lx_src l) \<Longrightarrow> moves l (skip n l)"
  by (simp add: moves_def skip_def)

lemma moves_skip1: "\<not> at_end l \<Longrightarrow> moves l (skip 1 l)"
  by (rule moves_skip) (simp add: at_end_def)

lemma peek_at_not_end: "peek_at l n \<noteq> chr_nul \<Longrightarrow> lx_pos l + n < length (lx_src l)"
  by (simp add: peek_at_def Let_def split: if_splits)

lemma peek_not_end: "peek l \<noteq> chr_nul \<Longrightarrow> \<not> at_end l"
  using peek_at_not_end [of l 0] by (simp add: at_end_def)

lemma moves_advance: "\<not> at_end l \<Longrightarrow> moves l (snd (advance l))"
  using moves_skip1 [of l] by (simp add: advance_def)

lemma moves_bound: "moves l l' \<Longrightarrow> lx_pos l' \<le> length (lx_src l')"
  by (frule moves_src) (simp only: moves_def)

lemma moves_skip_escape: "\<not> at_end l \<Longrightarrow> moves l (skip_escape l)"
  using moves_advance [of l] moves_trans [OF moves_advance moves_advance, of l]
  by (simp add: skip_escape_def Let_def)

lemma moves_step: "moves l a \<Longrightarrow> (lx_pos a \<le> length (lx_src a) \<Longrightarrow> moves a b) \<Longrightarrow> moves l b"
  by (blast intro: moves_trans moves_bound)

lemma moves_eat_digits: "lx_pos l \<le> length (lx_src l) \<Longrightarrow> moves l (eat_digits p l)"
proof (induction p l rule: eat_digits.induct)
  case (1 p l)
  then show ?case
    by (subst eat_digits.simps) (auto intro: moves_step [of l "skip 1 l"] moves_skip1)
qed

lemma moves_eat_identifier: "lx_pos l \<le> length (lx_src l) \<Longrightarrow> moves l (eat_identifier l)"
proof (induction l rule: eat_identifier.induct)
  case (1 l)
  then show ?case
    by (subst eat_identifier.simps) (auto intro: moves_step [of l "skip 1 l"] moves_skip1)
qed

lemma moves_skip_to_newline: "lx_pos l \<le> length (lx_src l) \<Longrightarrow> moves l (skip_to_newline l)"
proof (induction l rule: skip_to_newline.induct)
  case (1 l)
  then show ?case
    by (subst skip_to_newline.simps) (auto intro: moves_step [of l "skip 1 l"] moves_skip1)
qed

lemma moves_skip2: "peek_at l 1 \<noteq> chr_nul \<Longrightarrow> moves l (skip 2 l)"
  using peek_at_not_end [of l 1] by (intro moves_skip) simp

lemma moves_block_comment: "lx_pos l \<le> length (lx_src l) \<Longrightarrow> moves l (snd (block_comment_loop d l))"
proof (induction d l rule: block_comment_loop.induct)
  case (1 d l)
  consider (stop) "\<not> (0 < d \<and> \<not> at_end l)"
    | (opens) "0 < d" "\<not> at_end l" "peek l = CHR ''/''" "peek_at l 1 = CHR ''*''"
    | (closes) "0 < d" "\<not> at_end l" "\<not> (peek l = CHR ''/'' \<and> peek_at l 1 = CHR ''*'')"
        "peek l = CHR ''*''" "peek_at l 1 = CHR ''/''"
    | (other) "0 < d" "\<not> at_end l" "\<not> (peek l = CHR ''/'' \<and> peek_at l 1 = CHR ''*'')"
        "\<not> (peek l = CHR ''*'' \<and> peek_at l 1 = CHR ''/'')"
    by blast
  then show ?case
  proof cases
    case stop then show ?thesis using 1 by (subst block_comment_loop.simps) (simp only: if_False snd_conv moves_refl)
  next
    case opens then show ?thesis using 1
      by (subst block_comment_loop.simps) (simp, rule moves_step [of l "skip 2 l"], simp_all add: moves_skip2)
  next
    case closes then show ?thesis using 1
      by (subst block_comment_loop.simps) (simp, rule moves_step [of l "skip 2 l"], simp_all add: moves_skip2)
  next
    case other then show ?thesis using 1
      by (subst block_comment_loop.simps)
         (simp only: if_True if_False simp_thms, rule moves_step [of l "skip 1 l"], simp_all add: moves_skip1)
  qed
qed

text \<open>
  The contract of a scanner: it moves on, reports at most one error, and emits one token that
  begins where the scanner was started, which is no bracket and no newline. The token
  is an error token when, and only when, an error was reported.
\<close>

fun kind_depth :: "token_kind \<Rightarrow> int" where
  "kind_depth TkLParen = 1"
| "kind_depth TkLBracket = 1"
| "kind_depth TkLBrace = 1"
| "kind_depth TkRParen = - 1"
| "kind_depth TkRBracket = - 1"
| "kind_depth TkRBrace = - 1"
| "kind_depth _ = 0"

definition plain_kind :: "token_kind \<Rightarrow> bool" where
  "plain_kind k \<longleftrightarrow> kind_depth k = 0 \<and> k \<noteq> TkNewline \<and> k \<noteq> TkEof"

definition lexes :: "lexer \<Rightarrow> nat \<Rightarrow> lexer \<Rightarrow> bool" where
  "lexes l start l' \<longleftrightarrow>
     (\<exists>k l1. moves l l1 \<and> plain_kind k \<and>
        ((k \<noteq> TkError \<and> l' = emit k start l1)
         \<or> (k = TkError \<and> (\<exists>r msg. l' = emit TkError start (error_at r msg l1)))))"

lemma lexesI: "moves l l1 \<Longrightarrow> plain_kind k \<Longrightarrow> k \<noteq> TkError \<Longrightarrow> lexes l start (emit k start l1)"
  by (auto simp: lexes_def)

lemma lexes_errorI: "moves l l1 \<Longrightarrow> lexes l start (emit TkError start (error_at r msg l1))"
  unfolding lexes_def plain_kind_def by (rule exI [of _ TkError], rule exI [of _ l1]) auto

lemma lexes_moves: "moves l l1 \<Longrightarrow> lexes l1 start l' \<Longrightarrow> lexes l start l'"
  by (auto simp: lexes_def dest: moves_trans)


lemma moves_scan_fraction: "lx_pos l \<le> length (lx_src l) \<Longrightarrow> moves l (snd (scan_fraction b l))"
  by (auto simp: scan_fraction_def
      intro!: moves_step [OF moves_advance moves_eat_digits] peek_not_end)

lemma moves_scan_exponent: "lx_pos l \<le> length (lx_src l) \<Longrightarrow> moves l (snd (scan_exponent b l))"
  by (auto simp: scan_exponent_def Let_def
      intro!: moves_step [OF moves_advance] moves_step [OF moves_advance moves_eat_digits]
        moves_eat_digits peek_not_end)

lemma lexes_emit_case:
  assumes "moves l (snd q)" "\<And>b. plain_kind (k b) \<and> k b \<noteq> TkError"
  shows "lexes l start (case q of (b, l2) \<Rightarrow> emit (k b) start l2)"
  using assms by (cases q) (auto intro: lexesI)

lemma plain_kind_simps [simp]:
  "plain_kind TkIntLit" "plain_kind TkFloatLit" "plain_kind TkStringLit" "plain_kind TkByteStringLit"
  "plain_kind TkCharLit" "plain_kind TkIdentifier" "plain_kind TkUnderscore" "plain_kind TkInterpStringBegin"
  "plain_kind TkInterpStringEnd" "plain_kind TkComma" "plain_kind TkSemicolon" "plain_kind TkColon"
  "plain_kind TkDot" "plain_kind TkDotDot" "plain_kind TkDotDotLt" "plain_kind TkArrow"
  "plain_kind TkFatArrow" "plain_kind TkAt" "plain_kind TkDollar" "plain_kind TkQuestion"
  "plain_kind TkError" "plain_kind (TkOp p)" "plain_kind (TkKw w)"
  by (simp_all add: plain_kind_def)

lemma lexes_scan_number:
  assumes "lx_pos l \<le> length (lx_src l)"
  shows "lexes l start (scan_number start l)"
  unfolding scan_number_def
proof (rule lexes_emit_case)
  have prefixed: "moves l (eat_digits p (snd (advance l)))" if "peek l \<noteq> chr_nul" for p
    by (rule moves_step [OF moves_advance moves_eat_digits]) (use that peek_not_end in auto)
  have plain: "moves l (snd (case scan_fraction False (eat_digits is_digit l) of (f, l1) \<Rightarrow> scan_exponent f l1))"
    using moves_eat_digits [OF assms, of is_digit]
    unfolding case_prod_beta
    by (intro moves_step [OF _ moves_scan_exponent] moves_step [OF _ moves_scan_fraction]) simp_all
  show "moves l (snd (if lx_src l ! start = CHR ''0'' \<and> (peek l = CHR ''x'' \<or> peek l = CHR ''o'' \<or> peek l = CHR ''b'')
     then (case advance l of (base, l1) \<Rightarrow>
             (False, if base = CHR ''x'' then eat_digits is_hex l1
                     else if base = CHR ''o'' then eat_digits is_oct l1 else eat_digits is_bin l1))
     else (case scan_fraction False (eat_digits is_digit l) of (f, l1) \<Rightarrow> scan_exponent f l1)))"
    using prefixed plain by (auto simp: case_prod_beta)
qed simp

lemma keyword_or_identifier_plain: "plain_kind (keyword_or_identifier s) \<and> keyword_or_identifier s \<noteq> TkError"
  using keyword_or_identifier_cases [of s] by auto

lemma lexes_scan_identifier:
  assumes "lx_pos l \<le> length (lx_src l)"
  shows "lexes l start (scan_identifier start l)"
proof -
  let ?l1 = "eat_identifier l"
  have m: "moves l ?l1" by (rule moves_eat_identifier [OF assms])
  have adv: "moves l (snd (advance ?l1))" if "peek ?l1 \<noteq> chr_nul"
    using moves_trans [OF m moves_advance] peek_not_end [OF that] by blast
  show ?thesis
    unfolding scan_identifier_def Let_def
    by (rule lexesI) (use m adv keyword_or_identifier_plain in \<open>auto simp: if_distrib\<close>)
qed

lemma lexes_string_loop: "lexes l start (string_loop start b l)" if "lx_pos l \<le> length (lx_src l)"
  using that
proof (induction start b l rule: string_loop.induct)
  case (1 start b l)
  have esc: "\<not> at_end l \<Longrightarrow> moves l (skip_escape l)" and adv: "\<not> at_end l \<Longrightarrow> moves l (snd (advance l))"
    by (simp_all add: moves_skip_escape moves_advance)
  show ?case
    by (subst string_loop.simps)
       (use 1 esc adv in \<open>auto simp: Let_def moves_bound intro!: lexes_errorI lexesI intro: lexes_moves\<close>)
qed

lemma lexes_scan_char:
  assumes "lx_pos l \<le> length (lx_src l)"
  shows "lexes l start (scan_char start l)"
proof -
  let ?l1 = "if peek l = chr_backslash then skip_escape l
             else if \<not> at_end l \<and> peek l \<noteq> chr_squote then snd (advance l) else l"
  have m: "moves l ?l1"
    using assms peek_not_end [of l] by (simp add: moves_skip_escape moves_advance)
  have "moves l (snd (advance ?l1))" if "peek ?l1 = chr_squote"
    using moves_trans [OF m moves_advance] peek_not_end [of ?l1] that by simp
  with m show ?thesis
    unfolding scan_char_def Let_def by (auto intro!: lexes_errorI lexesI)
qed

lemma lexes_match:
  assumes "lx_pos l \<le> length (lx_src l)" "e \<noteq> chr_nul"
    and "\<And>l1. lx_pos l1 \<le> length (lx_src l1) \<Longrightarrow> lexes l1 start (f l1)" "lexes l start (g l)"
  shows "lexes l start (case match e l of (True, l1) \<Rightarrow> f l1 | (False, l1) \<Rightarrow> g l1)"
proof (cases "peek l = e")
  case True
  then have "moves l (skip 1 l)" using moves_skip1 peek_not_end [of l] assms(2) by simp
  with True assms(3) show ?thesis
    by (simp add: match_def lexes_moves moves_bound)
qed (use assms(4) in \<open>simp add: match_def\<close>)

lemma lexes_emit:
  "lx_pos l \<le> length (lx_src l) \<Longrightarrow> plain_kind k \<Longrightarrow> k \<noteq> TkError \<Longrightarrow> lexes l start (emit k start l)"
  by (rule lexesI) simp_all

lemma lexes_emit_if_match:
  assumes "lx_pos l \<le> length (lx_src l)" "e \<noteq> chr_nul" "plain_kind k" "k \<noteq> TkError" "lexes l start (els l)"
  shows "lexes l start (emit_if_match e k start els l)"
  unfolding emit_if_match_def by (rule lexes_match) (use assms lexes_emit in auto)

lemma lexes_scan_shift:
  assumes "lx_pos l \<le> length (lx_src l)" "c \<noteq> chr_nul"
  shows "lexes l start (scan_shift c a b d e start l)"
  unfolding scan_shift_def by (intro lexes_match lexes_emit_if_match lexes_emit) (use assms in auto)

lemma lexes_scan_operator:
  assumes "lx_pos l \<le> length (lx_src l)" "scan_operator c start l = Some l'"
  shows "lexes l start l'"
proof -
  have dot: "lexes l start (case match CHR ''.'' l of
       (True, l1) \<Rightarrow> emit_if_match CHR ''<'' TkDotDotLt start (emit TkDotDot start) l1
     | (False, l1) \<Rightarrow> emit TkDot start l1)"
    by (intro lexes_match lexes_emit_if_match lexes_emit) (use assms in auto)
  show ?thesis
    using assms(2) unfolding scan_operator_def
    by (auto split: if_splits
        intro!: lexes_emit lexes_emit_if_match lexes_scan_shift dot assms(1))
qed

lemma lexesE:
  assumes "lexes l start l'"
  obtains k n r where "l' = emit k start (l\<lparr>lx_pos := n, lx_reporter := r\<rparr>)" "lx_pos l \<le> n"
    "n \<le> length (lx_src l)" "plain_kind k"
    "k = TkError \<and> (\<exists>d. r = report d (lx_reporter l) \<and> diag_severity d = Error)
       \<or> k \<noteq> TkError \<and> r = lx_reporter l"
proof -
  from assms obtain k l1 where m: "moves l l1" and k: "plain_kind k"
    and l': "(k \<noteq> TkError \<and> l' = emit k start l1)
       \<or> (k = TkError \<and> (\<exists>r msg. l' = emit TkError start (error_at r msg l1)))"
    by (auto simp: lexes_def)
  from m obtain n where l1: "l1 = l\<lparr>lx_pos := n\<rparr>" "lx_pos l \<le> n" "n \<le> length (lx_src l)"
    by (auto simp: moves_def)
  from l' show ?thesis
  proof (elim disjE conjE exE)
    assume "k \<noteq> TkError" "l' = emit k start l1"
    with that [of k "lx_reporter l" n] l1 k show ?thesis by simp
  next
    fix r msg assume "k = TkError" "l' = emit TkError start (error_at r msg l1)"
    moreover have "diag_severity (diag_at r (diag_error msg)) = Error"
      by (simp add: diag_at_def diag_error_def)
    ultimately show ?thesis
      using that [of k "report (diag_at r (diag_error msg)) (lx_reporter l)" n] l1 k
      by (auto simp: error_at_def)
  qed
qed

lemma emit_simps [lex_simps]:
  "lx_src (emit k start l) = lx_src l" "lx_file (emit k start l) = lx_file l"
  "lx_pos (emit k start l) = lx_pos l" "lx_reporter (emit k start l) = lx_reporter l"
  "bracket_depth (emit k start l) = bracket_depth l" "splice_depths (emit k start l) = splice_depths l"
  "lx_out (emit k start l) = lx_out l @ [\<lparr>tok_kind = k, tok_range = range_from l start,
     tok_lexeme = substr (lx_src l) start (lx_pos l - start)\<rparr>]"
  "k \<noteq> TkNewline \<Longrightarrow> prev_was_operator (emit k start l) = is_binary_operator k"
  by (simp_all add: emit_def push_token_def Let_def)

lemma error_at_simps [lex_simps]:
  "lx_src (error_at r m l) = lx_src l" "lx_file (error_at r m l) = lx_file l"
  "lx_pos (error_at r m l) = lx_pos l" "bracket_depth (error_at r m l) = bracket_depth l"
  "lx_out (error_at r m l) = lx_out l" "splice_depths (error_at r m l) = splice_depths l"
  "prev_was_operator (error_at r m l) = prev_was_operator l"
  "error_count (lx_reporter (error_at r m l)) = Suc (error_count (lx_reporter l))"
  by (simp_all add: error_at_def report_def diag_at_def diag_error_def)

lemma bracket_change_simps [lex_simps]:
  "lx_src (bracket_change d l) = lx_src l" "lx_file (bracket_change d l) = lx_file l"
  "lx_pos (bracket_change d l) = lx_pos l" "bracket_depth (bracket_change d l) = bracket_depth l + d"
  "lx_out (bracket_change d l) = lx_out l" "splice_depths (bracket_change d l) = splice_depths l"
  "prev_was_operator (bracket_change d l) = prev_was_operator l"
  "lx_reporter (bracket_change d l) = lx_reporter l"
  by (simp_all add: bracket_change_def)

lemma emit_part_simps [lex_simps]:
  "lx_src (emit_part a b l) = lx_src l" "lx_file (emit_part a b l) = lx_file l"
  "lx_pos (emit_part a b l) = lx_pos l" "bracket_depth (emit_part a b l) = bracket_depth l"
  "splice_depths (emit_part a b l) = splice_depths l"
  "prev_was_operator (emit_part a b l) = prev_was_operator l"
  "lx_reporter (emit_part a b l) = lx_reporter l"
  "lx_out (emit_part a b l) = lx_out l @ [\<lparr>tok_kind = TkInterpStringPart,
     tok_range = \<lparr>range_begin = loc_at l a, range_length = b - a\<rparr>, tok_lexeme = substr (lx_src l) a (b - a)\<rparr>]"
  by (simp_all add: emit_part_def push_token_def)

lemma skip_simps [lex_simps]:
  "lx_src (skip n l) = lx_src l" "lx_file (skip n l) = lx_file l"
  "lx_pos (skip n l) = lx_pos l + n" "bracket_depth (skip n l) = bracket_depth l"
  "lx_out (skip n l) = lx_out l" "splice_depths (skip n l) = splice_depths l"
  "prev_was_operator (skip n l) = prev_was_operator l" "lx_reporter (skip n l) = lx_reporter l"
  by (simp_all add: skip_def)

lemma handle_newline_simps [lex_simps]:
  "lx_src (handle_newline s l) = lx_src l" "lx_file (handle_newline s l) = lx_file l"
  "lx_pos (handle_newline s l) = lx_pos l" "bracket_depth (handle_newline s l) = bracket_depth l"
  "splice_depths (handle_newline s l) = splice_depths l"
  "prev_was_operator (handle_newline s l) = prev_was_operator l"
  "lx_reporter (handle_newline s l) = lx_reporter l"
  by (simp_all add: handle_newline_def emit_with_text_def push_token_def)

text \<open>Going forward: the input stays, the position does not go back and stays inside it.\<close>

definition goes_on :: "lexer \<Rightarrow> lexer \<Rightarrow> bool" where
  "goes_on l l' \<longleftrightarrow> lx_src l' = lx_src l \<and> lx_file l' = lx_file l \<and> lx_pos l \<le> lx_pos l'
     \<and> lx_pos l' \<le> length (lx_src l)"

lemma goes_on_trans [trans]: "goes_on a b \<Longrightarrow> goes_on b c \<Longrightarrow> goes_on a c"
  by (simp add: goes_on_def)

lemma moves_goes_on: "moves l l' \<Longrightarrow> goes_on l l'"
  using moves_src [of l l'] moves_bound [of l l']
  by (cases l; cases l') (simp add: moves_def goes_on_def)

lemma lexes_goes_on: "lexes l start l' \<Longrightarrow> goes_on l l'"
  by (elim lexesE) (simp add: goes_on_def lex_simps)

lemma goes_on_emit [lex_simps]: "goes_on l (emit k start l1) \<longleftrightarrow> goes_on l l1"
  and goes_on_error_at [lex_simps]: "goes_on l (error_at r m l1) \<longleftrightarrow> goes_on l l1"
  and goes_on_bracket [lex_simps]: "goes_on l (bracket_change d l1) \<longleftrightarrow> goes_on l l1"
  and goes_on_part [lex_simps]: "goes_on l (emit_part a b l1) \<longleftrightarrow> goes_on l l1"
  and goes_on_newline [lex_simps]: "goes_on l (handle_newline s l1) \<longleftrightarrow> goes_on l l1"
  by (simp_all add: goes_on_def lex_simps)

text \<open>
  The interface between the main loop and a scanner of one token: the contract above is the
  law, and what the main loop relies on follows from it once for all scanners.
\<close>

locale token_scanner =
  fixes scan :: "nat \<Rightarrow> lexer \<Rightarrow> lexer"
  assumes contract: "lx_pos l \<le> length (lx_src l) \<Longrightarrow> lexes l start (scan start l)"
begin

lemma scan_goes_on: "lx_pos l \<le> length (lx_src l) \<Longrightarrow> goes_on l (scan start l)"
  by (rule lexes_goes_on [OF contract])

lemma scan_one_token:
  assumes "lx_pos l \<le> length (lx_src l)"
  shows "\<exists>k n. plain_kind k \<and> lx_out (scan start l) = lx_out l @ [\<lparr>tok_kind = k,
           tok_range = \<lparr>range_begin = loc_at l start, range_length = n - start\<rparr>,
           tok_lexeme = substr (lx_src l) start (n - start)\<rparr>]"
  using contract [OF assms, of start]
  by (elim lexesE) (auto simp: lex_simps range_from_def loc_at_def)

lemma scan_errors:
  assumes "lx_pos l \<le> length (lx_src l)"
  shows "error_count (lx_reporter (scan start l)) =
     error_count (lx_reporter l) + (if tok_kind (last (lx_out (scan start l))) = TkError then 1 else 0)"
  using contract [OF assms, of start]
  by (elim lexesE) (auto simp: lex_simps report_def)

end

interpretation number: token_scanner scan_number
  by unfold_locales (rule lexes_scan_number)

interpretation word: token_scanner scan_identifier
  by unfold_locales (rule lexes_scan_identifier)

interpretation char_literal: token_scanner scan_char
  by unfold_locales (rule lexes_scan_char)

interpretation string_literal: token_scanner "\<lambda>start. string_loop start b" for b
  by unfold_locales (rule lexes_string_loop)

section \<open>Interpolated strings and the whole input\<close>

lemma goes_on_advance: "\<not> at_end l \<Longrightarrow> goes_on l (snd (advance l))"
  by (rule moves_goes_on [OF moves_advance])

lemma goes_on_open_splice:
  assumes "peek_at l 1 \<noteq> chr_nul"
  shows "goes_on l (open_splice l)"
  using peek_at_not_end [OF assms]
  by (simp add: open_splice_def Let_def lex_simps) (simp add: goes_on_def advance_def lex_simps)

lemma peek_at_emit_part: "peek_at (emit_part a b l) n = peek_at l n"
  by (simp add: peek_at_def Let_def lex_simps)

lemma goes_on_interp_loop: "lx_pos l \<le> length (lx_src l) \<Longrightarrow> goes_on l (interp_loop f l)"
proof (induction f l rule: interp_loop.induct)
  case (1 f l)
  have adv: "\<not> at_end l \<Longrightarrow> goes_on l (snd (advance (emit_part f (lx_pos l) l)))"
    using goes_on_advance [of "emit_part f (lx_pos l) l"] by (simp add: goes_on_def at_end_def lex_simps)
  have esc: "\<not> at_end l \<Longrightarrow> goes_on l (skip_escape l)" and step: "\<not> at_end l \<Longrightarrow> goes_on l (snd (advance l))"
    by (simp_all add: moves_goes_on moves_skip_escape moves_advance)
  have splice: "peek_at l 1 = CHR ''('' \<Longrightarrow> goes_on l (open_splice (emit_part f (lx_pos l) l))"
    using goes_on_open_splice [of "emit_part f (lx_pos l) l"]
    by (simp add: goes_on_def lex_simps peek_at_emit_part)
  have here: "goes_on l l" using 1 by (simp add: goes_on_def)
  show ?case
    by (subst interp_loop.simps)
       (use 1 adv esc step splice here in \<open>auto simp: lex_simps Let_def goes_on_def\<close>)
qed

lemma goes_on_scan_string: "lx_pos l \<le> length (lx_src l) \<Longrightarrow> goes_on l (scan_string start b l)"
  using goes_on_interp_loop [of "emit TkInterpStringBegin start l"] string_literal.scan_goes_on [of l start b]
  by (simp add: scan_string_def scan_interp_continue_def goes_on_def lex_simps)

lemma goes_on_close_paren:
  assumes "lx_pos l \<le> length (lx_src l)"
  shows "goes_on l (close_paren start l)"
  using goes_on_interp_loop [of "(emit TkRParen start (bracket_change (- 1) l))\<lparr>splice_depths := d\<rparr>" for d] assms
  by (auto simp: close_paren_def Let_def scan_interp_continue_def lex_simps split: list.split)
     (auto simp: goes_on_def lex_simps)

lemma goes_on_scan_other:
  assumes "lx_pos l \<le> length (lx_src l)"
  shows "goes_on l (scan_other c start l)"
proof -
  have "goes_on l (scan_string start True (snd (advance l)))" if "peek l = chr_dquote"
  proof (rule goes_on_trans [OF goes_on_advance goes_on_scan_string])
    show e: "\<not> at_end l" using peek_not_end that by simp
    show "lx_pos (snd (advance l)) \<le> length (lx_src (snd (advance l)))"
      using moves_bound [OF moves_advance [OF e]] .
  qed
  with assms show ?thesis
    by (simp add: scan_other_def number.scan_goes_on word.scan_goes_on lex_simps)
       (simp add: goes_on_def)
qed

lemma goes_on_scan_token:
  assumes "\<not> at_end l"
  shows "goes_on l (scan_token l) \<and> lx_pos l < lx_pos (scan_token l)"
proof -
  let ?l = "snd (advance l)" and ?c = "fst (advance l)" and ?s = "lx_pos l"
  have pos: "lx_pos ?l = Suc (lx_pos l)" and bound: "lx_pos ?l \<le> length (lx_src ?l)"
    using assms by (simp_all add: advance_def skip_def at_end_def)
  have here: "goes_on ?l ?l" using bound by (simp add: goes_on_def)
  have ops: "scan_operator ?c ?s ?l = Some l1 \<Longrightarrow> goes_on ?l l1" for l1
    using lexes_scan_operator [OF bound] lexes_goes_on by blast
  have "goes_on ?l (scan_token l)"
    unfolding scan_token_def Let_def
    using here ops bound
    by (simp add: lex_simps goes_on_close_paren goes_on_scan_string char_literal.scan_goes_on goes_on_scan_other
        split: option.split)
  moreover from this have "lx_pos l < lx_pos (scan_token l)" using pos by (simp add: goes_on_def)
  ultimately show ?thesis using goes_on_trans [OF goes_on_advance [OF assms]] by blast
qed

lemma goes_on_block_comment: "lx_pos l \<le> length (lx_src l) \<Longrightarrow> goes_on l (scan_block_comment l)"
  using moves_goes_on [OF moves_block_comment, of l 1]
  by (simp add: scan_block_comment_def case_prod_beta lex_simps)

lemma goes_on_skip_ws: "lx_pos l \<le> length (lx_src l) \<Longrightarrow> goes_on l (skip_whitespace_and_comments l)"
proof (induction l rule: skip_whitespace_and_comments.induct)
  case (1 l)
  have one: "goes_on l (skip_whitespace_and_comments m)"
    if "goes_on l m" "lx_pos m \<le> length (lx_src m) \<Longrightarrow> goes_on m (skip_whitespace_and_comments m)" for m
    using that goes_on_trans [of l m] by (simp add: goes_on_def)
  have move: "\<not> at_end l \<Longrightarrow> goes_on l (skip 1 l)" by (simp add: moves_goes_on moves_skip1)
  have two: "goes_on l (scan_block_comment (skip 2 l))" if "peek_at l 1 \<noteq> chr_nul"
    using goes_on_trans [OF moves_goes_on [OF moves_skip2 [OF that]] goes_on_block_comment]
      moves_bound [OF moves_skip2 [OF that]] by blast
  consider (stop) "at_end l" | (blank) "\<not> at_end l" "is_blank (peek l)"
    | (newline) "\<not> at_end l" "\<not> is_blank (peek l)" "peek l = chr_nl"
    | (line) "\<not> at_end l" "\<not> is_blank (peek l)" "peek l = CHR ''/''" "peek_at l 1 = CHR ''/''"
    | (block) "\<not> at_end l" "\<not> is_blank (peek l)" "peek l = CHR ''/''" "peek_at l 1 = CHR ''*''"
    | (token) "\<not> at_end l" "\<not> is_blank (peek l)" "peek l \<noteq> chr_nl"
        "\<not> (peek l = CHR ''/'' \<and> peek_at l 1 = CHR ''/'')" "\<not> (peek l = CHR ''/'' \<and> peek_at l 1 = CHR ''*'')"
    by blast
  then show ?case
  proof cases
    case stop with "1.prems" show ?thesis
      by (subst skip_whitespace_and_comments.simps) (simp add: goes_on_def)
  next
    case blank with 1 move show ?thesis
      by (subst skip_whitespace_and_comments.simps) (auto simp: Let_def intro: one)
  next
    case newline with 1 move show ?thesis
      by (subst skip_whitespace_and_comments.simps) (auto simp: Let_def lex_simps intro: one)
  next
    case line with 1 moves_goes_on [OF moves_skip_to_newline] show ?thesis
      by (subst skip_whitespace_and_comments.simps) (auto simp: Let_def intro: one)
  next
    case block with 1 two show ?thesis
      by (subst skip_whitespace_and_comments.simps) (auto simp: Let_def intro: one)
  next
    case token with "1.prems" show ?thesis
      by (subst skip_whitespace_and_comments.simps) (auto simp: Let_def goes_on_def)
  qed
qed

text \<open>The main loop stops at the end of the input, or after the token that fills the error cap.\<close>

function tokenize_loop :: "lexer \<Rightarrow> lexer" where
  "tokenize_loop l =
     (if at_end l then l
      else
        (let l1 = skip_whitespace_and_comments l in
         if at_end l1 then l1
         else
           (let l2 = scan_token l1 in
            if should_stop (lx_reporter l2) then l2 else tokenize_loop l2)))"
  by pat_completeness auto
termination
proof (relation "measure remaining", goal_cases)
  case (2 l l1 l2)
  have "goes_on l l1" using 2 goes_on_skip_ws [of l] by (simp add: at_end_def)
  then show ?case
    using 2 goes_on_scan_token [of l1] by (auto simp: goes_on_def remaining_def at_end_def)
qed simp

declare tokenize_loop.simps [simp del]

definition tokenize :: "lexer \<Rightarrow> lexer" where
  "tokenize l =
     (let l1 = tokenize_loop l
      in push_token \<lparr>tok_kind = TkEof, tok_range = \<lparr>range_begin = loc_at l1 (lx_pos l1), range_length = 0\<rparr>,
                     tok_lexeme = []\<rparr> l1)"

definition lex_file ::
  "source_manager \<Rightarrow> file_id \<Rightarrow> reporter \<Rightarrow> sm_error + (token list \<times> reporter)" where
  "lex_file sm f rep = map_sum id (\<lambda>l. (lx_out (tokenize l), lx_reporter (tokenize l))) (new_lexer sm f rep)"

declare One_nat_def [simp]

end
