(* ===== verification/Lexer_Props.thy ===== *)
theory Lexer_Props
  imports Lexer
begin

text \<open>
  What the lexer promises: the tokens tile the input in order and what lies between them
  is whitespace and comments; the bracket depth is the depth of the emitted tokens; a newline
  token stands only where a statement can end; every lexical error is reported and leaves
  a token, and reporting stops at the cap. One invariant, \<open>good\<close>, carries all of it through
  the scanners.
\<close>

declare One_nat_def [simp del]

section \<open>Specification\<close>

text \<open>The rest of a block comment that is open \<open>d\<close> times.\<close>

fun comment_body :: "nat \<Rightarrow> string \<Rightarrow> bool" where
  "comment_body 0 s = (s = [])"
| "comment_body (Suc d) [] = False"
| "comment_body (Suc d) [c] = False"
| "comment_body (Suc d) (a # b # s) =
     (if a = CHR ''/'' \<and> b = CHR ''*'' then comment_body (Suc (Suc d)) s
      else if a = CHR ''*'' \<and> b = CHR ''/'' then comment_body d s
      else comment_body (Suc d) (b # s))"

text \<open>What follows a block comment that is open \<open>d\<close> times, if it is closed.\<close>

fun comment_rest :: "nat \<Rightarrow> string \<Rightarrow> string option" where
  "comment_rest 0 s = Some s"
| "comment_rest (Suc d) [] = None"
| "comment_rest (Suc d) [c] = None"
| "comment_rest (Suc d) (a # b # s) =
     (if a = CHR ''/'' \<and> b = CHR ''*'' then comment_rest (Suc (Suc d)) s
      else if a = CHR ''*'' \<and> b = CHR ''/'' then comment_rest d s
      else comment_rest (Suc d) (b # s))"

lemma comment_rest_shorter: "comment_rest d s = Some t \<Longrightarrow> length t \<le> length s"
  by (induction d s rule: comment_rest.induct) (auto split: if_splits)

text \<open>
  A text that holds nothing but blanks, newlines and comments up to a block comment that is not
  closed.
\<close>

function cut_comment :: "string \<Rightarrow> bool" where
  "cut_comment s =
     (case s of
        [] \<Rightarrow> False
      | c # r \<Rightarrow>
          if is_blank c \<or> c = chr_nl then cut_comment r
          else if take 2 s = ''//'' then cut_comment (dropWhile (\<lambda>d. d \<noteq> chr_nl) r)
          else if take 2 s = ''/*'' then
            (case comment_rest 1 (tl r) of None \<Rightarrow> True | Some t \<Rightarrow> cut_comment t)
          else False)"
  by pat_completeness auto
termination
proof (relation "measure length", goal_cases)
  case (3 s c r)
  then show ?case using length_dropWhile_le [of "\<lambda>d. d \<noteq> chr_nl" r] by simp
next
  case (4 s c r t)
  then show ?case using comment_rest_shorter [of 1 "tl r" t] by simp
qed simp_all

declare cut_comment.simps [simp del]

text \<open>Where the last token ends.\<close>

definition last_end :: "token list \<Rightarrow> nat" where
  "last_end ts =
     (if ts = [] then 0
      else loc_offset (range_begin (tok_range (last ts))) + range_length (tok_range (last ts)))"

lemma last_end_simps [simp]:
  "last_end [] = 0"
  "last_end (ts @ [t]) = loc_offset (range_begin (tok_range t)) + range_length (tok_range t)"
  by (simp_all add: last_end_def)

inductive trivia :: "string \<Rightarrow> bool" where
  trivia_Nil: "trivia []"
| trivia_blank: "is_blank c \<or> c = chr_nl \<Longrightarrow> trivia s \<Longrightarrow> trivia (c # s)"
| trivia_line: "chr_nl \<notin> set b \<Longrightarrow> trivia s \<Longrightarrow> trivia (''//'' @ b @ s)"
| trivia_block: "comment_body 1 b \<Longrightarrow> trivia s \<Longrightarrow> trivia (''/*'' @ b @ s)"

definition gap :: "bool \<Rightarrow> string \<Rightarrow> nat \<Rightarrow> nat \<Rightarrow> bool" where
  "gap ok src p q \<longleftrightarrow> p \<le> q \<and> q \<le> length src \<and> (ok \<longrightarrow> trivia (substr src p (q - p)))"

text \<open>
  The tokens lie one after the other between \<open>p\<close> and \<open>q\<close>, each with the text of its range,
  and when \<open>ok\<close> holds only trivia lies between them.
\<close>

fun covers :: "bool \<Rightarrow> file_id \<Rightarrow> string \<Rightarrow> nat \<Rightarrow> token list \<Rightarrow> nat \<Rightarrow> bool" where
  "covers ok f src p [] q = gap ok src p q"
| "covers ok f src p (t # ts) q =
     (let b = loc_offset (range_begin (tok_range t)); e = b + range_length (tok_range t)
      in loc_file (range_begin (tok_range t)) = f \<and> gap ok src p b \<and> e \<le> length src
         \<and> tok_lexeme t = substr src b (e - b) \<and> covers ok f src e ts q)"

definition net_depth :: "token list \<Rightarrow> int" where
  "net_depth ts = sum_list (map (\<lambda>t. kind_depth (tok_kind t)) ts)"

definition ends_operator :: "token list \<Rightarrow> bool" where
  "ends_operator ts =
     (case rev (filter (\<lambda>t. tok_kind t \<noteq> TkNewline) ts) of
        [] \<Rightarrow> False | t # _ \<Rightarrow> is_binary_operator (tok_kind t))"

definition ends_newline :: "token list \<Rightarrow> bool" where
  "ends_newline ts \<longleftrightarrow> ts \<noteq> [] \<and> tok_kind (last ts) = TkNewline"

definition error_tokens :: "token list \<Rightarrow> nat" where
  "error_tokens ts = length (filter (\<lambda>t. tok_kind t = TkError) ts)"

text \<open>
  The rule for newlines: a newline token stands outside all brackets, not after a binary
  operator, and the token after it does not start with a character that continues a line.
\<close>

definition layout_at :: "token list \<Rightarrow> token \<Rightarrow> bool" where
  "layout_at pre t \<longleftrightarrow>
     (tok_kind t = TkNewline \<longrightarrow> net_depth pre \<le> 0 \<and> \<not> ends_operator pre)
     \<and> (ends_newline pre \<and> tok_kind t \<noteq> TkNewline \<and> tok_kind t \<noteq> TkEof \<longrightarrow>
          tok_lexeme t \<noteq> [] \<and> \<not> continues_line (hd (tok_lexeme t)))"

definition layout_ok :: "token list \<Rightarrow> bool" where
  "layout_ok ts \<longleftrightarrow> (\<forall>pre t post. ts = pre @ t # post \<longrightarrow> layout_at pre t)"

text \<open>
  The invariant: the tokens cover the input up to \<open>p\<close>; the errors are the error tokens, and \<open>x\<close> more
  once a block comment was cut by the end of the input.
\<close>

definition good :: "nat \<Rightarrow> nat \<Rightarrow> lexer \<Rightarrow> nat \<Rightarrow> bool" where
  "good e0 x l p \<longleftrightarrow> p \<le> lx_pos l \<and> lx_pos l \<le> length (lx_src l)
     \<and> covers (x = 0 \<and> error_tokens (lx_out l) = 0) (lx_file l) (lx_src l) 0 (lx_out l) p
     \<and> error_count (lx_reporter l) = e0 + error_tokens (lx_out l) + x
     \<and> bracket_depth l = net_depth (lx_out l)
     \<and> prev_was_operator l = ends_operator (lx_out l)
     \<and> layout_ok (lx_out l)
     \<and> TkEof \<notin> set (map tok_kind (lx_out l))
     \<and> (cut_comment (drop (last_end (lx_out l)) (lx_src l)) \<longleftrightarrow> x \<noteq> 0 \<or> cut_comment (drop p (lx_src l)))
     \<and> (x \<noteq> 0 \<longrightarrow> p = length (lx_src l))"

section \<open>Appending a token\<close>

lemma net_depth_simps [simp]:
  "net_depth [] = 0" "net_depth (ts @ [t]) = net_depth ts + kind_depth (tok_kind t)"
  by (simp_all add: net_depth_def)

lemma ends_operator_simps [simp]:
  "ends_operator [] = False"
  "ends_operator (ts @ [t]) = (if tok_kind t = TkNewline then ends_operator ts else is_binary_operator (tok_kind t))"
  by (simp_all add: ends_operator_def)

lemma ends_newline_simps [simp]:
  "ends_newline [] = False" "ends_newline (ts @ [t]) \<longleftrightarrow> tok_kind t = TkNewline"
  by (simp_all add: ends_newline_def)

lemma error_tokens_simps [simp]:
  "error_tokens [] = 0"
  "error_tokens (ts @ [t]) = error_tokens ts + (if tok_kind t = TkError then 1 else 0)"
  by (simp_all add: error_tokens_def)

lemma layout_ok_simps [simp]:
  "layout_ok []" "layout_ok (ts @ [t]) \<longleftrightarrow> layout_ok ts \<and> layout_at ts t"
proof -
  show "layout_ok []" by (simp add: layout_ok_def)
  have "layout_at pre u" if "ts @ [t] = pre @ u # post" "layout_ok ts" "layout_at ts t" for pre u post
    using that by (cases post rule: rev_cases) (auto simp: layout_ok_def)
  then show "layout_ok (ts @ [t]) \<longleftrightarrow> layout_ok ts \<and> layout_at ts t"
    by (fastforce simp: layout_ok_def)
qed

lemma trivia_append: "trivia a \<Longrightarrow> trivia b \<Longrightarrow> trivia (a @ b)"
proof (induction a rule: trivia.induct)
  case (trivia_line c s) then show ?case using trivia.trivia_line [of c "s @ b"] by simp
next
  case (trivia_block c s) then show ?case using trivia.trivia_block [of c "s @ b"] by simp
qed (auto intro: trivia.intros)

lemma gap_append: "gap ok src p q \<Longrightarrow> gap ok src q r \<Longrightarrow> gap ok src p r"
  by (auto simp: gap_def substr_split [of p q r] intro: trivia_append)

lemma gap_refl [simp]: "gap ok src p p \<longleftrightarrow> p \<le> length src"
  by (simp add: gap_def trivia_Nil)

lemma covers_gap: "covers ok f src p ts q \<Longrightarrow> gap ok src q r \<Longrightarrow> covers ok f src p ts r"
  by (induction ts arbitrary: p) (auto simp: Let_def intro: gap_append)

lemma covers_weaken: "covers ok f src p ts q \<Longrightarrow> (ok' \<Longrightarrow> ok) \<Longrightarrow> covers ok' f src p ts q"
  by (induction ts arbitrary: p) (auto simp: Let_def gap_def)

lemma covers_snoc:
  "covers ok f src p ts q \<Longrightarrow> loc_file (range_begin (tok_range t)) = f \<Longrightarrow>
     loc_offset (range_begin (tok_range t)) = q \<Longrightarrow> q + range_length (tok_range t) = r \<Longrightarrow>
     r \<le> length src \<Longrightarrow> tok_lexeme t = substr src q (r - q) \<Longrightarrow> covers ok f src p (ts @ [t]) r"
  by (induction ts arbitrary: p) (auto simp: Let_def)

lemma covers_le: "covers ok f src p ts q \<Longrightarrow> p \<le> q \<and> q \<le> length src"
  by (induction ts arbitrary: p) (fastforce simp: Let_def gap_def)+

section \<open>The invariant and the primitive steps\<close>

lemma good_moves: "good e0 x l p \<Longrightarrow> moves l l' \<Longrightarrow> good e0 x l' p"
  by (cases l; cases l') (simp add: good_def moves_def)

lemma good_bounds: "good e0 x l p \<Longrightarrow> lx_pos l \<le> length (lx_src l)"
  by (simp add: good_def)

lemma good_gap:
  assumes "good e0 x l p" "p \<le> q" "q \<le> lx_pos l"
    and "x = 0 \<Longrightarrow> error_tokens (lx_out l) = 0 \<Longrightarrow> trivia (substr (lx_src l) p (q - p))"
    and "x = 0 \<Longrightarrow> cut_comment (drop q (lx_src l)) = cut_comment (drop p (lx_src l))"
  shows "good e0 x l q"
  using assms by (auto simp: good_def gap_def elim!: covers_gap)

definition fresh :: "lexer \<Rightarrow> nat \<Rightarrow> bool" where
  "fresh l p \<longleftrightarrow> (ends_newline (lx_out l) \<longrightarrow> p < lx_pos l \<and> \<not> continues_line (lx_src l ! p))"

lemma good_token:
  assumes "good e0 0 l p" "fresh l p" "k \<noteq> TkNewline" "k \<noteq> TkEof"
    and "bracket_depth l' = bracket_depth l + kind_depth k" "prev_was_operator l' = is_binary_operator k"
    and "lx_src l' = lx_src l" "lx_file l' = lx_file l" "p \<le> q" "q \<le> lx_pos l'" "lx_pos l \<le> q \<or> \<not> ends_newline (lx_out l)"
    and "lx_pos l' \<le> length (lx_src l)"
    and "error_count (lx_reporter l') = error_count (lx_reporter l) + (if k = TkError then 1 else 0)"
    and "lx_out l' = lx_out l @ [\<lparr>tok_kind = k, tok_range = \<lparr>range_begin = loc_at l p, range_length = q - p\<rparr>,
           tok_lexeme = substr (lx_src l) p (q - p)\<rparr>]"
  shows "good e0 0 l' q"
proof -
  let ?t = "\<lparr>tok_kind = k, tok_range = \<lparr>range_begin = loc_at l p, range_length = q - p\<rparr>,
           tok_lexeme = substr (lx_src l) p (q - p)\<rparr>"
  have c: "covers (error_tokens (lx_out l) = 0) (lx_file l) (lx_src l) 0 (lx_out l @ [?t]) q"
    by (rule covers_snoc) (use assms in \<open>simp_all add: good_def loc_at_def\<close>)
  have "substr (lx_src l) p (q - p) \<noteq> [] \<and> hd (substr (lx_src l) p (q - p)) = lx_src l ! p"
    if "ends_newline (lx_out l)"
    using that assms(2,9,10,11,12) substr_Suc [of p "lx_src l" "q - Suc p"]
    by (simp add: fresh_def Suc_diff_Suc)
  then have "layout_at (lx_out l) ?t"
    using assms(2,3) by (auto simp: layout_at_def fresh_def)
  moreover have "covers (error_tokens (lx_out l') = 0) (lx_file l) (lx_src l) 0 (lx_out l') q"
    unfolding assms(14) by (rule covers_weaken [OF c]) simp
  ultimately show ?thesis
    using assms by (simp add: good_def loc_at_def add.commute)
qed

lemma good_emit:
  assumes "good e0 0 l p" "fresh l p" "plain_kind k" "k \<noteq> TkError"
  shows "good e0 0 (emit k p l) (lx_pos l)"
  by (rule good_token [OF assms(1,2), of k])
     (use assms in \<open>auto simp: lex_simps plain_kind_def good_def range_from_def\<close>)

lemma good_emit_error:
  assumes "good e0 0 l p" "fresh l p"
  shows "good e0 0 (emit TkError p (error_at r m l)) (lx_pos l)"
  by (rule good_token [OF assms, of TkError])
     (use assms in \<open>auto simp: lex_simps good_def range_from_def loc_at_def is_binary_operator_def\<close>)

lemma fresh_moves: "fresh l p \<Longrightarrow> moves l l' \<Longrightarrow> fresh l' p"
  by (cases l; cases l') (auto simp: fresh_def moves_def)

lemma good_lexes:
  assumes "lexes l p l'" "good e0 0 l p" "fresh l p"
  shows "good e0 0 l' (lx_pos l') \<and> \<not> ends_newline (lx_out l')"
proof -
  from assms(1) obtain k l1 where m: "moves l l1" "plain_kind k"
    and l': "(k \<noteq> TkError \<and> l' = emit k p l1) \<or> (\<exists>r msg. l' = emit TkError p (error_at r msg l1))"
    by (auto simp: lexes_def)
  have g: "good e0 0 l1 p" by (rule good_moves [OF assms(2) m(1)])
  have f: "fresh l1 p" by (rule fresh_moves [OF assms(3) m(1)])
  from l' show ?thesis
    using good_emit [OF g f m(2)] good_emit_error [OF g f] m(2)
    by (auto simp: lex_simps plain_kind_def)
qed

lemma good_bracket:
  assumes "good e0 0 l p" "fresh l p" "k \<in> {TkLParen, TkLBracket, TkLBrace, TkRParen, TkRBracket, TkRBrace}"
  shows "good e0 0 (emit k p (bracket_change (kind_depth k) l)) (lx_pos l)"
  by (rule good_token [OF assms(1,2), of k])
     (use assms in \<open>auto simp: lex_simps good_def range_from_def loc_at_def\<close>)

lemma good_part:
  assumes "good e0 0 l p" "\<not> ends_newline (lx_out l)" "\<not> prev_was_operator l"
  shows "good e0 0 (emit_part p (lx_pos l) l) (lx_pos l)"
  by (rule good_token [OF assms(1), of TkInterpStringPart])
     (use assms in \<open>auto simp: lex_simps good_def fresh_def is_binary_operator_def\<close>)

lemma fresh_no_newline: "\<not> ends_newline (lx_out l) \<Longrightarrow> fresh l p"
  by (simp add: fresh_def)

section \<open>Interpolated strings\<close>

lemma good_open_splice:
  assumes "good e0 0 l (lx_pos l)" "\<not> ends_newline (lx_out l)" "peek_at l 1 \<noteq> chr_nul"
  shows "good e0 0 (open_splice l) (lx_pos (open_splice l)) \<and> \<not> ends_newline (lx_out (open_splice l))"
proof -
  let ?l1 = "snd (advance (snd (advance l)))"
  let ?l2 = "bracket_change 1 ?l1"
  have l1: "?l1 = skip 2 l" by (simp add: advance_def skip_def)
  have "good e0 0 ?l1 (lx_pos l)" unfolding l1 by (rule good_moves [OF assms(1) moves_skip2 [OF assms(3)]])
  then have "good e0 0 (emit TkLParen (lx_pos l) ?l2) (lx_pos ?l1)"
    using good_bracket [of e0 ?l1 "lx_pos l" TkLParen] assms(2)
    by (simp add: fresh_def lex_simps l1)
  moreover have "open_splice l = (emit TkLParen (lx_pos l) ?l2)
      \<lparr>splice_depths := bracket_depth ?l2 # splice_depths ?l2\<rparr>"
    by (simp add: open_splice_def Let_def bracket_change_def emit_def push_token_def range_from_def loc_at_def)
  ultimately show ?thesis by (simp add: good_def lex_simps)
qed

lemma good_interp_loop:
  assumes "good e0 0 l f" "\<not> ends_newline (lx_out l)" "\<not> prev_was_operator l"
  shows "good e0 0 (interp_loop f l) (lx_pos (interp_loop f l)) \<and> \<not> ends_newline (lx_out (interp_loop f l))"
  using assms
proof (induction f l rule: interp_loop.induct)
  case (1 f l)
  let ?r = "\<lambda>l'. good e0 0 l' (lx_pos l') \<and> \<not> ends_newline (lx_out l')"
  let ?part = "emit_part f (lx_pos l) l"
  have part: "good e0 0 ?part (lx_pos ?part)" "\<not> ends_newline (lx_out ?part)"
    using good_part [OF "1.prems"] by (simp_all add: lex_simps)
  have err: "?r (emit TkError f (error_at r m l))" for r m
    using good_emit_error [OF "1.prems"(1) fresh_no_newline [OF "1.prems"(2)]] by (simp add: lex_simps)
  have close: "?r (emit TkInterpStringEnd (lx_pos l) (snd (advance ?part)))" if "\<not> at_end l"
  proof -
    have m: "moves ?part (snd (advance ?part))" using that moves_advance [of ?part] by (simp add: at_end_def lex_simps)
    show ?thesis
      using good_lexes [OF lexes_moves [OF m lexes_emit [OF moves_bound [OF m]]]] part
      by (simp add: fresh_no_newline lex_simps)
  qed
  have splice: "?r (open_splice ?part)" if "peek_at l 1 = CHR ''(''"
    using good_open_splice [OF part] that by (simp add: peek_at_emit_part)
  have go: "?r (interp_loop f l')" if "moves l l'" "good e0 0 l' f \<Longrightarrow> \<not> ends_newline (lx_out l') \<Longrightarrow>
      \<not> prev_was_operator l' \<Longrightarrow> ?r (interp_loop f l')" for l'
    using that "1.prems" good_moves by (cases l; cases l') (auto simp: moves_def)
  have mv: "\<not> at_end l \<Longrightarrow> moves l (skip_escape l)" "\<not> at_end l \<Longrightarrow> moves l (snd (advance l))"
    by (simp_all add: moves_skip_escape moves_advance)
  consider (stop) "at_end l" | (quote) "\<not> at_end l" "peek l = chr_dquote"
    | (splice) "\<not> at_end l" "peek l = chr_backslash" "peek_at l 1 = CHR ''(''"
    | (escape) "\<not> at_end l" "peek l = chr_backslash" "peek_at l 1 \<noteq> CHR ''(''"
    | (newline) "\<not> at_end l" "peek l = chr_nl"
    | (other) "\<not> at_end l" "peek l \<noteq> chr_dquote" "peek l \<noteq> chr_backslash" "peek l \<noteq> chr_nl"
    by blast
  then show ?case
  proof cases
    case stop with err show ?thesis by (subst (1 2 3) interp_loop.simps) simp
  next
    case quote with close show ?thesis by (subst (1 2 3) interp_loop.simps) simp
  next
    case splice with \<open>peek_at l 1 = CHR ''('' \<Longrightarrow> _\<close> show ?thesis
      by (subst (1 2 3) interp_loop.simps) simp
  next
    case escape with go [OF mv(1)] "1.IH"(1) show ?thesis by (subst (1 2 3) interp_loop.simps) simp
  next
    case newline with err show ?thesis by (subst (1 2 3) interp_loop.simps) simp
  next
    case other with go [OF mv(2)] "1.IH"(2) show ?thesis by (subst (1 2 3) interp_loop.simps) simp
  qed
qed

section \<open>One token\<close>

lemma good_close_paren:
  assumes "good e0 0 l p" "fresh l p"
  shows "good e0 0 (close_paren p l) (lx_pos (close_paren p l)) \<and> \<not> ends_newline (lx_out (close_paren p l))"
proof -
  let ?l1 = "emit TkRParen p (bracket_change (- 1) l)"
  have g: "good e0 0 ?l1 (lx_pos ?l1)" using good_bracket [OF assms, of TkRParen] by (simp add: lex_simps)
  then have "good e0 0 (?l1\<lparr>splice_depths := d\<rparr>) (lx_pos ?l1)" for d by (simp add: good_def)
  then have "good e0 0 (scan_interp_continue (?l1\<lparr>splice_depths := d\<rparr>))
       (lx_pos (scan_interp_continue (?l1\<lparr>splice_depths := d\<rparr>)))
     \<and> \<not> ends_newline (lx_out (scan_interp_continue (?l1\<lparr>splice_depths := d\<rparr>)))" for d
    unfolding scan_interp_continue_def
    by (intro good_interp_loop) (simp_all add: lex_simps is_binary_operator_def)
  with g show ?thesis
    by (auto simp: close_paren_def Let_def lex_simps split: list.split)
qed

lemma good_scan_string:
  assumes "good e0 0 l p" "fresh l p"
  shows "good e0 0 (scan_string p b l) (lx_pos (scan_string p b l)) \<and> \<not> ends_newline (lx_out (scan_string p b l))"
proof -
  let ?l1 = "emit TkInterpStringBegin p l"
  have "good e0 0 ?l1 (lx_pos ?l1)" using good_emit [OF assms, of TkInterpStringBegin] by (simp add: lex_simps)
  then have "good e0 0 (scan_interp_continue ?l1) (lx_pos (scan_interp_continue ?l1))
     \<and> \<not> ends_newline (lx_out (scan_interp_continue ?l1))"
    unfolding scan_interp_continue_def
    by (intro good_interp_loop) (simp_all add: lex_simps is_binary_operator_def)
  moreover have "good e0 0 (string_loop p b l) (lx_pos (string_loop p b l)) \<and> \<not> ends_newline (lx_out (string_loop p b l))"
    by (rule good_lexes [OF string_literal.contract assms]) (rule good_bounds [OF assms(1)])
  ultimately show ?thesis by (simp add: scan_string_def)
qed

lemma good_scan_other:
  assumes "good e0 0 l p" "fresh l p"
  shows "good e0 0 (scan_other c p l) (lx_pos (scan_other c p l)) \<and> \<not> ends_newline (lx_out (scan_other c p l))"
proof -
  note b = good_bounds [OF assms(1)]
  have "good e0 0 (scan_string p True (snd (advance l))) (lx_pos (scan_string p True (snd (advance l))))
      \<and> \<not> ends_newline (lx_out (scan_string p True (snd (advance l))))" if "peek l = chr_dquote"
  proof -
    have m: "moves l (snd (advance l))" using peek_not_end [of l] that by (simp add: moves_advance)
    show ?thesis by (rule good_scan_string [OF good_moves [OF assms(1) m] fresh_moves [OF assms(2) m]])
  qed
  with good_lexes [OF number.contract [OF b] assms] good_lexes [OF word.contract [OF b] assms]
    good_lexes [OF lexes_errorI assms] b
  show ?thesis by (simp add: scan_other_def)
qed

lemma good_scan_token:
  assumes "good e0 0 l (lx_pos l)" "\<not> at_end l" "ends_newline (lx_out l) \<longrightarrow> \<not> continues_line (peek l)"
  shows "good e0 0 (scan_token l) (lx_pos (scan_token l)) \<and> \<not> ends_newline (lx_out (scan_token l))"
proof -
  let ?l = "snd (advance l)" and ?p = "lx_pos l" and ?c = "fst (advance l)"
  let ?r = "\<lambda>l'. good e0 0 l' (lx_pos l') \<and> \<not> ends_newline (lx_out l')"
  have g: "good e0 0 ?l ?p" by (rule good_moves [OF assms(1) moves_advance [OF assms(2)]])
  have f: "fresh ?l ?p"
    using assms(2,3) by (auto simp: fresh_def advance_def lex_simps peek_at_def at_end_def)
  note b = good_bounds [OF g]
  have br: "?r (emit k ?p (bracket_change (kind_depth k) ?l))"
    if "k \<in> {TkLParen, TkLBracket, TkLBrace, TkRParen, TkRBracket, TkRBrace}" for k
    using good_bracket [OF g f that] that by (auto simp: lex_simps)
  have op: "scan_operator ?c ?p ?l = Some l1 \<Longrightarrow> ?r l1" for l1
    using good_lexes [OF lexes_scan_operator [OF b] g f] by blast
  show ?thesis
    unfolding scan_token_def Let_def
    using br [of TkLParen] br [of TkLBracket] br [of TkLBrace] br [of TkRBracket] br [of TkRBrace]
      good_close_paren [OF g f] good_scan_string [OF g f, of False]
      good_lexes [OF char_literal.contract [OF b] g f] op good_scan_other [OF g f, of ?c]
    by (simp split: option.split)
qed

section \<open>Whitespace, comments and newlines\<close>

lemma substr_peek:
  "p < q \<Longrightarrow> q \<le> length s \<Longrightarrow> substr s p (q - p) = s ! p # substr s (p + 1) (q - (p + 1))"
  using substr_Suc [of p s "q - Suc p"] by (simp add: Suc_diff_Suc One_nat_def)

lemma block_comment_unfold:
  "\<not> 0 < d \<or> at_end l \<Longrightarrow> block_comment_loop d l = (d, l)"
  "0 < d \<Longrightarrow> \<not> at_end l \<Longrightarrow> peek l = CHR ''/'' \<Longrightarrow> peek_at l 1 = CHR ''*'' \<Longrightarrow>
     block_comment_loop d l = block_comment_loop (d + 1) (skip 2 l)"
  "0 < d \<Longrightarrow> \<not> at_end l \<Longrightarrow> peek l = CHR ''*'' \<Longrightarrow> peek_at l 1 = CHR ''/'' \<Longrightarrow>
     block_comment_loop d l = block_comment_loop (d - 1) (skip 2 l)"
  "0 < d \<Longrightarrow> \<not> at_end l \<Longrightarrow> \<not> (peek l = CHR ''/'' \<and> peek_at l 1 = CHR ''*'') \<Longrightarrow>
     \<not> (peek l = CHR ''*'' \<and> peek_at l 1 = CHR ''/'') \<Longrightarrow>
     block_comment_loop d l = block_comment_loop d (skip 1 l)"
  subgoal by (subst block_comment_loop.simps) auto
  subgoal by (subst block_comment_loop.simps) simp
  subgoal by (subst block_comment_loop.simps) simp
  subgoal by (subst block_comment_loop.simps) (simp only: simp_thms if_True if_False)
  done

lemma block_comment_induct [consumes 0, case_names stop opens closes other]:
  assumes "\<And>d l. \<not> 0 < d \<or> at_end l \<Longrightarrow> P d l"
    and "\<And>d l. 0 < d \<Longrightarrow> \<not> at_end l \<Longrightarrow> peek l = CHR ''/'' \<Longrightarrow> peek_at l 1 = CHR ''*'' \<Longrightarrow>
           P (d + 1) (skip 2 l) \<Longrightarrow> P d l"
    and "\<And>d l. 0 < d \<Longrightarrow> \<not> at_end l \<Longrightarrow> peek l = CHR ''*'' \<Longrightarrow> peek_at l 1 = CHR ''/'' \<Longrightarrow>
           P (d - 1) (skip 2 l) \<Longrightarrow> P d l"
    and "\<And>d l. 0 < d \<Longrightarrow> \<not> at_end l \<Longrightarrow> \<not> (peek l = CHR ''/'' \<and> peek_at l 1 = CHR ''*'') \<Longrightarrow>
           \<not> (peek l = CHR ''*'' \<and> peek_at l 1 = CHR ''/'') \<Longrightarrow> P d (skip 1 l) \<Longrightarrow> P d l"
  shows "P (d :: int) (l :: lexer)"
proof (induction d l rule: block_comment_loop.induct)
  case (1 d l)
  show ?case
  proof (cases "0 < d \<and> \<not> at_end l")
    case True
    then show ?thesis using 1 assms(2-4) by blast
  qed (use assms(1) in blast)
qed

lemma block_comment_end:
  "0 \<le> d \<Longrightarrow> block_comment_loop d l = (d', l') \<Longrightarrow> 0 \<le> d' \<and> (0 < d' \<longrightarrow> at_end l')"
  by (induction d l rule: block_comment_induct) (auto simp: block_comment_unfold)

lemma peek_nth: "\<not> at_end l \<Longrightarrow> peek l = lx_src l ! lx_pos l"
  by (simp add: peek_at_def at_end_def)

lemma peek1_nth: "peek_at l 1 \<noteq> chr_nul \<Longrightarrow> peek_at l 1 = lx_src l ! (lx_pos l + 1)"
  by (simp add: peek_at_def Let_def split: if_splits)

lemma substr_two:
  assumes "lx_pos l + 2 \<le> q" "q \<le> length (lx_src l)"
  shows "substr (lx_src l) (lx_pos l) (q - lx_pos l) =
     lx_src l ! lx_pos l # lx_src l ! (lx_pos l + 1) # substr (lx_src l) (lx_pos l + 2) (q - (lx_pos l + 2))"
  using assms substr_peek [of "lx_pos l" q "lx_src l"] substr_peek [of "lx_pos l + 1" q "lx_src l"]
  by (simp add: One_nat_def)

lemma moves_pos: "moves l l' \<Longrightarrow> lx_pos l \<le> lx_pos l' \<and> lx_pos l' \<le> length (lx_src l)"
  by (simp only: moves_def)

lemma block_comment_moves:
  assumes "block_comment_loop d l = (d', l')" "lx_pos l \<le> length (lx_src l)"
  shows "lx_pos l \<le> lx_pos l' \<and> lx_pos l' \<le> length (lx_src l) \<and> lx_src l' = lx_src l"
  using moves_block_comment [OF assms(2), of d] moves_src [of l l'] moves_pos [of l l'] assms(1) by simp

lemma peek1D: "peek_at l 1 = c \<Longrightarrow> c \<noteq> chr_nul \<Longrightarrow> lx_src l ! (lx_pos l + 1) = c \<and> lx_pos l + 1 < length (lx_src l)"
  by (auto simp: peek_at_def Let_def split: if_splits)

lemma block_comment_body:
  assumes "0 \<le> d" "block_comment_loop d l = (0, l')" "lx_pos l \<le> length (lx_src l)"
  shows "comment_body (nat d) (substr (lx_src l) (lx_pos l) (lx_pos l' - lx_pos l))"
  using assms
proof (induction d l rule: block_comment_induct)
  case (stop d l)
  then show ?case by (auto simp: block_comment_unfold)
next
  case (opens d l)
  have loop: "block_comment_loop (d + 1) (skip 2 l) = (0, l')" using opens by (simp add: block_comment_unfold)
  have b: "lx_pos (skip 2 l) \<le> length (lx_src (skip 2 l))"
    using moves_bound [OF moves_skip2] opens(4) by simp
  have "substr (lx_src l) (lx_pos l) (lx_pos l' - lx_pos l) =
      CHR ''/'' # CHR ''*'' # substr (lx_src l) (lx_pos l + 2) (lx_pos l' - (lx_pos l + 2))"
    using block_comment_moves [OF loop b] peek_nth [of l] peek1_nth [of l] opens(2-4)
    by (subst substr_two) (simp_all add: lex_simps)
  moreover have "nat (d + 1) = Suc (Suc (nat (d - 1)))" "nat d = Suc (nat (d - 1))" using opens(1) by simp_all
  ultimately show ?case using opens(5) [OF _ loop b] opens(1) by (simp add: lex_simps)
next
  case (closes d l)
  have loop: "block_comment_loop (d - 1) (skip 2 l) = (0, l')" using closes by (simp add: block_comment_unfold)
  have b: "lx_pos (skip 2 l) \<le> length (lx_src (skip 2 l))"
    using moves_bound [OF moves_skip2] closes(4) by simp
  have "substr (lx_src l) (lx_pos l) (lx_pos l' - lx_pos l) =
      CHR ''*'' # CHR ''/'' # substr (lx_src l) (lx_pos l + 2) (lx_pos l' - (lx_pos l + 2))"
    using block_comment_moves [OF loop b] peek_nth [of l] peek1_nth [of l] closes(2-4)
    by (subst substr_two) (simp_all add: lex_simps)
  moreover have "nat d = Suc (nat (d - 1))" using closes(1) by simp
  ultimately show ?case using closes(5) [OF _ loop b] closes(1) by (simp add: lex_simps)
next
  case (other d l)
  have loop: "block_comment_loop d (skip 1 l) = (0, l')" using other by (simp add: block_comment_unfold)
  have b: "lx_pos (skip 1 l) \<le> length (lx_src (skip 1 l))"
    using moves_bound [OF moves_skip1] other(2) by simp
  have d: "nat d = Suc (nat (d - 1))" using other(1) by simp
  let ?rest = "substr (lx_src l) (lx_pos l + 1) (lx_pos l' - (lx_pos l + 1))"
  have body: "comment_body (nat d) ?rest" using other(5) [OF _ loop b] other(1) by (simp add: lex_simps)
  then have ne: "lx_pos l + 1 < lx_pos l'" unfolding d by (auto intro: ccontr)
  have bd: "lx_pos l' \<le> length (lx_src l)" using block_comment_moves [OF loop b] by (simp add: lex_simps)
  have p1: "peek_at l 1 = lx_src l ! (lx_pos l + 1)" using ne bd by (simp add: peek_at_def)
  have "substr (lx_src l) (lx_pos l) (lx_pos l' - lx_pos l) = peek l # ?rest"
    and "?rest = peek_at l 1 # substr (lx_src l) (lx_pos l + 2) (lx_pos l' - (lx_pos l + 2))"
    using ne bd peek_nth [OF other(2)] p1 substr_peek [of "lx_pos l" "lx_pos l'" "lx_src l"]
      substr_peek [of "lx_pos l + 1" "lx_pos l'" "lx_src l"] by (simp_all add: One_nat_def)
  with body show ?case unfolding d using other(3,4) by auto
qed

lemma skip_ws_unfold:
  "at_end l \<Longrightarrow> skip_whitespace_and_comments l = l"
  "\<not> at_end l \<Longrightarrow> is_blank (peek l) \<Longrightarrow> skip_whitespace_and_comments l = skip_whitespace_and_comments (skip 1 l)"
  "\<not> at_end l \<Longrightarrow> peek l = chr_nl \<Longrightarrow>
     skip_whitespace_and_comments l = skip_whitespace_and_comments (handle_newline (lx_pos l) (skip 1 l))"
  "\<not> at_end l \<Longrightarrow> peek l = CHR ''/'' \<Longrightarrow> peek_at l 1 = CHR ''/'' \<Longrightarrow>
     skip_whitespace_and_comments l = skip_whitespace_and_comments (skip_to_newline l)"
  "\<not> at_end l \<Longrightarrow> peek l = CHR ''/'' \<Longrightarrow> peek_at l 1 = CHR ''*'' \<Longrightarrow>
     skip_whitespace_and_comments l = skip_whitespace_and_comments (scan_block_comment (skip 2 l))"
  "\<not> at_end l \<Longrightarrow> \<not> is_blank (peek l) \<Longrightarrow> peek l \<noteq> chr_nl \<Longrightarrow>
     \<not> (peek l = CHR ''/'' \<and> (peek_at l 1 = CHR ''/'' \<or> peek_at l 1 = CHR ''*'')) \<Longrightarrow>
     skip_whitespace_and_comments l = l"
  subgoal by (subst skip_whitespace_and_comments.simps) simp
  subgoal by (subst skip_whitespace_and_comments.simps) (simp add: Let_def)
  subgoal by (subst skip_whitespace_and_comments.simps) (simp add: Let_def is_blank_def)
  subgoal by (subst skip_whitespace_and_comments.simps) (simp add: Let_def is_blank_def)
  subgoal by (subst skip_whitespace_and_comments.simps) (simp add: Let_def is_blank_def)
  subgoal by (subst skip_whitespace_and_comments.simps) (auto simp: Let_def)
  done

lemma skip_to_newline_line:
  assumes "lx_pos l \<le> length (lx_src l)"
  shows "lx_pos (skip_to_newline l) = skip_line (lx_src l) (lx_pos l)"
    and "chr_nl \<notin> set (substr (lx_src l) (lx_pos l) (lx_pos (skip_to_newline l) - lx_pos l))"
  using assms
proof (induction l rule: skip_to_newline.induct)
  case (1 l)
  have step: "skip_to_newline l = skip_to_newline (skip 1 l)" "skip_line (lx_src l) (lx_pos l) = skip_line (lx_src l) (lx_pos l + 1)"
    "lx_pos (skip 1 l) \<le> length (lx_src (skip 1 l))" if "\<not> at_end l" "peek l \<noteq> chr_nl"
  proof -
    show "skip_to_newline l = skip_to_newline (skip 1 l)" using that by (subst skip_to_newline.simps) simp
    show "skip_line (lx_src l) (lx_pos l) = skip_line (lx_src l) (lx_pos l + 1)"
      using that peek_nth [of l] by (subst skip_line.simps) (simp add: at_end_def)
    show "lx_pos (skip 1 l) \<le> length (lx_src (skip 1 l))" using that by (simp add: at_end_def lex_simps)
  qed
  have stop: "skip_to_newline l = l" "skip_line (lx_src l) (lx_pos l) = lx_pos l" if "at_end l \<or> peek l = chr_nl"
  proof -
    show "skip_to_newline l = l" using that by (subst skip_to_newline.simps) auto
    show "skip_line (lx_src l) (lx_pos l) = lx_pos l"
      using that peek_nth [of l] by (subst skip_line.simps) (auto simp: at_end_def)
  qed
  have m: "lx_pos (skip 1 l) \<le> lx_pos (skip_to_newline (skip 1 l)) \<and> lx_pos (skip_to_newline (skip 1 l)) \<le> length (lx_src l)"
    if "\<not> at_end l" "peek l \<noteq> chr_nl"
    using moves_pos [OF moves_skip_to_newline [OF step(3) [OF that]]] by (simp add: lex_simps)
  { case 1 show ?case
      using "1.IH"(1) step stop by (cases "\<not> at_end l \<and> peek l \<noteq> chr_nl") (auto simp: lex_simps) }
  { case 2 show ?case
    proof (cases "\<not> at_end l \<and> peek l \<noteq> chr_nl")
      case True
      with "1.IH"(2) step m peek_nth [of l]
        substr_peek [of "lx_pos l" "lx_pos (skip_to_newline (skip 1 l))" "lx_src l"]
      show ?thesis by (auto simp: lex_simps One_nat_def)
    qed (use stop in auto) }
qed

section \<open>Where a comment is cut\<close>

lemma drop_here: "\<not> at_end l \<Longrightarrow> drop (lx_pos l) (lx_src l) = peek l # drop (lx_pos l + 1) (lx_src l)"
  by (simp add: at_end_def peek_nth Cons_nth_drop_Suc One_nat_def)

lemma drop_two:
  "\<not> at_end l \<Longrightarrow> peek_at l 1 = c \<Longrightarrow> c \<noteq> chr_nul \<Longrightarrow>
     drop (lx_pos l) (lx_src l) = peek l # c # drop (lx_pos l + 2) (lx_src l)"
  using drop_here [of l] peek1D [of l c] by (simp add: Cons_nth_drop_Suc [symmetric] One_nat_def)

lemma cut_comment_end: "cut_comment [] = False"
  by (subst cut_comment.simps) simp

lemma cut_comment_blank: "is_blank c \<or> c = chr_nl \<Longrightarrow> cut_comment (c # r) = cut_comment r"
  by (subst cut_comment.simps) auto

lemma cut_comment_line:
  "cut_comment (CHR ''/'' # CHR ''/'' # r) = cut_comment (dropWhile (\<lambda>d. d \<noteq> chr_nl) r)"
  by (subst cut_comment.simps) (simp add: is_blank_def)

lemma cut_comment_block:
  "cut_comment (CHR ''/'' # CHR ''*'' # r) = (case comment_rest 1 r of None \<Rightarrow> True | Some t \<Rightarrow> cut_comment t)"
  by (subst cut_comment.simps) (simp add: is_blank_def)

lemma cut_skip_blank:
  "\<not> at_end l \<Longrightarrow> is_blank (peek l) \<or> peek l = chr_nl \<Longrightarrow>
     cut_comment (drop (lx_pos l) (lx_src l)) = cut_comment (drop (lx_pos l + 1) (lx_src l))"
  by (simp add: drop_here cut_comment_blank)

lemma dropWhile_line: "dropWhile (\<lambda>d. d \<noteq> chr_nl) (drop p src) = drop (skip_line src p) src"
proof (induction src p rule: skip_line.induct)
  case (1 src p)
  then show ?case
    by (subst skip_line.simps) (cases "p < length src"; auto simp: Cons_nth_drop_Suc [symmetric] One_nat_def)
qed

lemma cut_skip_line:
  assumes "lx_pos l \<le> length (lx_src l)" "\<not> at_end l" "peek l = CHR ''/''" "peek_at l 1 = CHR ''/''"
  shows "cut_comment (drop (lx_pos (skip_to_newline l)) (lx_src l)) = cut_comment (drop (lx_pos l) (lx_src l))"
proof -
  have two: "drop (lx_pos l) (lx_src l) = CHR ''/'' # CHR ''/'' # drop (lx_pos l + 2) (lx_src l)"
    using drop_two [OF assms(2,4)] assms(3) by simp
  then have "drop (lx_pos (skip_to_newline l)) (lx_src l) = dropWhile (\<lambda>d. d \<noteq> chr_nl) (drop (lx_pos l + 2) (lx_src l))"
    using dropWhile_line [of "lx_pos l" "lx_src l"] skip_to_newline_line(1) [OF assms(1)] by simp
  with two show ?thesis by (simp add: cut_comment_line)
qed

lemma comment_rest_loop:
  assumes "0 \<le> d" "block_comment_loop d l = (d', l')" "lx_pos l \<le> length (lx_src l)"
  shows "comment_rest (nat d) (drop (lx_pos l) (lx_src l)) = (if d' = 0 then Some (drop (lx_pos l') (lx_src l)) else None)"
  using assms
proof (induction d l rule: block_comment_induct)
  case (stop d l)
  then show ?case by (cases "nat d") (auto simp: block_comment_unfold at_end_def)
next
  case (opens d l)
  have b: "lx_pos (skip 2 l) \<le> length (lx_src (skip 2 l))" using moves_bound [OF moves_skip2] opens(4) by simp
  have d: "nat (d + 1) = Suc (Suc (nat (d - 1)))" "nat d = Suc (nat (d - 1))" using opens(1) by simp_all
  from opens(5) [OF _ _ b] opens(1-4,7) d drop_two [OF opens(2,4)] show ?case
    by (simp add: block_comment_unfold lex_simps)
next
  case (closes d l)
  have b: "lx_pos (skip 2 l) \<le> length (lx_src (skip 2 l))" using moves_bound [OF moves_skip2] closes(4) by simp
  have d: "nat d = Suc (nat (d - 1))" using closes(1) by simp
  from closes(5) [OF _ _ b] closes(1-4,7) d drop_two [OF closes(2,4)] show ?case
    by (simp add: block_comment_unfold lex_simps)
next
  case (other d l)
  have b: "lx_pos (skip 1 l) \<le> length (lx_src (skip 1 l))" using moves_bound [OF moves_skip1] other(2) by simp
  have d: "nat d = Suc (nat (d - 1))" using other(1) by simp
  have ih: "comment_rest (nat d) (drop (lx_pos l + 1) (lx_src l)) = (if d' = 0 then Some (drop (lx_pos l') (lx_src l)) else None)"
    using other(5) [OF _ _ b] other(1-4,7) by (simp add: block_comment_unfold lex_simps)
  have "comment_rest (nat d) (drop (lx_pos l) (lx_src l)) = comment_rest (nat d) (drop (lx_pos l + 1) (lx_src l))"
  proof (cases "drop (lx_pos l + 1) (lx_src l)")
    case Nil
    then show ?thesis using drop_here [OF other(2)] d by simp
  next
    case (Cons c r)
    then have "lx_pos l + 1 < length (lx_src l)" by (metis drop_eq_Nil list.distinct(1) not_less)
    with Cons have "peek_at l 1 = c" by (simp add: peek_at_def Cons_nth_drop_Suc [symmetric])
    with Cons show ?thesis using drop_here [OF other(2)] d other(3,4) by auto
  qed
  with ih show ?case by simp
qed

lemma cut_block:
  assumes "lx_pos l \<le> length (lx_src l)" "\<not> at_end l" "peek l = CHR ''/''" "peek_at l 1 = CHR ''*''"
    "block_comment_loop 1 (skip 2 l) = (d, l1)"
  shows "cut_comment (drop (lx_pos l) (lx_src l)) \<longleftrightarrow> d \<noteq> 0 \<or> cut_comment (drop (lx_pos l1) (lx_src l))"
proof -
  have "lx_pos (skip 2 l) \<le> length (lx_src (skip 2 l))" using moves_bound [OF moves_skip2] assms(4) by simp
  from comment_rest_loop [OF _ assms(5) this] drop_two [OF assms(2,4)] assms(3)
  show ?thesis by (simp add: cut_comment_block lex_simps One_nat_def)
qed

section \<open>Whitespace keeps the invariant\<close>

definition pending :: "lexer \<Rightarrow> bool" where
  "pending l \<longleftrightarrow> (ends_newline (lx_out l) \<longrightarrow> \<not> next_starts_with_operator l)"

lemma lookahead_unfold:
  "\<not> at_end l \<Longrightarrow> is_blank (peek l) \<or> peek l = chr_nl \<Longrightarrow> lookahead (lx_src l) (lx_pos l) = lookahead (lx_src l) (lx_pos l + 1)"
  "\<not> at_end l \<Longrightarrow> peek l = CHR ''/'' \<Longrightarrow> peek_at l 1 = CHR ''/'' \<Longrightarrow>
     lookahead (lx_src l) (lx_pos l) = lookahead (lx_src l) (skip_line (lx_src l) (lx_pos l))"
  "\<not> at_end l \<Longrightarrow> \<not> is_blank (peek l) \<Longrightarrow> peek l \<noteq> chr_nl \<Longrightarrow>
     \<not> (peek l = CHR ''/'' \<and> peek_at l 1 = CHR ''/'') \<Longrightarrow> lookahead (lx_src l) (lx_pos l) = lx_pos l"
  subgoal by (subst lookahead.simps) (auto simp: peek_nth at_end_def)
  subgoal
  proof -
    assume a: "\<not> at_end l" "peek l = CHR ''/''" "peek_at l 1 = CHR ''/''"
    then have "lx_src l ! lx_pos l = CHR ''/''" "lx_src l ! (lx_pos l + 1) = CHR ''/''" "lx_pos l + 1 < length (lx_src l)"
      using peek_nth [of l] peek1D [of l "CHR ''/''"] by simp_all
    then show ?thesis by (subst lookahead.simps) (simp add: Let_def is_blank_def)
  qed
  subgoal by (subst lookahead.simps) (auto simp: peek_nth at_end_def peek_at_def Let_def)
  done

lemma good_step_gap:
  assumes "good e0 0 l (lx_pos l)" "moves l l'" "trivia (substr (lx_src l) (lx_pos l) (lx_pos l' - lx_pos l))"
    and "cut_comment (drop (lx_pos l') (lx_src l)) = cut_comment (drop (lx_pos l) (lx_src l))"
  shows "good e0 0 l' (lx_pos l')"
  by (rule good_gap [OF good_moves [OF assms(1,2)]])
     (use assms(3,4) moves_pos [OF assms(2)] moves_src [OF assms(2)] in auto)

lemma good_newline:
  assumes "good e0 0 l (lx_pos l)" "\<not> at_end l" "peek l = chr_nl"
  shows "good e0 0 (handle_newline (lx_pos l) (skip 1 l)) (lx_pos l + 1)"
proof -
  have m: "moves l (skip 1 l)" by (rule moves_skip1 [OF assms(2)])
  have c: "substr (lx_src l) (lx_pos l) 1 = [chr_nl]"
    using assms(2,3) substr_Suc [of "lx_pos l" "lx_src l" 0] by (simp add: at_end_def peek_nth One_nat_def)
  have g1: "good e0 0 (skip 1 l) (lx_pos l + 1)"
    using good_step_gap [OF assms(1) m] c cut_skip_blank [OF assms(2)] assms(3) by (simp add: lex_simps trivia.intros)
  have g0: "good e0 0 (skip 1 l) (lx_pos l)" by (rule good_moves [OF assms(1) m])
  let ?t = "\<lparr>tok_kind = TkNewline, tok_range = range_from (skip 1 l) (lx_pos l), tok_lexeme = [chr_nl]\<rparr>"
  have "good e0 0 (push_token ?t (skip 1 l)) (lx_pos l + 1)"
    if "bracket_depth l \<le> 0" "\<not> prev_was_operator l"
  proof -
    have "covers (error_tokens (lx_out l) = 0) (lx_file l) (lx_src l) 0 (lx_out l @ [?t]) (lx_pos l + 1)"
      by (rule covers_snoc) (use g0 c assms(2) in
        \<open>auto simp: good_def range_from_def loc_at_def lex_simps at_end_def\<close>)
    then show ?thesis using g1 that
      by (auto simp: good_def push_token_def lex_simps layout_at_def range_from_def loc_at_def)
  qed
  then show ?thesis
    using g1 by (simp add: handle_newline_def emit_with_text_def lex_simps)
qed

lemma good_line_comment:
  assumes "good e0 0 l (lx_pos l)" "\<not> at_end l" "peek l = CHR ''/''" "peek_at l 1 = CHR ''/''"
  shows "good e0 0 (skip_to_newline l) (lx_pos (skip_to_newline l))"
    and "next_starts_with_operator (skip_to_newline l) = next_starts_with_operator l"
proof -
  let ?q = "lx_pos (skip_to_newline l)"
  note b = good_bounds [OF assms(1)]
  have m: "moves l (skip_to_newline l)" by (rule moves_skip_to_newline [OF b])
  have src: "lx_src l ! lx_pos l = CHR ''/''" "lx_src l ! (lx_pos l + 1) = CHR ''/''" "lx_pos l + 1 < length (lx_src l)"
    subgoal using peek_nth [OF assms(2)] assms(3) by simp
    using peek1D [OF assms(4)] by simp_all
  have two: "lx_pos l + 2 \<le> ?q"
  proof -
    have "skip_line (lx_src l) (lx_pos l) = skip_line (lx_src l) (lx_pos l + 1)"
      using src by (subst skip_line.simps) simp
    also have "\<dots> = skip_line (lx_src l) (lx_pos l + 2)"
      using src by (subst skip_line.simps) (simp add: One_nat_def)
    finally show ?thesis
      using skip_line_ge [of "lx_pos l + 2" "lx_src l"] skip_to_newline_line(1) [OF b] by simp
  qed
  let ?body = "substr (lx_src l) (lx_pos l + 2) (?q - (lx_pos l + 2))"
  have eq: "substr (lx_src l) (lx_pos l) (?q - lx_pos l) = CHR ''/'' # CHR ''/'' # ?body"
    using substr_two [OF two] moves_pos [OF m] src by simp
  then have "chr_nl \<notin> set ?body" using skip_to_newline_line(2) [OF b] by auto
  then have "trivia (''//'' @ ?body @ [])" by (rule trivia_line) (rule trivia_Nil)
  then have "trivia (substr (lx_src l) (lx_pos l) (?q - lx_pos l))" unfolding eq by simp
  then show "good e0 0 (skip_to_newline l) ?q" by (rule good_step_gap [OF assms(1) m]) (rule cut_skip_line [OF b assms(2-4)])
  show "next_starts_with_operator (skip_to_newline l) = next_starts_with_operator l"
    using lookahead_unfold(2) [OF assms(2-4)] skip_to_newline_line(1) [OF b] moves_src [OF m]
    by (simp add: next_starts_with_operator_def)
qed

lemma good_block_comment:
  assumes "good e0 0 l (lx_pos l)" "\<not> at_end l" "peek l = CHR ''/''" "peek_at l 1 = CHR ''*''"
  defines "l' \<equiv> scan_block_comment (skip 2 l)"
  shows "good e0 0 l' (lx_pos l') \<or> good e0 1 l' (lx_pos l') \<and> at_end l'"
    and "lx_out l' = lx_out l"
proof -
  have m2: "moves l (skip 2 l)" using assms(4) by (simp add: moves_skip2)
  have b2: "lx_pos (skip 2 l) \<le> length (lx_src (skip 2 l))" by (rule moves_bound [OF m2])
  obtain d l1 where loop: "block_comment_loop 1 (skip 2 l) = (d, l1)" by fastforce
  have m1: "moves (skip 2 l) l1" using moves_block_comment [OF b2, of 1] loop by simp
  have m: "moves l l1" by (rule moves_trans [OF m2 m1])
  have out: "lx_out l1 = lx_out l" using m by (cases l; cases l1) (simp add: moves_def)
  have d: "0 \<le> d" "0 < d \<longrightarrow> at_end l1" using block_comment_end [OF _ loop] by simp_all
  note cut = cut_block [OF good_bounds [OF assms(1)] assms(2-4) loop]
  show "lx_out l' = lx_out l" using out by (simp add: l'_def scan_block_comment_def loop lex_simps)
  show "good e0 0 l' (lx_pos l') \<or> good e0 1 l' (lx_pos l') \<and> at_end l'"
  proof (cases "d = 0")
    case True
    let ?body = "substr (lx_src l) (lx_pos l + 2) (lx_pos l1 - (lx_pos l + 2))"
    have body: "comment_body 1 ?body"
      using block_comment_body [of 1 "skip 2 l" l1] loop True b2 by (simp add: lex_simps One_nat_def)
    have "substr (lx_src l) (lx_pos l) (lx_pos l1 - lx_pos l) = ''/*'' @ ?body @ []"
      using substr_two [of l "lx_pos l1"] moves_pos [OF m1] peek_nth [OF assms(2)] assms(3) peek1D [OF assms(4)]
      by (simp add: lex_simps)
    moreover have "trivia (''/*'' @ ?body @ [])" by (rule trivia_block [OF body trivia_Nil])
    ultimately have "good e0 0 l1 (lx_pos l1)" using good_step_gap [OF assms(1) m] cut True by simp
    then show ?thesis by (simp add: l'_def scan_block_comment_def loop True)
  next
    case False
    have g: "good e0 0 l1 (lx_pos l)" by (rule good_moves [OF assms(1) m])
    have "covers False (lx_file l1) (lx_src l1) 0 (lx_out l1) (lx_pos l)"
      by (rule covers_weaken) (use g in \<open>auto simp: good_def\<close>)
    then have "covers False (lx_file l1) (lx_src l1) 0 (lx_out l1) (lx_pos l1)"
      by (rule covers_gap) (use g in \<open>simp add: gap_def good_def\<close>)
    with g False cut d moves_src [OF m] have "good e0 1 l' (lx_pos l')"
      by (simp add: at_end_def l'_def scan_block_comment_def loop good_def lex_simps)
    moreover have "at_end l'" using d False by (simp add: l'_def scan_block_comment_def loop at_end_def lex_simps)
    ultimately show ?thesis by simp
  qed
qed

definition ready :: "nat \<Rightarrow> lexer \<Rightarrow> bool" where
  "ready e0 l \<longleftrightarrow>
     (good e0 0 l (lx_pos l) \<and> (\<not> at_end l \<longrightarrow> ends_newline (lx_out l) \<longrightarrow> \<not> continues_line (peek l)))
     \<or> (good e0 1 l (lx_pos l) \<and> at_end l)"

lemma good_skip_ws:
  assumes "good e0 0 l (lx_pos l)" "pending l"
  shows "ready e0 (skip_whitespace_and_comments l)"
  using assms
proof (induction l rule: skip_whitespace_and_comments.induct)
  case (1 l)
  have m: "\<not> at_end l \<Longrightarrow> moves l (skip 1 l)" by (rule moves_skip1)
  consider (stop) "at_end l" | (blank) "\<not> at_end l" "is_blank (peek l)"
    | (newline) "\<not> at_end l" "\<not> is_blank (peek l)" "peek l = chr_nl"
    | (line) "\<not> at_end l" "\<not> is_blank (peek l)" "peek l = CHR ''/''" "peek_at l 1 = CHR ''/''"
    | (block) "\<not> at_end l" "\<not> is_blank (peek l)" "peek l = CHR ''/''" "peek_at l 1 = CHR ''*''"
    | (token) "\<not> at_end l" "\<not> is_blank (peek l)" "peek l \<noteq> chr_nl"
        "\<not> (peek l = CHR ''/'' \<and> (peek_at l 1 = CHR ''/'' \<or> peek_at l 1 = CHR ''*''))"
    by blast
  then show ?case
  proof cases
    case stop with "1.prems" show ?thesis by (simp add: skip_ws_unfold ready_def)
  next
    case blank
    have "substr (lx_src l) (lx_pos l) 1 = [peek l]"
      using blank(1) substr_Suc [of "lx_pos l" "lx_src l" 0] by (simp add: at_end_def peek_nth One_nat_def)
    then have "good e0 0 (skip 1 l) (lx_pos (skip 1 l))"
      using good_step_gap [OF "1.prems"(1) m] blank cut_skip_blank [of l] by (simp add: lex_simps trivia.intros)
    moreover have "pending (skip 1 l)"
      using "1.prems"(2) lookahead_unfold(1) [of l] blank by (simp add: pending_def next_starts_with_operator_def lex_simps)
    ultimately show ?thesis using "1.IH"(1) blank by (simp add: skip_ws_unfold)
  next
    case newline
    let ?h = "handle_newline (lx_pos l) (skip 1 l)"
    have g: "good e0 0 ?h (lx_pos ?h)" using good_newline [OF "1.prems"(1) newline(1,3)] by (simp add: lex_simps)
    have "next_starts_with_operator (skip 1 l) = next_starts_with_operator l"
      using lookahead_unfold(1) [of l] newline by (simp add: next_starts_with_operator_def lex_simps)
    with "1.prems"(2) have "pending ?h"
      by (auto simp: pending_def handle_newline_def emit_with_text_def push_token_def lex_simps
          next_starts_with_operator_def)
    with g "1.IH"(2) newline show ?thesis by (simp add: skip_ws_unfold)
  next
    case line
    have "pending (skip_to_newline l)"
      using good_line_comment(2) [OF "1.prems"(1) line(1,3,4)] "1.prems"(2)
        moves_skip_to_newline [OF good_bounds [OF "1.prems"(1)]]
      by (cases l; cases "skip_to_newline l") (simp add: pending_def moves_def)
    with good_line_comment(1) [OF "1.prems"(1) line(1,3,4)] "1.IH"(3) line show ?thesis
      by (simp add: skip_ws_unfold)
  next
    case block
    let ?b = "scan_block_comment (skip 2 l)"
    have "lookahead (lx_src l) (lx_pos l) = lx_pos l" using lookahead_unfold(3) [of l] block by simp
    then have "next_starts_with_operator l"
      using block peek_nth [of l] by (simp add: next_starts_with_operator_def continues_line_def at_end_def)
    then have "pending ?b"
      using "1.prems"(2) good_block_comment(2) [OF "1.prems"(1) block(1,3,4)] by (simp add: pending_def)
    then show ?thesis
      using good_block_comment(1) [OF "1.prems"(1) block(1,3,4)] "1.IH"(4) block
      by (auto simp: skip_ws_unfold ready_def)
  next
    case token
    have "lookahead (lx_src l) (lx_pos l) = lx_pos l" using lookahead_unfold(3) [of l] token by simp
    then have "ends_newline (lx_out l) \<longrightarrow> \<not> continues_line (peek l)"
      using "1.prems"(2) token peek_nth [of l]
      by (auto simp: pending_def next_starts_with_operator_def at_end_def)
    with token "1.prems"(1) show ?thesis by (simp add: skip_ws_unfold ready_def)
  qed
qed

lemma good_tokenize_loop:
  assumes "good e0 0 l (lx_pos l)" "pending l"
  shows "\<exists>x \<le> 1. good e0 x (tokenize_loop l) (lx_pos (tokenize_loop l))"
  using assms
proof (induction l rule: tokenize_loop.induct)
  case (1 l)
  let ?l1 = "skip_whitespace_and_comments l"
  have r: "ready e0 ?l1" by (rule good_skip_ws [OF "1.prems"])
  show ?case
  proof (cases "at_end l \<or> at_end ?l1")
    case True
    with "1.prems" r show ?thesis
      by (subst (1 2) tokenize_loop.simps) (auto simp: Let_def ready_def intro: exI [of _ 0] exI [of _ 1])
  next
    case False
    then have s: "good e0 0 (scan_token ?l1) (lx_pos (scan_token ?l1)) \<and> \<not> ends_newline (lx_out (scan_token ?l1))"
      using r good_scan_token [of e0 ?l1] by (auto simp: ready_def)
    then have "pending (scan_token ?l1)" by (simp add: pending_def)
    with s "1.IH" False show ?thesis
      by (subst (1 2) tokenize_loop.simps) (auto simp: Let_def intro: exI [of _ 0])
  qed
qed

section \<open>Errors and the cap\<close>

text \<open>Reporters only grow by errors: the cap stays, and the count by at most \<open>n\<close>.\<close>

definition reports :: "nat \<Rightarrow> lexer \<Rightarrow> lexer \<Rightarrow> bool" where
  "reports n l l' \<longleftrightarrow> error_cap (lx_reporter l') = error_cap (lx_reporter l)
     \<and> error_count (lx_reporter l) \<le> error_count (lx_reporter l')
     \<and> error_count (lx_reporter l') \<le> error_count (lx_reporter l) + n"

lemma reports_refl [simp]: "reports n l l"
  by (simp add: reports_def)

lemma reports_trans: "reports m a b \<Longrightarrow> reports n b c \<Longrightarrow> reports (m + n) a c"
  by (simp add: reports_def)

lemma error_cap_error_at [lex_simps]: "error_cap (lx_reporter (error_at r m l)) = error_cap (lx_reporter l)"
  by (simp add: error_at_def report_def diag_at_def diag_error_def)

lemma reports_moves: "moves l l' \<Longrightarrow> reports 0 l l'"
  by (cases l; cases l') (simp add: moves_def reports_def)

lemma reports_lexes: "lexes l start l' \<Longrightarrow> reports 1 l l'"
  by (elim lexesE) (auto simp: reports_def lex_simps report_def)

lemma reports_simps [lex_simps]:
  "reports n l (emit k start l1) \<longleftrightarrow> reports n l l1"
  "reports n l (bracket_change d l1) \<longleftrightarrow> reports n l l1"
  "reports n l (emit_part a b l1) \<longleftrightarrow> reports n l l1"
  "reports n l (handle_newline s l1) \<longleftrightarrow> reports n l l1"
  "reports n l (skip m l1) \<longleftrightarrow> reports n l l1"
  "reports n (emit_part a b l0) l \<longleftrightarrow> reports n l0 l"
  "reports n (emit k start l0) l \<longleftrightarrow> reports n l0 l"
  "reports n (bracket_change d l0) l \<longleftrightarrow> reports n l0 l"
  "reports n (handle_newline s l0) l \<longleftrightarrow> reports n l0 l"
  "reports n (skip m l0) l \<longleftrightarrow> reports n l0 l"
  "reports n (l0\<lparr>splice_depths := ds\<rparr>) l \<longleftrightarrow> reports n l0 l"
  by (simp_all add: reports_def lex_simps)

lemma reports_error [lex_simps]: "reports 1 l (error_at r m l)"
  by (simp add: reports_def lex_simps)

lemma reporter_advance [lex_simps]: "lx_reporter (snd (advance l)) = lx_reporter l"
  "lx_reporter (skip_escape l) = lx_reporter l"
  by (simp_all add: advance_def skip_escape_def Let_def lex_simps)

lemma reports_open_splice: "reports 0 l (open_splice l)"
  by (simp add: open_splice_def Let_def lex_simps) (simp add: reports_def lex_simps)

lemma reports_interp_loop: "reports 1 l (interp_loop f l)"
proof (induction f l rule: interp_loop.induct)
  case (1 f l)
  have "reports 1 l (open_splice (emit_part f (lx_pos l) l))"
    using reports_open_splice [of "emit_part f (lx_pos l) l"] by (simp add: reports_def lex_simps)
  moreover have "reports 1 l (snd (advance (emit_part f (lx_pos l) l)))" by (simp add: reports_def lex_simps)
  ultimately show ?case
    using 1 by (subst interp_loop.simps) (auto simp: Let_def lex_simps, auto simp: reports_def lex_simps)
qed

lemma reports_scan_string: "lx_pos l \<le> length (lx_src l) \<Longrightarrow> reports 1 l (scan_string p b l)"
  using reports_interp_loop [of "emit TkInterpStringBegin p l"] reports_lexes [OF string_literal.contract, of l p b]
  by (simp add: scan_string_def scan_interp_continue_def lex_simps)

lemma reports_close_paren: "reports 1 l (close_paren p l)"
  using reports_interp_loop [of "(emit TkRParen p (bracket_change (- 1) l))\<lparr>splice_depths := ds\<rparr>" for ds]
  by (auto simp: close_paren_def Let_def scan_interp_continue_def lex_simps split: list.split)

lemma reports_scan_other: "lx_pos l \<le> length (lx_src l) \<Longrightarrow> reports 1 l (scan_other c p l)"
proof -
  assume b: "lx_pos l \<le> length (lx_src l)"
  have "reports 1 l (scan_string p True (snd (advance l)))" if "peek l = chr_dquote"
  proof -
    have m: "moves l (snd (advance l))" using peek_not_end [of l] that by (simp add: moves_advance)
    show ?thesis
      using reports_trans [OF reports_moves [OF m] reports_scan_string [OF moves_bound [OF m]]] by simp
  qed
  with b show ?thesis
    by (simp add: scan_other_def reports_lexes [OF number.contract] reports_lexes [OF word.contract] lex_simps)
qed

lemma reports_scan_token:
  assumes "\<not> at_end l"
  shows "reports 1 l (scan_token l)"
proof -
  let ?l = "snd (advance l)"
  have b: "lx_pos ?l \<le> length (lx_src ?l)" by (rule moves_bound [OF moves_advance [OF assms]])
  have "reports 1 ?l (scan_token l)"
    unfolding scan_token_def Let_def
    using reports_lexes [OF lexes_scan_operator [OF b]]
    by (simp add: lex_simps reports_close_paren reports_scan_string [OF b] reports_lexes [OF char_literal.contract [OF b]]
        reports_scan_other [OF b] split: option.split)
  then show ?thesis by (simp add: reports_def lex_simps)
qed

lemma reports_skip_ws:
  "reports 0 l (skip_whitespace_and_comments l)
     \<or> at_end (skip_whitespace_and_comments l) \<and> reports 1 l (skip_whitespace_and_comments l)"
  if "lx_pos l \<le> length (lx_src l)"
  using that
proof (induction l rule: skip_whitespace_and_comments.induct)
  case (1 l)
  let ?Q = "\<lambda>l'. reports 0 l l' \<or> at_end l' \<and> reports 1 l l'"
  have go: "?Q (skip_whitespace_and_comments m)"
    if "reports 0 l m" "reports 0 m (skip_whitespace_and_comments m)
          \<or> at_end (skip_whitespace_and_comments m) \<and> reports 1 m (skip_whitespace_and_comments m)" for m
    using that reports_trans [of 0 l m] by auto
  consider (stop) "at_end l" | (blank) "\<not> at_end l" "is_blank (peek l)"
    | (newline) "\<not> at_end l" "\<not> is_blank (peek l)" "peek l = chr_nl"
    | (line) "\<not> at_end l" "\<not> is_blank (peek l)" "peek l = CHR ''/''" "peek_at l 1 = CHR ''/''"
    | (block) "\<not> at_end l" "\<not> is_blank (peek l)" "peek l = CHR ''/''" "peek_at l 1 = CHR ''*''"
    | (token) "\<not> at_end l" "\<not> is_blank (peek l)" "peek l \<noteq> chr_nl"
        "\<not> (peek l = CHR ''/'' \<and> (peek_at l 1 = CHR ''/'' \<or> peek_at l 1 = CHR ''*''))"
    by blast
  then show ?case
  proof cases
    case blank
    then have "lx_pos (skip 1 l) \<le> length (lx_src (skip 1 l))" by (simp add: moves_bound [OF moves_skip1])
    then show ?thesis
      unfolding skip_ws_unfold(2) [OF blank] using go [of "skip 1 l"] "1.IH"(1) blank by (simp add: lex_simps)
  next
    case newline
    then have "lx_pos (skip 1 l) \<le> length (lx_src (skip 1 l))" by (simp add: moves_bound [OF moves_skip1])
    then show ?thesis
      unfolding skip_ws_unfold(3) [OF newline(1,3)]
      using go [of "handle_newline (lx_pos l) (skip 1 l)"] "1.IH"(2) newline by (simp add: lex_simps)
  next
    case line
    have m: "moves l (skip_to_newline l)" by (rule moves_skip_to_newline [OF "1.prems"])
    show ?thesis
      unfolding skip_ws_unfold(4) [OF line(1,3,4)]
      using go [OF reports_moves [OF m]] "1.IH"(3) line moves_bound [OF m] by simp
  next
    case block
    have m2: "moves l (skip 2 l)" using block(4) by (simp add: moves_skip2)
    obtain d l1 where loop: "block_comment_loop 1 (skip 2 l) = (d, l1)" by fastforce
    have m: "moves (skip 2 l) l1" using moves_block_comment [OF moves_bound [OF m2], of 1] loop by simp
    have r: "reports 0 l l1" using reports_trans [OF reports_moves [OF m2] reports_moves [OF m]] by simp
    show ?thesis
    proof (cases "d = 0")
      case True
      then have "scan_block_comment (skip 2 l) = l1" by (simp add: scan_block_comment_def loop)
      then show ?thesis
        unfolding skip_ws_unfold(5) [OF block(1,3,4)]
        using go [OF r] "1.IH"(4) block moves_bound [OF m] by simp
    next
      case False
      then have e: "at_end l1" using block_comment_end [OF _ loop] by simp
      then have "at_end (scan_block_comment (skip 2 l))" "reports 1 l (scan_block_comment (skip 2 l))"
        using False r by (simp_all add: scan_block_comment_def loop at_end_def lex_simps) (simp add: reports_def lex_simps)
      then show ?thesis unfolding skip_ws_unfold(5) [OF block(1,3,4)] by (simp add: skip_ws_unfold(1))
    qed
  qed (simp_all add: skip_ws_unfold)
qed

lemma tokenize_loop_cap:
  assumes "lx_pos l \<le> length (lx_src l)" "\<not> should_stop (lx_reporter l)"
  shows "error_count (lx_reporter (tokenize_loop l)) \<le> error_cap (lx_reporter l)
    \<and> error_cap (lx_reporter (tokenize_loop l)) = error_cap (lx_reporter l)
    \<and> (at_end (tokenize_loop l) \<or> should_stop (lx_reporter (tokenize_loop l)))"
  using assms
proof (induction l rule: tokenize_loop.induct)
  case (1 l)
  let ?l1 = "skip_whitespace_and_comments l"
  let ?l2 = "scan_token ?l1"
  have r1: "reports 0 l ?l1 \<or> at_end ?l1 \<and> reports 1 l ?l1" by (rule reports_skip_ws [OF "1.prems"(1)])
  show ?case
  proof (cases "at_end l \<or> at_end ?l1")
    case True
    with r1 "1.prems" show ?thesis
      by (subst (1 2 3 4) tokenize_loop.simps) (auto simp: Let_def reports_def should_stop_def)
  next
    case False
    then have r2: "reports 1 l ?l2" using reports_trans [of 0 l ?l1 1 ?l2] r1 reports_scan_token [of ?l1] by simp
    have b: "lx_pos ?l2 \<le> length (lx_src ?l2)"
      using goes_on_scan_token [of ?l1] goes_on_skip_ws [OF "1.prems"(1)] False by (simp add: goes_on_def)
    have "tokenize_loop l = (if should_stop (lx_reporter ?l2) then ?l2 else tokenize_loop ?l2)"
      using False by (subst tokenize_loop.simps) (simp add: Let_def)
    moreover have "\<not> should_stop (lx_reporter ?l2) \<Longrightarrow>
        error_count (lx_reporter (tokenize_loop ?l2)) \<le> error_cap (lx_reporter ?l2)
        \<and> error_cap (lx_reporter (tokenize_loop ?l2)) = error_cap (lx_reporter ?l2)
        \<and> (at_end (tokenize_loop ?l2) \<or> should_stop (lx_reporter (tokenize_loop ?l2)))"
      using "1.IH" False b by simp
    ultimately show ?thesis
      using r2 "1.prems"(2) by (cases "should_stop (lx_reporter ?l2)") (auto simp: reports_def should_stop_def)
  qed
qed

section \<open>The token stream\<close>

lemma goes_on_tokenize_loop: "lx_pos l \<le> length (lx_src l) \<Longrightarrow> goes_on l (tokenize_loop l)"
proof (induction l rule: tokenize_loop.induct)
  case (1 l)
  let ?l1 = "skip_whitespace_and_comments l"
  have g1: "goes_on l ?l1" by (rule goes_on_skip_ws [OF "1.prems"])
  show ?case
  proof (cases "at_end l \<or> at_end ?l1")
    case True
    with g1 "1.prems" show ?thesis by (subst tokenize_loop.simps) (auto simp: Let_def goes_on_def)
  next
    case False
    then have g2: "goes_on l (scan_token ?l1)" using goes_on_trans [OF g1] goes_on_scan_token [of ?l1] by simp
    with "1.IH" False have "goes_on (scan_token ?l1) (tokenize_loop (scan_token ?l1))"
      if "\<not> should_stop (lx_reporter (scan_token ?l1))"
      using that by (simp add: goes_on_def)
    with g2 False goes_on_trans [OF g2] show ?thesis by (subst tokenize_loop.simps) (simp add: Let_def)
  qed
qed

definition eof_token :: "file_id \<Rightarrow> nat \<Rightarrow> token" where
  "eof_token f q = \<lparr>tok_kind = TkEof,
     tok_range = \<lparr>range_begin = \<lparr>loc_file = f, loc_offset = q\<rparr>, range_length = 0\<rparr>, tok_lexeme = []\<rparr>"

lemma lex_fileE:
  assumes "lex_file sm f rep = Inr (ts, rep')"
  obtains src l x where "sm_source sm f = Inr src" "lx_src l = src" "lx_file l = f" "rep' = lx_reporter l"
    "ts = lx_out l @ [eof_token f (lx_pos l)]" "x \<le> 1" "good (error_count rep) x l (lx_pos l)"
    "\<not> should_stop rep \<Longrightarrow> error_count rep' \<le> error_cap rep
       \<and> (lx_pos l = length src \<or> error_cap rep \<le> error_count rep')"
proof -
  from assms obtain src where src: "sm_source sm f = Inr src"
    by (auto simp: lex_file_def new_lexer_def map_sum_def split: sum.splits)
  define l0 where "l0 = \<lparr>lx_file = f, lx_reporter = rep, lx_src = src, lx_pos = 0, bracket_depth = 0,
              prev_was_operator = False, splice_depths = [], lx_out = []\<rparr>"
  define l where "l = tokenize_loop l0"
  have g0: "good (error_count rep) 0 l0 (lx_pos l0)" "pending l0"
    by (simp_all add: good_def pending_def l0_def)
  from good_tokenize_loop [OF g0] obtain x where g: "x \<le> 1" "good (error_count rep) x l (lx_pos l)"
    unfolding l_def by blast
  have on: "goes_on l0 l" unfolding l_def by (rule goes_on_tokenize_loop) (simp add: l0_def)
  have "\<not> should_stop rep \<Longrightarrow> error_count (lx_reporter l) \<le> error_cap rep
       \<and> (lx_pos l = length src \<or> error_cap rep \<le> error_count (lx_reporter l))"
  proof -
    assume "\<not> should_stop rep"
    then have "error_count (lx_reporter l) \<le> error_cap rep" "error_cap (lx_reporter l) = error_cap rep"
      "at_end l \<or> should_stop (lx_reporter l)"
      using tokenize_loop_cap [of l0, folded l_def] by (simp_all add: l0_def)
    moreover have "at_end l \<Longrightarrow> lx_pos l = length src" using on by (simp add: at_end_def goes_on_def l0_def)
    ultimately show "error_count (lx_reporter l) \<le> error_cap rep
       \<and> (lx_pos l = length src \<or> error_cap rep \<le> error_count (lx_reporter l))"
      by (auto simp: should_stop_def)
  qed
  moreover have "rep' = lx_reporter l" "ts = lx_out l @ [eof_token f (lx_pos l)]"
    and f: "lx_src l = src" "lx_file l = f"
  proof -
    show f: "lx_src l = src" "lx_file l = f" using on by (simp_all add: goes_on_def l0_def)
    have "ts = lx_out (tokenize l0)" "rep' = lx_reporter (tokenize l0)"
      using assms src by (simp_all add: lex_file_def new_lexer_def l0_def)
    then show "rep' = lx_reporter l" "ts = lx_out l @ [eof_token f (lx_pos l)]"
      using f by (simp_all add: tokenize_def l_def [symmetric] Let_def push_token_def eof_token_def loc_at_def)
  qed
  ultimately show thesis using that [of src l x] src g by simp
qed

section \<open>Properties\<close>

text \<open>
  The text a token stream stands for: the text before each token, followed by its lexeme.
\<close>

fun relex :: "string \<Rightarrow> nat \<Rightarrow> token list \<Rightarrow> string" where
  "relex src p [] = []"
| "relex src p (t # ts) =
     (let b = loc_offset (range_begin (tok_range t))
      in substr src p (b - p) @ tok_lexeme t @ relex src (b + range_length (tok_range t)) ts)"

lemma relex_covers:
  "covers ok f src p ts q \<Longrightarrow> relex src p (ts @ [eof_token f q]) = substr src p (q - p)"
proof (induction ts arbitrary: p)
  case (Cons t ts)
  let ?b = "loc_offset (range_begin (tok_range t))" let ?e = "?b + range_length (tok_range t)"
  from Cons.prems have c: "p \<le> ?b" "tok_lexeme t = substr src ?b (?e - ?b)" "covers ok f src ?e ts q"
    by (auto simp: Let_def gap_def)
  have "?e \<le> q" using covers_le [OF c(3)] by simp
  with c Cons.IH [OF c(3)] show ?case
    by (simp add: Let_def substr_split [of p ?b q] substr_split [of ?b ?e q])
qed (simp add: eof_token_def)

text \<open>A small input for the witnesses: a statement, a comment, a newline and a name.\<close>

definition demo_text :: string where
  "demo_text = ''let x = // one'' @ [chr_nl] @ ''1'' @ [chr_nl] @ ''y''"

definition demo_manager :: source_manager where
  "demo_manager = snd (add_in_memory ''demo.vs'' demo_text empty_source_manager)"

definition demo_token :: "token_kind \<Rightarrow> nat \<Rightarrow> string \<Rightarrow> token" where
  "demo_token k p text = \<lparr>tok_kind = k,
     tok_range = \<lparr>range_begin = \<lparr>loc_file = 1, loc_offset = p\<rparr>, range_length = length text\<rparr>, tok_lexeme = text\<rparr>"

definition demo_tokens :: "token list" where
  "demo_tokens = [demo_token (TkKw KwLet) 0 ''let'', demo_token TkIdentifier 4 ''x'',
     demo_token (TkOp OpAssign) 6 ''='', demo_token TkIntLit 15 ''1'', demo_token TkNewline 16 [chr_nl],
     demo_token TkIdentifier 17 ''y'', demo_token TkEof 18 []]"

lemma demo_lex: "lex_file demo_manager 1 (new_reporter 32) = Inr (demo_tokens, new_reporter 32)"
  by code_simp

lemma demo_source: "sm_source demo_manager 1 = Inr demo_text"
  by code_simp

text \<open>
  C1: Lexing a file gives tokens that lie in the file one after the other, each holding the
  text of its range, and ends with one end-of-file token and no other. When no error was
  reported, only whitespace, line comments and nested block comments lie between them.
\<close>

theorem lex_tokens_tile:
  assumes "lex_file sm f rep = Inr (ts, rep')" "sm_source sm f = Inr src"
  shows "\<exists>body q. ts = body @ [eof_token f q] \<and> TkEof \<notin> set (map tok_kind body)
     \<and> covers (error_count rep' = error_count rep) f src 0 body q"
proof -
  obtain src' l x where l: "sm_source sm f = Inr src'" "lx_src l = src'" "lx_file l = f" "rep' = lx_reporter l"
    "ts = lx_out l @ [eof_token f (lx_pos l)]" "good (error_count rep) x l (lx_pos l)"
    using lex_fileE [OF assms(1)] by metis
  have "covers (error_count rep' = error_count rep) f src 0 (lx_out l) (lx_pos l)"
    by (rule covers_weaken [of "x = 0 \<and> error_tokens (lx_out l) = 0"])
       (use l assms(2) in \<open>auto simp: good_def\<close>)
  then show ?thesis
    using l by (intro exI [of _ "lx_out l"] exI [of _ "lx_pos l"]) (simp add: good_def)
qed

theorem lex_tokens_tile_witness:
  "\<exists>body q. demo_tokens = body @ [eof_token 1 q] \<and> TkEof \<notin> set (map tok_kind body)
     \<and> covers (error_count (new_reporter 32) = error_count (new_reporter 32)) 1 demo_text 0 body q"
  by (rule lex_tokens_tile [OF demo_lex demo_source])

text \<open>
  C2: Nothing of a file is lost: unless the errors reach the cap of the reporter, the texts
  between the tokens and the lexemes of the tokens, put together, are the file.
\<close>

theorem lex_roundtrip:
  assumes "lex_file sm f rep = Inr (ts, rep')" "sm_source sm f = Inr src"
    and "error_count rep' < error_cap rep"
  shows "relex src 0 ts = src"
proof -
  obtain src' l x where l: "sm_source sm f = Inr src'" "lx_src l = src'" "lx_file l = f" "rep' = lx_reporter l"
    "ts = lx_out l @ [eof_token f (lx_pos l)]" "good (error_count rep) x l (lx_pos l)"
    "\<not> should_stop rep \<Longrightarrow> lx_pos l = length src' \<or> error_cap rep \<le> error_count rep'"
    using lex_fileE [OF assms(1)] by metis
  have "\<not> should_stop rep" using l(4,6) assms(3) by (simp add: should_stop_def good_def)
  with l assms(2,3) have "lx_pos l = length src" by simp
  moreover have "covers (x = 0 \<and> error_tokens (lx_out l) = 0) f src 0 (lx_out l) (lx_pos l)"
    using l assms(2) by (simp add: good_def)
  ultimately show ?thesis using relex_covers l(5) by (simp add: substr_all)
qed

theorem lex_roundtrip_witness: "relex demo_text 0 demo_tokens = demo_text"
  by (rule lex_roundtrip [OF demo_lex demo_source]) (simp add: new_reporter_def)

text \<open>
  C3: The rule for newlines: every newline token stands where the brackets emitted before it
  are closed and the last token before it is no binary operator, and the next token does not
  start with a character that continues a line.
\<close>

theorem lex_newlines:
  assumes "lex_file sm f rep = Inr (ts, rep')"
  shows "layout_ok ts"
proof -
  obtain l x where "ts = lx_out l @ [eof_token f (lx_pos l)]" "good (error_count rep) x l (lx_pos l)"
    using lex_fileE [OF assms] by metis
  then show ?thesis by (simp add: good_def layout_at_def eof_token_def)
qed

theorem lex_newlines_witness: "layout_ok demo_tokens"
  by (rule lex_newlines [OF demo_lex])

text \<open>
  C7: The errors of the lexer are accounted for: it reports one error for every error token, and one
  more exactly when it reaches the end of the file and the text after the last token runs into a block
  comment that is not closed, for which there is no token. A reporter below its cap never gets past it.
\<close>

theorem lex_errors_reported:
  assumes "lex_file sm f rep = Inr (ts, rep')" "sm_source sm f = Inr src"
  shows "\<exists>body q. ts = body @ [eof_token f q]
     \<and> error_count rep' = error_count rep + error_tokens ts
          + (if q = length src \<and> cut_comment (drop (last_end body) src) then 1 else 0)
     \<and> (should_stop rep \<or> error_count rep' \<le> error_cap rep)"
proof -
  obtain src' l x where l: "sm_source sm f = Inr src'" "lx_src l = src'" "rep' = lx_reporter l"
    "ts = lx_out l @ [eof_token f (lx_pos l)]" "x \<le> 1" "good (error_count rep) x l (lx_pos l)"
    "\<not> should_stop rep \<Longrightarrow> error_count rep' \<le> error_cap rep"
    using lex_fileE [OF assms(1)] by metis
  have src: "lx_src l = src" using l(1,2) assms(2) by simp
  have cut: "cut_comment (drop (last_end (lx_out l)) src) \<longleftrightarrow> x \<noteq> 0 \<or> cut_comment (drop (lx_pos l) src)"
    and x: "x \<noteq> 0 \<longrightarrow> lx_pos l = length src" and n: "error_count rep' = error_count rep + error_tokens (lx_out l) + x"
    using l(3,6) by (simp_all add: good_def src)
  have "error_tokens ts = error_tokens (lx_out l)" by (simp add: l(4) eof_token_def)
  moreover have "x = (if lx_pos l = length src \<and> cut_comment (drop (last_end (lx_out l)) src) then 1 else 0)"
    using cut x l(5) by (cases "x = 0") (auto simp: cut_comment_end)
  moreover have "should_stop rep \<or> error_count rep' \<le> error_cap rep" using l(7) by blast
  ultimately show ?thesis using l(4) n by (intro exI [of _ "lx_out l"] exI [of _ "lx_pos l"]) simp
qed

definition bad_manager :: source_manager where
  "bad_manager = snd (add_in_memory ''bad.vs'' ''a # /*'' empty_source_manager)"

lemma bad_source: "sm_source bad_manager 1 = Inr ''a # /*''"
  by code_simp

lemma bad_lex: "case lex_file bad_manager 1 (new_reporter 32) of Inl _ \<Rightarrow> False | Inr (ts, r) \<Rightarrow> error_tokens ts = 1 \<and> error_count r = 2"
  by code_simp

theorem lex_errors_reported_witness:
  "\<exists>ts rep' body q. lex_file bad_manager 1 (new_reporter 32) = Inr (ts, rep') \<and> ts = body @ [eof_token 1 q]
     \<and> error_count rep' = 2 \<and> error_tokens ts = 1 \<and> q = 6 \<and> cut_comment (drop (last_end body) ''a # /*'')"
proof -
  obtain ts rep' where r: "lex_file bad_manager 1 (new_reporter 32) = Inr (ts, rep')" "error_tokens ts = 1" "error_count rep' = 2"
    using bad_lex by (auto split: sum.splits prod.splits)
  from lex_errors_reported [OF r(1) bad_source] obtain body q where b: "ts = body @ [eof_token 1 q]"
    "error_count rep' = error_count (new_reporter 32) + error_tokens ts
       + (if q = length ''a # /*'' \<and> cut_comment (drop (last_end body) ''a # /*'') then 1 else 0)" by blast
  from b(2) have "(if q = 6 \<and> cut_comment (drop (last_end body) ''a # /*'') then 1 else 0) = (1 :: nat)"
    unfolding r(2,3) by (simp add: new_reporter_def numeral_eq_Suc)
  then have "q = 6 \<and> cut_comment (drop (last_end body) ''a # /*'')" by (cases "q = 6 \<and> cut_comment (drop (last_end body) ''a # /*'')") simp_all
  with r b(1) show ?thesis by blast
qed

text \<open>The kinds of the tokens of a text that is a file of its own.\<close>

definition lex_kinds :: "string \<Rightarrow> token_kind list" where
  "lex_kinds s =
     (case lex_file (snd (add_in_memory [] s empty_source_manager)) 1 (new_reporter 32) of
        Inl _ \<Rightarrow> [] | Inr (ts, _) \<Rightarrow> map tok_kind ts)"

text \<open>
  C15: The lexer and the spelling table agree: the spelling of every punctuation mark, operator
  and keyword lexes as exactly that token. The kinds that fail are those whose spelling is a
  description, and the newline.
\<close>

theorem lex_spelling:
  "{k. lex_kinds (spelling k) \<noteq> [k, TkEof]} =
     {TkEof, TkError, TkNewline, TkIntLit, TkFloatLit, TkStringLit, TkByteStringLit, TkCharLit,
      TkInterpStringBegin, TkInterpStringPart, TkInterpStringEnd}"
proof -
  have "filter (\<lambda>k. lex_kinds (spelling k) \<noteq> [k, TkEof]) all_kinds =
     [TkEof, TkError, TkNewline, TkIntLit, TkFloatLit, TkStringLit, TkByteStringLit, TkCharLit,
      TkInterpStringBegin, TkInterpStringPart, TkInterpStringEnd]"
    by code_simp
  from arg_cong [OF this, of set] show ?thesis by (simp add: all_kinds_UNIV)
qed

declare One_nat_def [simp]

end
