(* ===== verification/Types.thy ===== *)
theory Types
  imports Prelude
begin

text \<open>
  The semantic types, \<^verbatim>\<open>include/vestra/sema/types.hpp\<close> and \<^verbatim>\<open>src/sema/types.cpp\<close>.
  A \<^verbatim>\<open>Type\<close> is immutable once its constructor has returned it, so a type is a tree in which
  every node carries the address it was allocated at: \<^verbatim>\<open>a == b\<close> on pointers compares the
  addresses of the roots. A \<^verbatim>\<open>TypePtr\<close> is an option, \<open>None\<close> the null pointer. The arena owns
  the nodes in the order it allocated them. Of the declaration of a nominal type the code
  reads its address, its kind and its name.
\<close>

section \<open>Types\<close>

text \<open>A constructor is the C++ enumerator with the prefix \<open>K\<close>.\<close>

datatype (plugins only: code) type_kind =
    KInt8 | KInt16 | KInt32 | KInt64 | KInt | KUInt8 | KUInt16 | KUInt32 | KUInt64 | KUInt
  | KInt128 | KUInt128 | KFloat32 | KFloat64 | KBool | KChar | KUnit | KString | KStr
  | KStrConst | KDuration | KAstExpr | KAstDecl | KNever | KError | KOptional | KResult
  | KBox | KFuture | KChannel | KVec | KHashMap | KSoa | KVector | KFunction | KTuple
  | KSpan | KMutSpan | KPtr | KMutPtr | KMmioView | KMmioRegion | KMmioWireView | KPerCpu
  | KInterruptHandler | KPadded | KSysregHandle | KSysregHandleRO | KSysregHandleWO
  | KZipIter | KTakeIter | KMapIter | KFilterIter | KChunkIter | KAtomic | KCasResult
  | KAtomicTaggedPointer | KStruct | KEnum | KProtocol | KOpaqueType | KGenericParam
  | KConstValue

datatype (plugins only: code) nominal_kind = NominalStruct | NominalEnum | NominalProtocol | NominalOpaque | NominalOther

record decl_ref =
  decl_addr :: nat
  decl_kind :: nominal_kind
  decl_name :: string

datatype ty =
  Ty (ty_addr: nat) (ty_kind: type_kind) (ty_inner: "ty option") (ty_length: int)
    (ty_parts: "ty option list") (ty_result: "ty option") (ty_decl: "decl_ref option") (ty_name: string)

type_synonym type_ptr = "ty option"

text \<open>Equality of pointers.\<close>

definition same_ptr :: "type_ptr \<Rightarrow> type_ptr \<Rightarrow> bool" where
  "same_ptr a b \<longleftrightarrow> map_option ty_addr a = map_option ty_addr b"

definition is_primitive :: "type_kind \<Rightarrow> bool" where
  "is_primitive k \<longleftrightarrow> k \<in>
     {KInt8, KInt16, KInt32, KInt64, KInt, KUInt8, KUInt16, KUInt32, KUInt64, KUInt,
      KInt128, KUInt128, KFloat32, KFloat64, KBool, KChar, KUnit, KString, KStr,
      KStrConst}"

definition is_integer :: "type_kind \<Rightarrow> bool" where
  "is_integer k \<longleftrightarrow> k \<in>
     {KInt8, KInt16, KInt32, KInt64, KInt, KUInt8, KUInt16, KUInt32, KUInt64, KUInt,
      KInt128, KUInt128}"

definition is_float :: "type_kind \<Rightarrow> bool" where
  "is_float k \<longleftrightarrow> k \<in>
     {KFloat32, KFloat64}"

definition primitive_spelling :: "type_kind \<Rightarrow> string" where
  "primitive_spelling k =
     (case k of
        KInt8 \<Rightarrow> ''Int8''
      | KInt16 \<Rightarrow> ''Int16''
      | KInt32 \<Rightarrow> ''Int32''
      | KInt64 \<Rightarrow> ''Int64''
      | KInt \<Rightarrow> ''Int''
      | KUInt8 \<Rightarrow> ''UInt8''
      | KUInt16 \<Rightarrow> ''UInt16''
      | KUInt32 \<Rightarrow> ''UInt32''
      | KUInt64 \<Rightarrow> ''UInt64''
      | KUInt \<Rightarrow> ''UInt''
      | KInt128 \<Rightarrow> ''Int128''
      | KUInt128 \<Rightarrow> ''UInt128''
      | KFloat32 \<Rightarrow> ''Float32''
      | KFloat64 \<Rightarrow> ''Float64''
      | KBool \<Rightarrow> ''Bool''
      | KChar \<Rightarrow> ''Char''
      | KUnit \<Rightarrow> ''Unit''
      | KString \<Rightarrow> ''String''
      | KStr \<Rightarrow> ''Str''
      | KStrConst \<Rightarrow> ''StrConst''
      | KNever \<Rightarrow> ''Never''
      | KError \<Rightarrow> ''<error>''
      | _ \<Rightarrow> [])"

text \<open>The name \<^verbatim>\<open>describe\<close> prints before the bracket for a wrapper of one type.\<close>

definition wrapper_name :: "type_kind \<Rightarrow> string" where
  "wrapper_name k =
     (case k of
        KBox \<Rightarrow> ''Box''
      | KFuture \<Rightarrow> ''Future''
      | KChannel \<Rightarrow> ''Channel''
      | KVec \<Rightarrow> ''Vec''
      | KSoa \<Rightarrow> ''Soa''
      | KSpan \<Rightarrow> ''Span''
      | KMutSpan \<Rightarrow> ''MutSpan''
      | KPtr \<Rightarrow> ''Ptr''
      | KMutPtr \<Rightarrow> ''MutPtr''
      | KMmioView \<Rightarrow> ''MmioView''
      | KMmioRegion \<Rightarrow> ''MmioRegion''
      | KMmioWireView \<Rightarrow> ''MmioWireView''
      | KPerCpu \<Rightarrow> ''PerCpu''
      | KPadded \<Rightarrow> ''Padded''
      | KSysregHandle \<Rightarrow> ''ReadWriteSysreg''
      | KSysregHandleRO \<Rightarrow> ''ReadOnlySysreg''
      | KSysregHandleWO \<Rightarrow> ''WriteOnlySysreg''
      | KTakeIter \<Rightarrow> ''TakeIter''
      | KFilterIter \<Rightarrow> ''FilterIter''
      | KChunkIter \<Rightarrow> ''ChunkIter''
      | KAtomic \<Rightarrow> ''Atomic''
      | KCasResult \<Rightarrow> ''CASResult''
      | KAtomicTaggedPointer \<Rightarrow> ''AtomicTaggedPointer''
      | _ \<Rightarrow> [])"

fun join_comma :: "string list \<Rightarrow> string" where
  "join_comma [] = []"
| "join_comma [s] = s"
| "join_comma (s # t # ss) = s @ '', '' @ join_comma (t # ss)"

text \<open>A nominal type prints the name of its declaration and its type arguments.\<close>

definition describe_nominal :: "decl_ref option \<Rightarrow> string list \<Rightarrow> string" where
  "describe_nominal d args =
     (case d of
        None \<Rightarrow> ''<nominal>''
      | Some r \<Rightarrow>
          (let suffix = (if args = [] then [] else ''['' @ join_comma args @ '']'') in
           case decl_kind r of
             NominalStruct \<Rightarrow> decl_name r @ suffix
           | NominalEnum \<Rightarrow> decl_name r @ suffix
           | NominalProtocol \<Rightarrow> decl_name r
           | NominalOpaque \<Rightarrow> decl_name r
           | NominalOther \<Rightarrow> ''<nominal>''))"

text \<open>
  The spelling of a type. The first function is the text of a pointer in a place where a null
  pointer prints as a question mark.
\<close>

fun describe_or :: "type_ptr \<Rightarrow> string"
  and describe :: "ty \<Rightarrow> string"
  and describe_list :: "type_ptr list \<Rightarrow> string list"
where
  "describe_or None = ''?''"
| "describe_or (Some t) = describe t"
| "describe_list [] = []"
| "describe_list (p # ps) = describe_or p # describe_list ps"
| "describe (Ty a k i n ps r d nm) =
     (if is_primitive k \<or> k = KNever \<or> k = KError then primitive_spelling k
      else
        (case k of
           KOptional \<Rightarrow> (case i of Some _ \<Rightarrow> describe_or i @ ''?'' | None \<Rightarrow> ''?'')
         | KHashMap \<Rightarrow>
             (case ps of [_, _] \<Rightarrow> ''HashMap['' @ join_comma (describe_list ps) @ '']'' | _ \<Rightarrow> ''HashMap'')
         | KDuration \<Rightarrow> ''Duration''
         | KAstExpr \<Rightarrow> ''Expr''
         | KAstDecl \<Rightarrow> ''Decl''
         | KInterruptHandler \<Rightarrow>
             (case i of Some _ \<Rightarrow> ''@interrupt('' @ describe_or i @ '')'' | None \<Rightarrow> ''@interrupt'')
         | KZipIter \<Rightarrow>
             ''ZipIter['' @ join_comma (take 2 (describe_list ps @ [''?'', ''?''])) @ '']''
         | KMapIter \<Rightarrow>
             (let ds = describe_list ps @ [''?'', ''?''] in ''MapIter['' @ ds ! 0 @ '' -> '' @ ds ! 1 @ '']'')
         | KResult \<Rightarrow> ''Result<'' @ describe_or i @ '', '' @ describe_or r @ ''>''
         | KVector \<Rightarrow>
             (if nm \<noteq> [] then ''['' @ nm @ '']'' @ describe_or i
              else ''['' @ dec_int n @ '']'' @ describe_or i)
         | KConstValue \<Rightarrow> dec_int n
         | KTuple \<Rightarrow> ''('' @ join_comma (describe_list ps) @ '')''
         | KFunction \<Rightarrow>
             ''('' @ join_comma (describe_list ps) @ '') -> ''
               @ (case r of Some _ \<Rightarrow> describe_or r | None \<Rightarrow> ''Unit'')
         | KStruct \<Rightarrow> describe_nominal d (describe_list ps)
         | KEnum \<Rightarrow> describe_nominal d (describe_list ps)
         | KProtocol \<Rightarrow> describe_nominal d (describe_list ps)
         | KOpaqueType \<Rightarrow> describe_nominal d (describe_list ps)
         | KGenericParam \<Rightarrow> nm
         | _ \<Rightarrow>
             (if wrapper_name k \<noteq> [] then
                (case i of Some _ \<Rightarrow> wrapper_name k @ ''['' @ describe_or i @ '']'' | None \<Rightarrow> wrapper_name k)
              else ''<type>'')))"

section \<open>The arena\<close>

record arena =
  owned :: "ty list"
  primitives :: "(type_kind \<times> ty) list"

text \<open>
  \<^verbatim>\<open>new Type\<close> and the push of the pointer: the address is fresh, which the model gives as
  the position among the nodes the arena owns.
\<close>

definition alloc :: "(nat \<Rightarrow> ty) \<Rightarrow> arena \<Rightarrow> type_ptr \<times> arena" where
  "alloc mk A = (let t = mk (length (owned A)) in (Some t, A\<lparr>owned := owned A @ [t]\<rparr>))"

definition interned_kinds :: "type_kind list" where

  "interned_kinds =
     [KInt8, KInt16, KInt32, KInt64, KInt, KUInt8, KUInt16, KUInt32, KUInt64, KUInt,
      KInt128, KUInt128, KFloat32, KFloat64, KBool, KChar, KUnit, KString, KStr,
      KStrConst, KDuration, KAstExpr, KAstDecl, KNever, KError]"

fun intern_all :: "type_kind list \<Rightarrow> arena \<Rightarrow> arena" where
  "intern_all [] A = A"
| "intern_all (k # ks) A =
     (let t = Ty (length (owned A)) k None 0 [] None None []
      in intern_all ks (A\<lparr>owned := owned A @ [t], primitives := primitives A @ [(k, t)]\<rparr>))"

definition new_arena :: arena where
  "new_arena = intern_all interned_kinds \<lparr>owned = [], primitives = []\<rparr>"

text \<open>\<open>None\<close> is the failed assertion on a kind that is not interned.\<close>

definition primitive :: "arena \<Rightarrow> type_kind \<Rightarrow> type_ptr" where
  "primitive A k = map_of (primitives A) k"

definition make_optional :: "type_ptr \<Rightarrow> arena \<Rightarrow> type_ptr \<times> arena" where
  "make_optional inner = alloc (\<lambda>a. Ty a KOptional inner 0 [] None None [])"

definition make_box :: "type_ptr \<Rightarrow> arena \<Rightarrow> type_ptr \<times> arena" where
  "make_box inner = alloc (\<lambda>a. Ty a KBox inner 0 [] None None [])"

definition make_future :: "type_ptr \<Rightarrow> arena \<Rightarrow> type_ptr \<times> arena" where
  "make_future inner = alloc (\<lambda>a. Ty a KFuture inner 0 [] None None [])"

definition make_channel :: "type_ptr \<Rightarrow> arena \<Rightarrow> type_ptr \<times> arena" where
  "make_channel inner = alloc (\<lambda>a. Ty a KChannel inner 0 [] None None [])"

definition make_vec :: "type_ptr \<Rightarrow> arena \<Rightarrow> type_ptr \<times> arena" where
  "make_vec inner = alloc (\<lambda>a. Ty a KVec inner 0 [] None None [])"

definition make_soa :: "type_ptr \<Rightarrow> arena \<Rightarrow> type_ptr \<times> arena" where
  "make_soa element = alloc (\<lambda>a. Ty a KSoa element 0 [] None None [])"

definition make_hashmap :: "type_ptr \<Rightarrow> type_ptr \<Rightarrow> arena \<Rightarrow> type_ptr \<times> arena" where
  "make_hashmap k value = alloc (\<lambda>a. Ty a KHashMap None 0 [k, value] None None [])"

definition make_span :: "type_ptr \<Rightarrow> arena \<Rightarrow> type_ptr \<times> arena" where
  "make_span inner = alloc (\<lambda>a. Ty a KSpan inner 0 [] None None [])"

definition make_mut_span :: "type_ptr \<Rightarrow> arena \<Rightarrow> type_ptr \<times> arena" where
  "make_mut_span inner = alloc (\<lambda>a. Ty a KMutSpan inner 0 [] None None [])"

definition make_ptr :: "type_ptr \<Rightarrow> arena \<Rightarrow> type_ptr \<times> arena" where
  "make_ptr inner = alloc (\<lambda>a. Ty a KPtr inner 0 [] None None [])"

definition make_mut_ptr :: "type_ptr \<Rightarrow> arena \<Rightarrow> type_ptr \<times> arena" where
  "make_mut_ptr inner = alloc (\<lambda>a. Ty a KMutPtr inner 0 [] None None [])"

definition make_mmio_view :: "type_ptr \<Rightarrow> arena \<Rightarrow> type_ptr \<times> arena" where
  "make_mmio_view inner = alloc (\<lambda>a. Ty a KMmioView inner 0 [] None None [])"

definition make_mmio_region :: "type_ptr \<Rightarrow> arena \<Rightarrow> type_ptr \<times> arena" where
  "make_mmio_region inner = alloc (\<lambda>a. Ty a KMmioRegion inner 0 [] None None [])"

definition make_mmio_wire_view :: "type_ptr \<Rightarrow> arena \<Rightarrow> type_ptr \<times> arena" where
  "make_mmio_wire_view inner = alloc (\<lambda>a. Ty a KMmioWireView inner 0 [] None None [])"

definition make_interrupt_handler :: "type_ptr \<Rightarrow> arena \<Rightarrow> type_ptr \<times> arena" where
  "make_interrupt_handler inner = alloc (\<lambda>a. Ty a KInterruptHandler inner 0 [] None None [])"

definition make_padded :: "type_ptr \<Rightarrow> arena \<Rightarrow> type_ptr \<times> arena" where
  "make_padded inner = alloc (\<lambda>a. Ty a KPadded inner 0 [] None None [])"

definition make_sysreg_handle :: "type_ptr \<Rightarrow> arena \<Rightarrow> type_ptr \<times> arena" where
  "make_sysreg_handle inner = alloc (\<lambda>a. Ty a KSysregHandle inner 0 [] None None [])"

definition make_sysreg_handle_ro :: "type_ptr \<Rightarrow> arena \<Rightarrow> type_ptr \<times> arena" where
  "make_sysreg_handle_ro inner = alloc (\<lambda>a. Ty a KSysregHandleRO inner 0 [] None None [])"

definition make_sysreg_handle_wo :: "type_ptr \<Rightarrow> arena \<Rightarrow> type_ptr \<times> arena" where
  "make_sysreg_handle_wo inner = alloc (\<lambda>a. Ty a KSysregHandleWO inner 0 [] None None [])"

definition make_per_cpu :: "type_ptr \<Rightarrow> arena \<Rightarrow> type_ptr \<times> arena" where
  "make_per_cpu inner = alloc (\<lambda>a. Ty a KPerCpu inner 0 [] None None [])"

definition make_zip_iter :: "type_ptr \<Rightarrow> type_ptr \<Rightarrow> arena \<Rightarrow> type_ptr \<times> arena" where
  "make_zip_iter elem_a elem_b = alloc (\<lambda>a. Ty a KZipIter None 0 [elem_a, elem_b] None None [])"

definition make_take_iter :: "type_ptr \<Rightarrow> arena \<Rightarrow> type_ptr \<times> arena" where
  "make_take_iter elem = alloc (\<lambda>a. Ty a KTakeIter elem 0 [] None None [])"

definition make_map_iter :: "type_ptr \<Rightarrow> type_ptr \<Rightarrow> arena \<Rightarrow> type_ptr \<times> arena" where
  "make_map_iter elem_in elem_out = alloc (\<lambda>a. Ty a KMapIter None 0 [elem_in, elem_out] None None [])"

definition make_filter_iter :: "type_ptr \<Rightarrow> arena \<Rightarrow> type_ptr \<times> arena" where
  "make_filter_iter elem = alloc (\<lambda>a. Ty a KFilterIter elem 0 [] None None [])"

definition make_chunk_iter :: "type_ptr \<Rightarrow> arena \<Rightarrow> type_ptr \<times> arena" where
  "make_chunk_iter elem = alloc (\<lambda>a. Ty a KChunkIter elem 0 [] None None [])"

definition make_atomic :: "type_ptr \<Rightarrow> arena \<Rightarrow> type_ptr \<times> arena" where
  "make_atomic inner = alloc (\<lambda>a. Ty a KAtomic inner 0 [] None None [])"

definition make_cas_result :: "type_ptr \<Rightarrow> arena \<Rightarrow> type_ptr \<times> arena" where
  "make_cas_result inner = alloc (\<lambda>a. Ty a KCasResult inner 0 [] None None [])"

definition make_atomic_tagged_pointer :: "type_ptr \<Rightarrow> arena \<Rightarrow> type_ptr \<times> arena" where
  "make_atomic_tagged_pointer inner = alloc (\<lambda>a. Ty a KAtomicTaggedPointer inner 0 [] None None [])"

definition make_result :: "type_ptr \<Rightarrow> type_ptr \<Rightarrow> arena \<Rightarrow> type_ptr \<times> arena" where
  "make_result success err = alloc (\<lambda>a. Ty a KResult success 0 [] err None [])"

definition make_vector :: "int \<Rightarrow> type_ptr \<Rightarrow> arena \<Rightarrow> type_ptr \<times> arena" where
  "make_vector len element = alloc (\<lambda>a. Ty a KVector element len [] None None [])"

definition make_vector_symbolic :: "string \<Rightarrow> type_ptr \<Rightarrow> arena \<Rightarrow> type_ptr \<times> arena" where
  "make_vector_symbolic length_name element = alloc (\<lambda>a. Ty a KVector element 0 [] None None length_name)"

definition make_const_value :: "int \<Rightarrow> arena \<Rightarrow> type_ptr \<times> arena" where
  "make_const_value value = alloc (\<lambda>a. Ty a KConstValue None value [] None None [])"

definition make_function :: "type_ptr list \<Rightarrow> type_ptr \<Rightarrow> arena \<Rightarrow> type_ptr \<times> arena" where
  "make_function params result = alloc (\<lambda>a. Ty a KFunction None 0 params result None [])"

definition make_tuple :: "type_ptr list \<Rightarrow> arena \<Rightarrow> type_ptr \<times> arena" where
  "make_tuple elements = alloc (\<lambda>a. Ty a KTuple None 0 elements None None [])"

definition make_nominal :: "type_kind \<Rightarrow> decl_ref option \<Rightarrow> arena \<Rightarrow> type_ptr \<times> arena" where
  "make_nominal k decl = alloc (\<lambda>a. Ty a k None 0 [] None decl [])"

definition make_struct_instance :: "decl_ref option \<Rightarrow> type_ptr list \<Rightarrow> arena \<Rightarrow> type_ptr \<times> arena" where
  "make_struct_instance decl args = alloc (\<lambda>a. Ty a KStruct None 0 args None decl [])"

definition make_enum_instance :: "decl_ref option \<Rightarrow> type_ptr list \<Rightarrow> arena \<Rightarrow> type_ptr \<times> arena" where
  "make_enum_instance decl args = alloc (\<lambda>a. Ty a KEnum None 0 args None decl [])"

definition make_generic_param :: "string \<Rightarrow> arena \<Rightarrow> type_ptr \<times> arena" where
  "make_generic_param name = alloc (\<lambda>a. Ty a KGenericParam None 0 [] None None name)"

definition primitive_names :: "(string \<times> type_kind) list" where
  "primitive_names =
     [(''Int8'', KInt8), (''Int16'', KInt16), (''Int32'', KInt32), (''Int64'', KInt64),
      (''Int'', KInt), (''UInt8'', KUInt8), (''UInt16'', KUInt16), (''UInt32'', KUInt32),
      (''UInt64'', KUInt64), (''UInt'', KUInt), (''Int128'', KInt128),
      (''UInt128'', KUInt128), (''Float32'', KFloat32), (''Float64'', KFloat64),
      (''Bool'', KBool), (''Char'', KChar), (''Unit'', KUnit), (''String'', KString),
      (''Str'', KStr), (''StrConst'', KStrConst), (''Duration'', KDuration),
      (''Expr'', KAstExpr), (''Decl'', KAstDecl), (''Never'', KNever)]"

definition primitive_kind_by_name :: "string \<Rightarrow> type_kind" where
  "primitive_kind_by_name name = (case map_of primitive_names name of Some k \<Rightarrow> k | None \<Rightarrow> KError)"

section \<open>Equality\<close>

text \<open>The kinds whose equality is that of their element, and those compared by two parts.\<close>

definition wraps_inner :: "type_kind \<Rightarrow> bool" where
  "wraps_inner k \<longleftrightarrow> k \<in>
     {KOptional, KBox, KFuture, KChannel, KVec, KSoa, KSpan, KMutSpan, KPtr, KMutPtr,
      KMmioView, KMmioRegion, KMmioWireView, KPerCpu, KInterruptHandler, KPadded,
      KSysregHandle, KSysregHandleRO, KSysregHandleWO, KTakeIter, KFilterIter, KChunkIter,
      KAtomic, KCasResult, KAtomicTaggedPointer}"

definition pairs_parts :: "type_kind \<Rightarrow> bool" where
  "pairs_parts k \<longleftrightarrow> k \<in>
     {KZipIter, KMapIter, KHashMap}"

fun ty_equal :: "type_ptr \<Rightarrow> type_ptr \<Rightarrow> bool"
  and ty_equal_all :: "type_ptr list \<Rightarrow> type_ptr list \<Rightarrow> bool"
where
  "ty_equal None b = (b = None)"
| "ty_equal (Some x) None = False"
| "ty_equal (Some (Ty a k i n ps r d nm)) (Some (Ty a' k' i' n' ps' r' d' nm')) =
     (if a = a' then True
      else if k \<noteq> k' then False
      else if wraps_inner k then ty_equal i i'
      else if pairs_parts k then length ps = length ps' \<and> length ps = 2 \<and> ty_equal_all ps ps'
      else if k = KResult then ty_equal i i' \<and> ty_equal r r'
      else if k = KVector then
        (if nm \<noteq> [] \<or> nm' \<noteq> [] then nm = nm' \<and> ty_equal i i' else n = n' \<and> ty_equal i i')
      else if k = KConstValue then n = n'
      else if k = KFunction then
        (if \<not> ty_equal r r' then False else length ps = length ps' \<and> ty_equal_all ps ps')
      else if k = KTuple then length ps = length ps' \<and> ty_equal_all ps ps'
      else if k = KStruct \<or> k = KEnum then
        (if map_option decl_addr d \<noteq> map_option decl_addr d' then False
         else length ps = length ps' \<and> ty_equal_all ps ps')
      else if k = KProtocol \<or> k = KOpaqueType then map_option decl_addr d = map_option decl_addr d'
      else if k = KGenericParam then nm = nm'
      else True)"
| "ty_equal_all [] qs = True"
| "ty_equal_all (p # ps) [] = True"
| "ty_equal_all (p # ps) (q # qs) = (ty_equal p q \<and> ty_equal_all ps qs)"

section \<open>Assignability\<close>

definition natural_width :: "type_kind \<Rightarrow> bool" where
  "natural_width k \<longleftrightarrow> k = KInt \<or> k = KUInt"

definition signed_kind :: "type_kind \<Rightarrow> bool" where
  "signed_kind k \<longleftrightarrow> k \<in> {KInt, KInt8, KInt16, KInt32, KInt64, KInt128}"

definition is_strish :: "type_kind \<Rightarrow> bool" where
  "is_strish k \<longleftrightarrow> k = KStrConst \<or> k = KStr \<or> k = KString"

definition string_rank :: "type_kind \<Rightarrow> int" where
  "string_rank k = (case k of KStrConst \<Rightarrow> 0 | KStr \<Rightarrow> 1 | KString \<Rightarrow> 2 | _ \<Rightarrow> - 1)"

text \<open>The conversions that do not look at the element of the target.\<close>

definition converts_integer :: "type_kind \<Rightarrow> type_kind \<Rightarrow> bool" where
  "converts_integer f t \<longleftrightarrow>
     is_integer f \<and> is_integer t \<and> (natural_width f \<or> natural_width t) \<and> signed_kind f = signed_kind t"

definition converts_view :: "ty \<Rightarrow> ty \<Rightarrow> bool" where
  "converts_view f t \<longleftrightarrow>
     (ty_kind t = KSpan \<and> (ty_kind f = KVector \<or> ty_kind f = KMutSpan) \<and> ty_equal (ty_inner f) (ty_inner t))
     \<or> (ty_kind t = KMutSpan \<and> ty_kind f = KVector \<and> ty_equal (ty_inner f) (ty_inner t))"

definition converts_handler :: "ty \<Rightarrow> ty \<Rightarrow> bool" where
  "converts_handler f t \<longleftrightarrow>
     ty_kind t = KInterruptHandler \<and> ty_inner t \<noteq> None \<and> ty_kind f = KFunction
     \<and> length (ty_parts f) = 1 \<and> map_option ty_kind (ty_result f) = Some KUnit
     \<and> ty_equal (ty_parts f ! 0) (ty_inner t)"

definition converts_string :: "type_kind \<Rightarrow> type_kind \<Rightarrow> bool" where
  "converts_string f t \<longleftrightarrow> is_strish f \<and> is_strish t \<and> string_rank f \<le> string_rank t"

fun assignable :: "type_ptr \<Rightarrow> type_ptr \<Rightarrow> bool" where
  "assignable None to = True"
| "assignable (Some f) None = True"
| "assignable (Some f) (Some (Ty a k i n ps r d nm)) =
     (let t = Ty a k i n ps r d nm in
      if ty_kind f = KError \<or> k = KError then True
      else if ty_kind f = KNever then True
      else if converts_integer (ty_kind f) k then True
      else if k = KOptional \<and> ty_kind f = KOptional \<and> map_option ty_kind (ty_inner f) = Some KNever then True
      else if k = KOptional \<and> ty_kind f \<noteq> KOptional \<and> assignable (Some f) i then True
      else if converts_view f t then True
      else if k = KAtomic \<and> i \<noteq> None \<and> assignable (Some f) i then True
      else if converts_handler f t then True
      else if converts_string (ty_kind f) k then True
      else ty_equal (Some f) (Some t))"

section \<open>Substitution\<close>

type_synonym bindings = "(string \<times> type_ptr) list"

text \<open>The call of the \<^verbatim>\<open>make_\<close> function of a kind that wraps one type.\<close>

definition make_wrapper :: "type_kind \<Rightarrow> type_ptr \<Rightarrow> arena \<Rightarrow> type_ptr \<times> arena" where
  "make_wrapper k inner =
     (case k of
        KOptional \<Rightarrow> make_optional inner
      | KBox \<Rightarrow> make_box inner
      | KFuture \<Rightarrow> make_future inner
      | KChannel \<Rightarrow> make_channel inner
      | KVec \<Rightarrow> make_vec inner
      | KSoa \<Rightarrow> make_soa inner
      | KSpan \<Rightarrow> make_span inner
      | KMutSpan \<Rightarrow> make_mut_span inner
      | KPtr \<Rightarrow> make_ptr inner
      | KMutPtr \<Rightarrow> make_mut_ptr inner
      | KMmioView \<Rightarrow> make_mmio_view inner
      | KMmioRegion \<Rightarrow> make_mmio_region inner
      | KMmioWireView \<Rightarrow> make_mmio_wire_view inner
      | KPerCpu \<Rightarrow> make_per_cpu inner
      | KInterruptHandler \<Rightarrow> make_interrupt_handler inner
      | KPadded \<Rightarrow> make_padded inner
      | KSysregHandle \<Rightarrow> make_sysreg_handle inner
      | KSysregHandleRO \<Rightarrow> make_sysreg_handle_ro inner
      | KSysregHandleWO \<Rightarrow> make_sysreg_handle_wo inner
      | KTakeIter \<Rightarrow> make_take_iter inner
      | KFilterIter \<Rightarrow> make_filter_iter inner
      | KChunkIter \<Rightarrow> make_chunk_iter inner
      | KAtomic \<Rightarrow> make_atomic inner
      | KCasResult \<Rightarrow> make_cas_result inner
      | KAtomicTaggedPointer \<Rightarrow> make_atomic_tagged_pointer inner
      | _ \<Rightarrow> (\<lambda>A. (None, A)))"

definition make_pair :: "type_kind \<Rightarrow> type_ptr \<Rightarrow> type_ptr \<Rightarrow> arena \<Rightarrow> type_ptr \<times> arena" where
  "make_pair k a b =
     (case k of KHashMap \<Rightarrow> make_hashmap a b | KZipIter \<Rightarrow> make_zip_iter a b | KMapIter \<Rightarrow> make_map_iter a b
      | _ \<Rightarrow> (\<lambda>A. (None, A)))"

text \<open>The length a symbolic vector length is bound to, when it is bound to a constant.\<close>

definition bound_length :: "bindings \<Rightarrow> string \<Rightarrow> int option" where
  "bound_length bs nm =
     (case map_of bs nm of
        Some (Some c) \<Rightarrow> if ty_kind c = KConstValue then Some (ty_length c) else None
      | _ \<Rightarrow> None)"

text \<open>
  \<^verbatim>\<open>substitute\<close>: rebuilds a node only when a child came back as another pointer. The second
  function is its loop over the parts.
\<close>

fun substitute :: "bindings \<Rightarrow> type_ptr \<Rightarrow> arena \<Rightarrow> type_ptr \<times> arena"
  and substitute_all :: "bindings \<Rightarrow> type_ptr list \<Rightarrow> arena \<Rightarrow> type_ptr list \<times> arena"
where
  "substitute bs None A = (None, A)"
| "substitute bs (Some (Ty a k i n ps r d nm)) A =
     (let t = Some (Ty a k i n ps r d nm) in
      if bs = [] then (t, A)
      else if k = KGenericParam then (case map_of bs nm of None \<Rightarrow> (t, A) | Some p \<Rightarrow> (p, A))
      else if wraps_inner k then
        (case substitute bs i A of (i', A1) \<Rightarrow> if same_ptr i' i then (t, A1) else make_wrapper k i' A1)
      else if pairs_parts k then
        (if length ps \<noteq> 2 then (t, A)
         else case substitute_all bs ps A of
                (qs, A1) \<Rightarrow>
                  if same_ptr (qs ! 0) (ps ! 0) \<and> same_ptr (qs ! 1) (ps ! 1) then (t, A1)
                  else make_pair k (qs ! 0) (qs ! 1) A1)
      else if k = KResult then
        (case substitute bs i A of
           (i', A1) \<Rightarrow> case substitute bs r A1 of
             (r', A2) \<Rightarrow> if same_ptr i' i \<and> same_ptr r' r then (t, A2) else make_result i' r' A2)
      else if k = KVector then
        (case substitute bs i A of
           (i', A1) \<Rightarrow>
             if nm \<noteq> [] then
               (case bound_length bs nm of
                  Some len \<Rightarrow> make_vector len i' A1
                | None \<Rightarrow> if same_ptr i' i then (t, A1) else make_vector_symbolic nm i' A1)
             else if same_ptr i' i then (t, A1) else make_vector n i' A1)
      else if k = KTuple then
        (case substitute_all bs ps A of
           (qs, A1) \<Rightarrow> if list_all2 same_ptr qs ps then (t, A1) else make_tuple qs A1)
      else if k = KFunction then
        (case substitute_all bs ps A of
           (qs, A1) \<Rightarrow> case substitute bs r A1 of
             (r', A2) \<Rightarrow>
               if list_all2 same_ptr qs ps \<and> same_ptr r' r then (t, A2) else make_function qs r' A2)
      else if k = KStruct then
        (if ps = [] then (t, A)
         else case substitute_all bs ps A of
                (qs, A1) \<Rightarrow> if list_all2 same_ptr qs ps then (t, A1) else make_struct_instance d qs A1)
      else if k = KEnum then
        (if ps = [] then (t, A)
         else case substitute_all bs ps A of
                (qs, A1) \<Rightarrow> if list_all2 same_ptr qs ps then (t, A1) else make_enum_instance d qs A1)
      else (t, A))"
| "substitute_all bs [] A = ([], A)"
| "substitute_all bs (p # ps) A =
     (case substitute bs p A of
        (q, A1) \<Rightarrow> case substitute_all bs ps A1 of (qs, A2) \<Rightarrow> (q # qs, A2))"

end
