(* ===== verification/Types_Props.thy ===== *)
theory Types_Props
  imports Types
begin

text \<open>
  What the type arena promises: every node it owns has the address of its position, the shape
  its kind calls for and children that were allocated before it. For such an arena,
  \<open>ty_equal\<close> is structural equality, \<open>substitute\<close> computes the substitution of the generic
  parameters and shares the parts it does not change, and assignability of the
  primitive types is the table the comments describe.
\<close>

section \<open>The invariant of the arena\<close>

definition no_children :: "ty \<Rightarrow> bool" where
  "no_children t \<longleftrightarrow> ty_inner t = None \<and> ty_parts t = [] \<and> ty_result t = None"

text \<open>The fields a node of a kind uses; the others keep the values of the constructor.\<close>

definition shape_ok :: "ty \<Rightarrow> bool" where
  "shape_ok t =
     (let k = ty_kind t; i = ty_inner t; n = ty_length t; ps = ty_parts t; r = ty_result t;
          d = ty_decl t; nm = ty_name t in
      if wraps_inner k then n = 0 \<and> ps = [] \<and> r = None \<and> d = None \<and> nm = []
      else if pairs_parts k then i = None \<and> n = 0 \<and> length ps = 2 \<and> r = None \<and> d = None \<and> nm = []
      else if k = KResult then n = 0 \<and> ps = [] \<and> d = None \<and> nm = []
      else if k = KVector then ps = [] \<and> r = None \<and> d = None \<and> (nm = [] \<or> n = 0)
      else if k = KConstValue then no_children t \<and> d = None \<and> nm = []
      else if k = KFunction then i = None \<and> n = 0 \<and> d = None \<and> nm = []
      else if k = KTuple then i = None \<and> n = 0 \<and> r = None \<and> d = None \<and> nm = []
      else if k = KStruct \<or> k = KEnum then i = None \<and> n = 0 \<and> r = None \<and> nm = []
      else if k = KProtocol \<or> k = KOpaqueType then no_children t \<and> n = 0 \<and> nm = []
      else if k = KGenericParam then no_children t \<and> n = 0 \<and> d = None
      else no_children t \<and> n = 0 \<and> d = None \<and> nm = [])"

definition children :: "ty \<Rightarrow> ty set" where
  "children t = set_option (ty_inner t) \<union> (\<Union>p \<in> set (ty_parts t). set_option p) \<union> set_option (ty_result t)"

definition arena_ok :: "arena \<Rightarrow> bool" where
  "arena_ok A \<longleftrightarrow> (\<forall>j < length (owned A). ty_addr (owned A ! j) = j \<and> shape_ok (owned A ! j)
     \<and> children (owned A ! j) \<subseteq> set (take j (owned A)))"

definition in_arena :: "arena \<Rightarrow> type_ptr \<Rightarrow> bool" where
  "in_arena A p \<longleftrightarrow> set_option p \<subseteq> set (owned A)"

definition extends :: "arena \<Rightarrow> arena \<Rightarrow> bool" where
  "extends A B \<longleftrightarrow> (\<exists>ts. owned B = owned A @ ts) \<and> primitives B = primitives A"

text \<open>A type without the addresses of its nodes; of a declaration only the address counts.\<close>

definition erase_decl :: "decl_ref \<Rightarrow> decl_ref" where
  "erase_decl d = d\<lparr>decl_kind := NominalOther, decl_name := []\<rparr>"

primrec erase :: "ty \<Rightarrow> ty" where
  "erase (Ty a k i n ps r d nm) =
     Ty 0 k (map_option erase i) n (map (map_option erase) ps) (map_option erase r) (map_option erase_decl d) nm"

abbreviation erase_ptr :: "type_ptr \<Rightarrow> type_ptr" where
  "erase_ptr p \<equiv> map_option erase p"

lemma in_arena_simps [simp]: "in_arena A None" "in_arena A (Some t) \<longleftrightarrow> t \<in> set (owned A)"
  by (simp_all add: in_arena_def)

lemma extends_refl [simp]: "extends A A"
  by (simp add: extends_def)

lemma extends_trans [trans]: "extends A B \<Longrightarrow> extends B C \<Longrightarrow> extends A C"
  by (auto simp: extends_def)

lemma in_arena_extends: "in_arena A p \<Longrightarrow> extends A B \<Longrightarrow> in_arena B p"
  by (auto simp: in_arena_def extends_def)

lemma arena_children:
  assumes "arena_ok A" "Ty a k i n ps r d nm \<in> set (owned A)"
  shows "in_arena A i" "in_arena A r" "\<forall>p \<in> set ps. in_arena A p" "shape_ok (Ty a k i n ps r d nm)"
proof -
  from assms(2) obtain j where j: "j < length (owned A)" "owned A ! j = Ty a k i n ps r d nm"
    by (auto simp: in_set_conv_nth)
  from assms(1) j(1) have "shape_ok (owned A ! j) \<and> children (owned A ! j) \<subseteq> set (take j (owned A))"
    unfolding arena_ok_def by blast
  then have c: "children (Ty a k i n ps r d nm) \<subseteq> set (take j (owned A))" "shape_ok (Ty a k i n ps r d nm)"
    unfolding j(2) by blast+
  with set_take_subset [of j "owned A"] show "in_arena A i" "in_arena A r" "\<forall>p \<in> set ps. in_arena A p"
    by (auto simp: in_arena_def children_def)
  show "shape_ok (Ty a k i n ps r d nm)" by (rule c(2))
qed

lemma arena_same_addr:
  assumes "arena_ok A" "t \<in> set (owned A)" "u \<in> set (owned A)" "ty_addr t = ty_addr u"
  shows "t = u"
  using assms by (auto simp: in_set_conv_nth arena_ok_def)

lemma arena_same_ptr: "arena_ok A \<Longrightarrow> in_arena A p \<Longrightarrow> in_arena A q \<Longrightarrow> same_ptr p q \<Longrightarrow> p = q"
  by (cases p; cases q) (auto simp: same_ptr_def dest: arena_same_addr)

lemma same_ptr_refl [simp]: "same_ptr p p"
  by (simp add: same_ptr_def)

section \<open>Allocation\<close>

text \<open>The result of an operation of the arena: \<open>q\<close> in the arena \<open>B\<close>, standing for the tree \<open>e\<close>.\<close>

definition yields :: "arena \<Rightarrow> type_ptr \<times> arena \<Rightarrow> type_ptr \<Rightarrow> bool" where
  "yields A qB e \<longleftrightarrow> arena_ok (snd qB) \<and> extends A (snd qB) \<and> in_arena (snd qB) (fst qB) \<and> erase_ptr (fst qB) = e"

lemma yields_alloc:
  assumes "arena_ok A" "\<And>a. ty_addr (mk a) = a" "shape_ok (mk (length (owned A)))"
    and "children (mk (length (owned A))) \<subseteq> set (owned A)" "erase (mk (length (owned A))) = e"
  shows "yields A (alloc mk A) (Some e)"
proof -
  have "arena_ok (A\<lparr>owned := owned A @ [mk (length (owned A))]\<rparr>)"
    using assms(1-4) by (auto simp: arena_ok_def nth_append less_Suc_eq)
  then show ?thesis using assms(5) by (auto simp: yields_def alloc_def extends_def Let_def)
qed

lemma yields_self: "arena_ok A \<Longrightarrow> in_arena A p \<Longrightarrow> yields A (p, A) (erase_ptr p)"
  by (simp add: yields_def)

lemma yields_trans: "extends A B \<Longrightarrow> yields B qC e \<Longrightarrow> yields A qC e"
  by (auto simp: yields_def intro: extends_trans)

lemma set_option_in_arena: "in_arena A p \<Longrightarrow> x \<in> set_option p \<Longrightarrow> x \<in> set (owned A)"
  by (auto simp: in_arena_def)

lemma yields_node:
  assumes "arena_ok A" "in_arena A i" "in_arena A r" "\<forall>p \<in> set ps. in_arena A p"
    and "\<And>a. shape_ok (Ty a k i n ps r d nm)"
  shows "yields A (alloc (\<lambda>a. Ty a k i n ps r d nm) A)
     (Some (Ty 0 k (erase_ptr i) n (map erase_ptr ps) (erase_ptr r) (map_option erase_decl d) nm))"
  using assms by (intro yields_alloc) (auto simp: children_def in_arena_def)


section \<open>Equality is structural\<close>

lemma erase_decl_inject: "erase_decl a = erase_decl b \<longleftrightarrow> decl_addr a = decl_addr b"
  by (cases a; cases b) (simp add: erase_decl_def)

lemma erase_decl_eq: "map_option erase_decl d = map_option erase_decl d' \<longleftrightarrow> map_option decl_addr d = map_option decl_addr d'"
  by (cases d; cases d') (auto simp: erase_decl_inject)

lemma ty_equal_all_conv: "length ps = length qs \<Longrightarrow> ty_equal_all ps qs \<longleftrightarrow> list_all2 ty_equal ps qs"
  by (induction ps qs rule: list_induct2) simp_all

lemma ty_equal_erase_node:
  assumes "arena_ok A"
  shows "t \<in> set (owned A) \<Longrightarrow> u \<in> set (owned A) \<Longrightarrow> ty_equal (Some t) (Some u) \<longleftrightarrow> erase t = erase u"
proof (induction t arbitrary: u)
  case (Ty a k i n ps r d nm)
  obtain a' k' i' n' ps' r' d' nm' where u: "u = Ty a' k' i' n' ps' r' d' nm'" by (cases u)
  note c = arena_children [OF assms Ty.prems(1)] arena_children [OF assms Ty.prems(2) [unfolded u]]
  have step: "ty_equal p q \<longleftrightarrow> erase_ptr p = erase_ptr q"
    if "\<And>x u. x \<in> set_option p \<Longrightarrow> x \<in> set (owned A) \<Longrightarrow> u \<in> set (owned A) \<Longrightarrow>
          ty_equal (Some x) (Some u) \<longleftrightarrow> erase x = erase u" "in_arena A p" "in_arena A q" for p q
    using that by (cases p; cases q) auto
  have i: "ty_equal i i' \<longleftrightarrow> erase_ptr i = erase_ptr i'" by (rule step) (use Ty.IH(1) c in auto)
  have r: "ty_equal r r' \<longleftrightarrow> erase_ptr r = erase_ptr r'" by (rule step) (use Ty.IH(3) c in auto)
  have ps: "ty_equal_all ps ps' \<longleftrightarrow> map erase_ptr ps = map erase_ptr ps'" if "length ps = length ps'"
  proof -
    have "list_all2 ty_equal ps ps' \<longleftrightarrow> list_all2 (\<lambda>p q. erase_ptr p = erase_ptr q) ps ps'"
    proof (rule list.rel_cong [OF refl refl])
      fix p q assume "p \<in> set ps" "q \<in> set ps'"
      then show "ty_equal p q \<longleftrightarrow> erase_ptr p = erase_ptr q"
        by (intro step) (use Ty.IH(2) c in auto)
    qed
    then show ?thesis
      using that by (simp add: ty_equal_all_conv list_all2_conv_all_nth list_eq_iff_nth_eq)
  qed
  show ?case
  proof (cases "a = a'")
    case True
    then show ?thesis using arena_same_addr [OF assms Ty.prems] u by simp
  next
    case addr: False
    show ?thesis
    proof (cases "k = k'")
      case kind: True
      note sh = c(4,8) [unfolded kind shape_ok_def Let_def no_children_def, simplified]
      have len: "map erase_ptr ps = map erase_ptr ps' \<Longrightarrow> length ps = length ps'"
        by (rule map_eq_imp_length_eq)
      show ?thesis
        using sh i r ps len addr kind erase_decl_eq [of d d'] unfolding u
        by (auto split: if_splits)
    qed (use addr u in simp)
  qed
qed

lemma ty_equal_erase:
  "arena_ok A \<Longrightarrow> in_arena A p \<Longrightarrow> in_arena A q \<Longrightarrow> ty_equal p q \<longleftrightarrow> erase_ptr p = erase_ptr q"
  using ty_equal_erase_node by (cases p; cases q) auto

section \<open>The constructors\<close>

text \<open>The interface of a constructor of one type: it allocates a node that wraps its argument.\<close>

locale wrapper_constructor =
  fixes mk :: "type_ptr \<Rightarrow> arena \<Rightarrow> type_ptr \<times> arena" and k :: type_kind
  assumes wraps: "wraps_inner k"
    and allocates: "mk p A = alloc (\<lambda>a. Ty a k p 0 [] None None []) A"
begin

lemma makes:
  "arena_ok A \<Longrightarrow> in_arena A p \<Longrightarrow> yields A (mk p A) (Some (Ty 0 k (erase_ptr p) 0 [] None None []))"
  using yields_node [of A p None "[]" k 0 None "[]"] wraps by (simp add: allocates shape_ok_def)

lemma fresh: "arena_ok A \<Longrightarrow> t \<in> set (owned A) \<Longrightarrow> \<not> same_ptr (fst (mk p A)) (Some t)"
  by (auto simp: allocates alloc_def Let_def same_ptr_def arena_ok_def in_set_conv_nth)

lemma equal_iff:
  assumes "arena_ok A" "in_arena A p" "in_arena A q"
  shows "let (t, B) = mk p A; (u, C) = mk q B in ty_equal t u = ty_equal p q"
proof -
  obtain t B where B: "mk p A = (t, B)" by fastforce
  with makes [OF assms(1,2)] have b: "arena_ok B" "extends A B" "in_arena B t"
    "erase_ptr t = Some (Ty 0 k (erase_ptr p) 0 [] None None [])" by (auto simp: yields_def)
  have q: "in_arena B q" by (rule in_arena_extends [OF assms(3) b(2)])
  obtain u C where C: "mk q B = (u, C)" by fastforce
  with makes [OF b(1) q] have c: "arena_ok C" "extends B C" "in_arena C u"
    "erase_ptr u = Some (Ty 0 k (erase_ptr q) 0 [] None None [])" by (auto simp: yields_def)
  have "ty_equal t u \<longleftrightarrow> erase_ptr t = erase_ptr u"
    by (rule ty_equal_erase [OF c(1) in_arena_extends [OF b(3) c(2)] c(3)])
  also have "\<dots> \<longleftrightarrow> ty_equal p q"
    using ty_equal_erase [OF assms] b(4) c(4) by auto
  finally show ?thesis by (simp add: B C)
qed

end

interpretation optional_type: wrapper_constructor make_optional KOptional
  by unfold_locales (simp_all add: wraps_inner_def make_optional_def)

interpretation box_type: wrapper_constructor make_box KBox
  by unfold_locales (simp_all add: wraps_inner_def make_box_def)

interpretation future_type: wrapper_constructor make_future KFuture
  by unfold_locales (simp_all add: wraps_inner_def make_future_def)

interpretation channel_type: wrapper_constructor make_channel KChannel
  by unfold_locales (simp_all add: wraps_inner_def make_channel_def)

interpretation vec_type: wrapper_constructor make_vec KVec
  by unfold_locales (simp_all add: wraps_inner_def make_vec_def)

interpretation soa_type: wrapper_constructor make_soa KSoa
  by unfold_locales (simp_all add: wraps_inner_def make_soa_def)

interpretation span_type: wrapper_constructor make_span KSpan
  by unfold_locales (simp_all add: wraps_inner_def make_span_def)

interpretation mut_span_type: wrapper_constructor make_mut_span KMutSpan
  by unfold_locales (simp_all add: wraps_inner_def make_mut_span_def)

interpretation ptr_type: wrapper_constructor make_ptr KPtr
  by unfold_locales (simp_all add: wraps_inner_def make_ptr_def)

interpretation mut_ptr_type: wrapper_constructor make_mut_ptr KMutPtr
  by unfold_locales (simp_all add: wraps_inner_def make_mut_ptr_def)

interpretation mmio_view_type: wrapper_constructor make_mmio_view KMmioView
  by unfold_locales (simp_all add: wraps_inner_def make_mmio_view_def)

interpretation mmio_region_type: wrapper_constructor make_mmio_region KMmioRegion
  by unfold_locales (simp_all add: wraps_inner_def make_mmio_region_def)

interpretation mmio_wire_view_type: wrapper_constructor make_mmio_wire_view KMmioWireView
  by unfold_locales (simp_all add: wraps_inner_def make_mmio_wire_view_def)

interpretation per_cpu_type: wrapper_constructor make_per_cpu KPerCpu
  by unfold_locales (simp_all add: wraps_inner_def make_per_cpu_def)

interpretation interrupt_handler_type: wrapper_constructor make_interrupt_handler KInterruptHandler
  by unfold_locales (simp_all add: wraps_inner_def make_interrupt_handler_def)

interpretation padded_type: wrapper_constructor make_padded KPadded
  by unfold_locales (simp_all add: wraps_inner_def make_padded_def)

interpretation sysreg_handle_type: wrapper_constructor make_sysreg_handle KSysregHandle
  by unfold_locales (simp_all add: wraps_inner_def make_sysreg_handle_def)

interpretation sysreg_handle_ro_type: wrapper_constructor make_sysreg_handle_ro KSysregHandleRO
  by unfold_locales (simp_all add: wraps_inner_def make_sysreg_handle_ro_def)

interpretation sysreg_handle_wo_type: wrapper_constructor make_sysreg_handle_wo KSysregHandleWO
  by unfold_locales (simp_all add: wraps_inner_def make_sysreg_handle_wo_def)

interpretation take_iter_type: wrapper_constructor make_take_iter KTakeIter
  by unfold_locales (simp_all add: wraps_inner_def make_take_iter_def)

interpretation filter_iter_type: wrapper_constructor make_filter_iter KFilterIter
  by unfold_locales (simp_all add: wraps_inner_def make_filter_iter_def)

interpretation chunk_iter_type: wrapper_constructor make_chunk_iter KChunkIter
  by unfold_locales (simp_all add: wraps_inner_def make_chunk_iter_def)

interpretation atomic_type: wrapper_constructor make_atomic KAtomic
  by unfold_locales (simp_all add: wraps_inner_def make_atomic_def)

interpretation cas_result_type: wrapper_constructor make_cas_result KCasResult
  by unfold_locales (simp_all add: wraps_inner_def make_cas_result_def)

interpretation atomic_tagged_pointer_type: wrapper_constructor make_atomic_tagged_pointer KAtomicTaggedPointer
  by unfold_locales (simp_all add: wraps_inner_def make_atomic_tagged_pointer_def)

lemma makes_wrapper:
  assumes "wraps_inner k" "arena_ok A" "in_arena A p"
  shows "yields A (make_wrapper k p A) (Some (Ty 0 k (erase_ptr p) 0 [] None None []))"
  using assms(1) unfolding wraps_inner_def
  by (elim insertE emptyE; simp add: make_wrapper_def assms(2,3)
    optional_type.makes
    box_type.makes
    future_type.makes
    channel_type.makes
    vec_type.makes
    soa_type.makes
    span_type.makes
    mut_span_type.makes
    ptr_type.makes
    mut_ptr_type.makes
    mmio_view_type.makes
    mmio_region_type.makes
    mmio_wire_view_type.makes
    per_cpu_type.makes
    interrupt_handler_type.makes
    padded_type.makes
    sysreg_handle_type.makes
    sysreg_handle_ro_type.makes
    sysreg_handle_wo_type.makes
    take_iter_type.makes
    filter_iter_type.makes
    chunk_iter_type.makes
    atomic_type.makes
    cas_result_type.makes
    atomic_tagged_pointer_type.makes)

lemma makes_pair:
  assumes "pairs_parts k" "arena_ok A" "in_arena A p" "in_arena A q"
  shows "yields A (make_pair k p q A) (Some (Ty 0 k None 0 [erase_ptr p, erase_ptr q] None None []))"
proof -
  have "\<not> wraps_inner k" using assms(1) by (auto simp: pairs_parts_def wraps_inner_def)
  then have "yields A (alloc (\<lambda>a. Ty a k None 0 [p, q] None None []) A)
      (Some (Ty 0 k None 0 [erase_ptr p, erase_ptr q] None None []))"
    using yields_node [of A None None "[p, q]" k 0 None "[]"] assms by (simp add: shape_ok_def)
  then show ?thesis
    using assms(1) by (auto simp: pairs_parts_def make_pair_def make_hashmap_def make_zip_iter_def make_map_iter_def)
qed

lemma makes_result:
  "arena_ok A \<Longrightarrow> in_arena A p \<Longrightarrow> in_arena A q \<Longrightarrow>
     yields A (make_result p q A) (Some (Ty 0 KResult (erase_ptr p) 0 [] (erase_ptr q) None []))"
  using yields_node [of A p q "[]" KResult 0 None "[]"]
  by (simp add: make_result_def shape_ok_def wraps_inner_def pairs_parts_def)

lemma makes_vector:
  "arena_ok A \<Longrightarrow> in_arena A p \<Longrightarrow>
     yields A (make_vector n p A) (Some (Ty 0 KVector (erase_ptr p) n [] None None []))"
  using yields_node [of A p None "[]" KVector n None "[]"]
  by (simp add: make_vector_def shape_ok_def wraps_inner_def pairs_parts_def)

lemma makes_vector_symbolic:
  "arena_ok A \<Longrightarrow> in_arena A p \<Longrightarrow>
     yields A (make_vector_symbolic nm p A) (Some (Ty 0 KVector (erase_ptr p) 0 [] None None nm))"
  using yields_node [of A p None "[]" KVector 0 None nm]
  by (simp add: make_vector_symbolic_def shape_ok_def wraps_inner_def pairs_parts_def)

lemma makes_const_value:
  "arena_ok A \<Longrightarrow> yields A (make_const_value n A) (Some (Ty 0 KConstValue None n [] None None []))"
  using yields_node [of A None None "[]" KConstValue n None "[]"]
  by (simp add: make_const_value_def shape_ok_def wraps_inner_def pairs_parts_def no_children_def)

lemma makes_function:
  "arena_ok A \<Longrightarrow> \<forall>p \<in> set ps. in_arena A p \<Longrightarrow> in_arena A r \<Longrightarrow>
     yields A (make_function ps r A) (Some (Ty 0 KFunction None 0 (map erase_ptr ps) (erase_ptr r) None []))"
  using yields_node [of A None r ps KFunction 0 None "[]"]
  by (simp add: make_function_def shape_ok_def wraps_inner_def pairs_parts_def)

lemma makes_tuple:
  "arena_ok A \<Longrightarrow> \<forall>p \<in> set ps. in_arena A p \<Longrightarrow>
     yields A (make_tuple ps A) (Some (Ty 0 KTuple None 0 (map erase_ptr ps) None None []))"
  using yields_node [of A None None ps KTuple 0 None "[]"]
  by (simp add: make_tuple_def shape_ok_def wraps_inner_def pairs_parts_def)

lemma makes_struct_instance:
  "arena_ok A \<Longrightarrow> \<forall>p \<in> set ps. in_arena A p \<Longrightarrow>
     yields A (make_struct_instance d ps A)
       (Some (Ty 0 KStruct None 0 (map erase_ptr ps) None (map_option erase_decl d) []))"
  using yields_node [of A None None ps KStruct 0 d "[]"]
  by (simp add: make_struct_instance_def shape_ok_def wraps_inner_def pairs_parts_def)

lemma makes_enum_instance:
  "arena_ok A \<Longrightarrow> \<forall>p \<in> set ps. in_arena A p \<Longrightarrow>
     yields A (make_enum_instance d ps A)
       (Some (Ty 0 KEnum None 0 (map erase_ptr ps) None (map_option erase_decl d) []))"
  using yields_node [of A None None ps KEnum 0 d "[]"]
  by (simp add: make_enum_instance_def shape_ok_def wraps_inner_def pairs_parts_def)

lemma makes_nominal:
  "arena_ok A \<Longrightarrow> k \<in> {KStruct, KEnum, KProtocol, KOpaqueType} \<Longrightarrow>
     yields A (make_nominal k d A) (Some (Ty 0 k None 0 [] None (map_option erase_decl d) []))"
  using yields_node [of A None None "[]" k 0 d "[]"]
  by (auto simp: make_nominal_def shape_ok_def wraps_inner_def pairs_parts_def no_children_def)

lemma makes_generic_param:
  "arena_ok A \<Longrightarrow> yields A (make_generic_param nm A) (Some (Ty 0 KGenericParam None 0 [] None None nm))"
  using yields_node [of A None None "[]" KGenericParam 0 None nm]
  by (simp add: make_generic_param_def shape_ok_def wraps_inner_def pairs_parts_def no_children_def)

section \<open>Substitution\<close>

text \<open>
  The substitution the code implements, on trees without addresses: every generic parameter
  that is bound is replaced, a symbolic length that is bound to a constant becomes that length,
  and every other node keeps its fields around the substituted children.
\<close>

fun subst_tree :: "bindings \<Rightarrow> type_ptr \<Rightarrow> type_ptr"
  and subst_trees :: "bindings \<Rightarrow> type_ptr list \<Rightarrow> type_ptr list"
where
  "subst_tree bs None = None"
| "subst_tree bs (Some (Ty a k i n ps r d nm)) =
     (if k = KGenericParam then
        (case map_of bs nm of None \<Rightarrow> Some (Ty a k i n ps r d nm) | Some p \<Rightarrow> p)
      else if k = KVector \<and> nm \<noteq> [] \<and> bound_length bs nm \<noteq> None
      then Some (Ty a k (subst_tree bs i) (the (bound_length bs nm)) [] None None [])
      else Some (Ty a k (subst_tree bs i) n (subst_trees bs ps) (subst_tree bs r) d nm))"
| "subst_trees bs [] = []"
| "subst_trees bs (p # ps) = subst_tree bs p # subst_trees bs ps"

definition erase_bindings :: "bindings \<Rightarrow> bindings" where
  "erase_bindings bs = map (\<lambda>(x, p). (x, erase_ptr p)) bs"

lemma subst_trees_map: "subst_trees bs ps = map (subst_tree bs) ps"
  by (induction ps) simp_all

lemma map_of_erase_bindings: "map_of (erase_bindings bs) x = map_option erase_ptr (map_of bs x)"
  by (induction bs) (auto simp: erase_bindings_def)

lemma bound_length_erase: "bound_length (erase_bindings bs) x = bound_length bs x"
  by (auto simp: bound_length_def map_of_erase_bindings split: option.split)
     (metis erase.simps ty.collapse ty.sel(2,4))+

lemma subst_tree_Nil: "bs = [] \<Longrightarrow> subst_tree bs p = p" "bs = [] \<Longrightarrow> subst_trees bs ps = ps"
  by (induction bs p and bs ps rule: subst_tree_subst_trees.induct) (simp_all add: bound_length_def)

text \<open>A computation that gives a list of pointers.\<close>

definition yields_all :: "arena \<Rightarrow> type_ptr list \<times> arena \<Rightarrow> type_ptr list \<Rightarrow> bool" where
  "yields_all A qB es \<longleftrightarrow> arena_ok (snd qB) \<and> extends A (snd qB) \<and> (\<forall>q \<in> set (fst qB). in_arena (snd qB) q)
     \<and> map erase_ptr (fst qB) = es"

definition bindings_in :: "arena \<Rightarrow> bindings \<Rightarrow> bool" where
  "bindings_in A bs \<longleftrightarrow> (\<forall>(x, q) \<in> set bs. in_arena A q)"

lemma bindings_in_extends: "bindings_in A bs \<Longrightarrow> extends A B \<Longrightarrow> bindings_in B bs"
  by (auto simp: bindings_in_def intro: in_arena_extends)

lemma yields_kept:
  assumes "yields A (q, B) e" "in_arena A p" "same_ptr q p"
  shows "q = p" "e = erase_ptr p"
proof -
  have "in_arena B p" using assms in_arena_extends by (auto simp: yields_def)
  with assms show q: "q = p" using arena_same_ptr by (auto simp: yields_def)
  with assms show "e = erase_ptr p" by (simp add: yields_def)
qed

lemma yields_all_kept:
  assumes "yields_all A (qs, B) es" "\<forall>p \<in> set ps. in_arena A p" "list_all2 same_ptr qs ps"
  shows "qs = ps" "es = map erase_ptr ps"
proof -
  have "q = p" if "p \<in> set ps" "q \<in> set qs" "same_ptr q p" for p q
    using that assms arena_same_ptr in_arena_extends by (auto simp: yields_all_def)
  then have "list_all2 (=) qs ps" using assms(3) by (blast intro: list.rel_mono_strong)
  then show "qs = ps" by (simp add: list_all2_eq)
  with assms(1) show "es = map erase_ptr ps" by (simp add: yields_all_def)
qed

lemma yields_after: "yields A (q, B) e \<Longrightarrow> yields B qC e' \<Longrightarrow> yields A qC e'"
  by (rule yields_trans [of A B]) (simp_all add: yields_def)

lemma yields_after_all: "yields_all A (qs, B) e \<Longrightarrow> yields B qC e' \<Longrightarrow> yields A qC e'"
  by (rule yields_trans [of A B]) (simp_all add: yields_all_def)

lemma yields_keep: "yields A (q, B) e \<Longrightarrow> in_arena A p \<Longrightarrow> yields A (p, B) (erase_ptr p)"
  by (auto simp: yields_def intro: in_arena_extends)

lemma yields_keep_all: "yields_all A (qs, B) e \<Longrightarrow> in_arena A p \<Longrightarrow> yields A (p, B) (erase_ptr p)"
  by (auto simp: yields_def yields_all_def intro: in_arena_extends)

lemma yields_state: "yields A (q, B) e \<Longrightarrow> arena_ok B \<and> extends A B \<and> in_arena B q \<and> erase_ptr q = e"
  by (simp add: yields_def)

lemma yields_all_state:
  "yields_all A (qs, B) es \<Longrightarrow> arena_ok B \<and> extends A B \<and> (\<forall>q \<in> set qs. in_arena B q) \<and> map erase_ptr qs = es"
  by (simp add: yields_all_def)

lemma substitute_all_yields:
  assumes "\<And>p A. p \<in> set ps \<Longrightarrow> arena_ok A \<Longrightarrow> in_arena A p \<Longrightarrow> bindings_in A bs \<Longrightarrow>
      yields A (substitute bs p A) (f (erase_ptr p))"
  shows "arena_ok A \<Longrightarrow> \<forall>p \<in> set ps. in_arena A p \<Longrightarrow> bindings_in A bs \<Longrightarrow>
      yields_all A (substitute_all bs ps A) (map f (map erase_ptr ps))"
  using assms
proof (induction ps arbitrary: A)
  case Nil
  then show ?case by (simp add: yields_all_def)
next
  case (Cons p ps)
  obtain q A1 where q: "substitute bs p A = (q, A1)" by fastforce
  with Cons.prems have y: "yields A (q, A1) (f (erase_ptr p))" using Cons.prems(4) [of p A] by simp
  note st = yields_state [OF y]
  obtain qs A2 where qs: "substitute_all bs ps A1 = (qs, A2)" by fastforce
  have "yields_all A1 (qs, A2) (map f (map erase_ptr ps))"
    unfolding qs [symmetric]
    by (rule Cons.IH) (use st Cons.prems in \<open>auto intro: in_arena_extends bindings_in_extends\<close>)
  then show ?case
    using st by (auto simp: yields_all_def q qs intro: extends_trans in_arena_extends)
qed

lemma wraps_inner_kinds:
  "wraps_inner k \<Longrightarrow> \<not> pairs_parts k \<and> k \<notin> {KGenericParam, KResult, KVector, KTuple, KFunction, KStruct, KEnum}"
  by (auto simp: wraps_inner_def pairs_parts_def)

lemma pairs_parts_kinds:
  "pairs_parts k \<Longrightarrow> \<not> wraps_inner k \<and> k \<notin> {KGenericParam, KResult, KVector, KTuple, KFunction, KStruct, KEnum}"
  by (auto simp: wraps_inner_def pairs_parts_def)

lemma plain_kinds:
  "\<not> wraps_inner k" "\<not> pairs_parts k"
  if "k \<in> {KGenericParam, KResult, KVector, KTuple, KFunction, KStruct, KEnum}"
  using that wraps_inner_kinds pairs_parts_kinds by blast+

lemma substitute_node:
  assumes "t \<in> set (owned A)" "arena_ok A" "bindings_in A bs" "bs \<noteq> []"
  shows "yields A (substitute bs (Some t) A) (subst_tree (erase_bindings bs) (Some (erase t)))"
  using assms
proof (induction t arbitrary: A)
  case (Ty a k i n ps r d nm)
  let ?t = "Some (Ty a k i n ps r d nm)" and ?f = "subst_tree (erase_bindings bs)"
  have here: "in_arena A ?t" using Ty.prems(1) by simp
  note c = arena_children [OF Ty.prems(2,1)]
  have step: "yields B (substitute bs p B) (?f (erase_ptr p))"
    if "\<And>x A. x \<in> set_option p \<Longrightarrow> x \<in> set (owned A) \<Longrightarrow> arena_ok A \<Longrightarrow> bindings_in A bs \<Longrightarrow> bs \<noteq> [] \<Longrightarrow>
        yields A (substitute bs (Some x) A) (?f (Some (erase x)))" "arena_ok B" "in_arena B p" "bindings_in B bs" for p B
    using that Ty.prems(4) by (cases p) (auto simp: yields_def)
  obtain i' A1 where i': "substitute bs i A = (i', A1)" by fastforce
  have yi: "yields A (i', A1) (?f (erase_ptr i))"
    unfolding i' [symmetric] by (rule step) (use Ty.IH(1) Ty.prems c in auto)
  obtain r' A2 where r': "substitute bs r A1 = (r', A2)" by fastforce
  have yr: "yields A1 (r', A2) (?f (erase_ptr r))"
    unfolding r' [symmetric]
    by (rule step) (use Ty.IH(3) Ty.prems c yields_state [OF yi] in \<open>auto intro: in_arena_extends bindings_in_extends\<close>)
  obtain qs B1 where qs: "substitute_all bs ps A = (qs, B1)" by fastforce
  have yq: "yields_all A (qs, B1) (map ?f (map erase_ptr ps))"
    unfolding qs [symmetric]
  proof (rule substitute_all_yields)
    fix p B assume "p \<in> set ps" "arena_ok B" "in_arena B p" "bindings_in B bs"
    then show "yields B (substitute bs p B) (?f (erase_ptr p))" by (intro step) (use Ty.IH(2) in auto)
  qed (use Ty.prems c in auto)
  have lq: "length qs = length ps" using yields_all_state [OF yq] by (metis length_map)
  obtain s' B2 where s': "substitute bs r B1 = (s', B2)" by fastforce
  have ys: "yields B1 (s', B2) (?f (erase_ptr r))"
    unfolding s' [symmetric]
    by (rule step) (use Ty.IH(3) Ty.prems c yields_all_state [OF yq] in \<open>auto intro: in_arena_extends bindings_in_extends\<close>)
  note sh = c(4) [unfolded shape_ok_def Let_def no_children_def, simplified]
  have unary: "yields A (if same_ptr i' i then (?t, A1) else make A1) e"
    if "yields A1 (make A1) e" "?f (erase_ptr i) = erase_ptr i \<Longrightarrow> e = erase_ptr ?t" for make e
    using that yields_keep [OF yi here] yields_kept [OF yi c(1)] yields_after [OF yi] by auto
  have parts: "yields A (if list_all2 same_ptr qs ps then (?t, B1) else make B1) e"
    if "yields B1 (make B1) e" "map ?f (map erase_ptr ps) = map erase_ptr ps \<Longrightarrow> e = erase_ptr ?t" for make e
    using that yields_keep_all [OF yq here] yields_all_kept [OF yq c(3)] yields_after_all [OF yq] by auto
  note si = yields_state [OF yi] and sr = yields_state [OF yr] and sq = yields_all_state [OF yq] and ss = yields_state [OF ys]
  consider (gen) "k = KGenericParam" | (wrap) "wraps_inner k" | (pair) "pairs_parts k" | (res) "k = KResult"
    | (vec) "k = KVector" | (tup) "k = KTuple" | (func) "k = KFunction" | (str) "k = KStruct" | (enum) "k = KEnum"
    | (other) "\<not> wraps_inner k" "\<not> pairs_parts k" "k \<notin> {KGenericParam, KResult, KVector, KTuple, KFunction, KStruct, KEnum}"
    by blast
  then show ?case
  proof cases
    case gen
    have "yields A (case map_of bs nm of None \<Rightarrow> (?t, A) | Some p \<Rightarrow> (p, A))
        (case map_of (erase_bindings bs) nm of None \<Rightarrow> erase_ptr ?t | Some p \<Rightarrow> p)"
      using Ty.prems here
      by (auto simp: map_of_erase_bindings bindings_in_def yields_def split: option.split dest: map_of_SomeD)
    then show ?thesis using gen Ty.prems(4) plain_kinds [of k] sh by (simp split: option.splits)
  next
    case wrap
    note w = wraps_inner_kinds [OF wrap]
    have "yields A (if same_ptr i' i then (?t, A1) else make_wrapper k i' A1)
        (Some (Ty 0 k (?f (erase_ptr i)) 0 [] None None []))"
      using makes_wrapper [OF wrap, of A1 i'] si sh wrap by (intro unary) auto
    then show ?thesis using w wrap sh Ty.prems(4) by (cases "same_ptr i' i") (simp_all add: i')
  next
    case pair
    note w = pairs_parts_kinds [OF pair]
    from sh w pair obtain p0 p1 where p: "ps = [p0, p1]" by (auto simp: length_Suc_conv numeral_2_eq_2)
    with lq obtain q0 q1 where q: "qs = [q0, q1]" by (auto simp: length_Suc_conv)
    have "yields A (if list_all2 same_ptr qs ps then (?t, B1) else make_pair k q0 q1 B1)
        (Some (Ty 0 k None 0 (map ?f (map erase_ptr ps)) None None []))"
      using makes_pair [OF pair, of B1 q0 q1] sq sh w pair p q by (intro parts) auto
    moreover have "list_all2 same_ptr qs ps \<longleftrightarrow> same_ptr q0 p0 \<and> same_ptr q1 p1" by (simp add: p q)
    ultimately show ?thesis
      using w pair sh Ty.prems(4) p q qs
      by (cases "same_ptr q0 p0 \<and> same_ptr q1 p1") (auto simp: subst_trees_map simp del: substitute_all.simps)
  next
    case res
    have "yields A (if same_ptr i' i \<and> same_ptr r' r then (?t, A2) else make_result i' r' A2)
        (Some (Ty 0 k (?f (erase_ptr i)) 0 [] (?f (erase_ptr r)) None []))"
    proof (cases "same_ptr i' i \<and> same_ptr r' r")
      case True
      have "?f (erase_ptr i) = erase_ptr i" using yields_kept(2) [OF yi c(1)] True by simp
      moreover have "?f (erase_ptr r) = erase_ptr r"
        using yields_kept(2) [OF yr in_arena_extends [OF c(2)]] si True by simp
      moreover have "yields A (?t, A2) (erase_ptr ?t)"
        by (rule yields_after [OF yi yields_keep [OF yr in_arena_extends [OF here]]]) (use si in simp)
      ultimately show ?thesis using True res sh plain_kinds [of k] by simp
    next
      case False
      have "yields A2 (make_result i' r' A2) (Some (Ty 0 k (?f (erase_ptr i)) 0 [] (?f (erase_ptr r)) None []))"
        using makes_result [of A2 i' r'] si sr res in_arena_extends [of A1 i' A2] by simp
      from yields_after [OF yi yields_after [OF yr this]] False show ?thesis by auto
    qed
    then show ?thesis
      using res sh Ty.prems(4) plain_kinds [of k] by (cases "same_ptr i' i \<and> same_ptr r' r") (auto simp: i' r')
  next
    case vec
    have sym: "yields A (if same_ptr i' i then (?t, A1) else make_vector_symbolic nm i' A1)
        (Some (Ty 0 k (?f (erase_ptr i)) n [] None None nm))" if "nm \<noteq> []"
      using makes_vector_symbolic [of A1 i' nm] si sh vec that plain_kinds [of k] by (intro unary) auto
    have con: "yields A (if same_ptr i' i then (?t, A1) else make_vector n i' A1)
        (Some (Ty 0 k (?f (erase_ptr i)) n [] None None nm))" if "nm = []"
      using makes_vector [of A1 i' n] si sh vec that plain_kinds [of k] by (intro unary) auto
    have bound: "yields A (make_vector len i' A1) (Some (Ty 0 k (?f (erase_ptr i)) len [] None None []))" for len
      using yields_after [OF yi makes_vector [of A1 i' len]] si vec by simp
    show ?thesis
      using sym con bound vec sh Ty.prems(4) plain_kinds [of k]
      by (cases "nm = []") (auto simp: i' bound_length_erase split: option.splits)
  next
    case tup
    have "yields A (if list_all2 same_ptr qs ps then (?t, B1) else make_tuple qs B1)
        (Some (Ty 0 k None 0 (map ?f (map erase_ptr ps)) None None []))"
      using makes_tuple [of B1 qs] sq sh tup plain_kinds [of k] by (intro parts) auto
    then show ?thesis
      using tup sh Ty.prems(4) plain_kinds [of k] qs by (cases "list_all2 same_ptr qs ps") (auto simp: subst_trees_map)
  next
    case func
    have "yields A (if list_all2 same_ptr qs ps \<and> same_ptr s' r then (?t, B2) else make_function qs s' B2)
        (Some (Ty 0 k None 0 (map ?f (map erase_ptr ps)) (?f (erase_ptr r)) None []))"
    proof (cases "list_all2 same_ptr qs ps \<and> same_ptr s' r")
      case True
      have "map ?f (map erase_ptr ps) = map erase_ptr ps" using yields_all_kept(2) [OF yq c(3)] True by simp
      moreover have "?f (erase_ptr r) = erase_ptr r"
        using yields_kept(2) [OF ys in_arena_extends [OF c(2)]] sq True by simp
      moreover have "yields A (?t, B2) (erase_ptr ?t)"
        by (rule yields_after_all [OF yq yields_keep [OF ys in_arena_extends [OF here]]]) (use sq in simp)
      ultimately have "yields A (?t, B2) (Some (Ty 0 k None 0 (map ?f (map erase_ptr ps)) (?f (erase_ptr r)) None []))"
        using func sh plain_kinds [of k] by (auto simp del: map_map)
      with True show ?thesis by simp
    next
      case False
      have "yields B2 (make_function qs s' B2) (Some (Ty 0 k None 0 (map erase_ptr qs) (erase_ptr s') None []))"
        using makes_function [of B2 qs s'] sq ss func in_arena_extends [of B1 _ B2] by simp
      from yields_after_all [OF yq yields_after [OF ys this]] False sq ss show ?thesis by auto
    qed
    then show ?thesis
      using func sh Ty.prems(4) plain_kinds [of k] qs s'
      by (cases "list_all2 same_ptr qs ps \<and> same_ptr s' r") (auto simp: subst_trees_map)
  next
    case str
    have "yields A (if list_all2 same_ptr qs ps then (?t, B1) else make_struct_instance d qs B1)
        (Some (Ty 0 k None 0 (map ?f (map erase_ptr ps)) None (map_option erase_decl d) []))"
      using makes_struct_instance [of B1 qs d] sq sh str plain_kinds [of k] by (intro parts) auto
    then show ?thesis
      using str sh Ty.prems plain_kinds [of k] qs yields_self [OF Ty.prems(2) here]
      by (cases "ps = []"; cases "list_all2 same_ptr qs ps") (auto simp: subst_trees_map Let_def)
  next
    case enum
    have "yields A (if list_all2 same_ptr qs ps then (?t, B1) else make_enum_instance d qs B1)
        (Some (Ty 0 k None 0 (map ?f (map erase_ptr ps)) None (map_option erase_decl d) []))"
      using makes_enum_instance [of B1 qs d] sq sh enum plain_kinds [of k] by (intro parts) auto
    then show ?thesis
      using enum sh Ty.prems plain_kinds [of k] qs yields_self [OF Ty.prems(2) here]
      by (cases "ps = []"; cases "list_all2 same_ptr qs ps") (auto simp: subst_trees_map Let_def)
  next
    case other
    then show ?thesis
      using sh Ty.prems(4) yields_self [OF Ty.prems(2) here] by (auto split: if_splits)
  qed
qed

lemma substitute_Nil: "substitute [] p A = (p, A)"
  by (cases p; cases "the p") simp_all

lemma substitute_yields:
  assumes "arena_ok A" "in_arena A p" "bindings_in A bs"
  shows "yields A (substitute bs p A) (subst_tree (erase_bindings bs) (erase_ptr p))"
proof (cases "bs = []")
  case True
  then have "erase_bindings bs = []" by (simp add: erase_bindings_def)
  then show ?thesis using yields_self [OF assms(1,2)] True by (simp add: subst_tree_Nil substitute_Nil)
next
  case False
  with assms substitute_node show ?thesis by (cases p) (auto simp: yields_def)
qed

text \<open>The names a substitution looks up in a type.\<close>

fun names_in :: "type_ptr \<Rightarrow> string set"
  and names_in_all :: "type_ptr list \<Rightarrow> string set"
where
  "names_in None = {}"
| "names_in (Some (Ty a k i n ps r d nm)) =
     (if k = KGenericParam \<or> k = KVector then {nm} else {}) \<union> names_in i \<union> names_in_all ps \<union> names_in r"
| "names_in_all [] = {}"
| "names_in_all (p # ps) = names_in p \<union> names_in_all ps"

lemma map_of_unmapped: "nm \<notin> fst ` set bs \<Longrightarrow> map_of bs nm = None"
  by (simp add: map_of_eq_None_iff)

lemma names_in_all_UN: "names_in_all ps = (\<Union>p \<in> set ps. names_in p)"
  by (induction ps) simp_all

lemma substitute_all_unmapped:
  "(\<And>p A. p \<in> set ps \<Longrightarrow> substitute bs p A = (p, A)) \<Longrightarrow> substitute_all bs ps A = (ps, A)"
  by (induction ps arbitrary: A) simp_all

lemma substitute_node_unmapped:
  "names_in (Some t) \<inter> fst ` set bs = {} \<Longrightarrow> substitute bs (Some t) A = (Some t, A)"
proof (induction t arbitrary: A)
  case (Ty a k i n ps r d nm)
  have step: "substitute bs p A = (p, A)"
    if "\<And>x A. x \<in> set_option p \<Longrightarrow> names_in (Some x) \<inter> fst ` set bs = {} \<Longrightarrow> substitute bs (Some x) A = (Some x, A)"
      "names_in p \<inter> fst ` set bs = {}" for p A
    using that by (cases p) auto
  have i: "substitute bs i A = (i, A)" for A by (rule step) (use Ty in auto)
  have r: "substitute bs r A = (r, A)" for A by (rule step) (use Ty in auto)
  have ps: "substitute_all bs ps A = (ps, A)" for A
  proof (rule substitute_all_unmapped)
    fix p A assume p: "p \<in> set ps"
    with Ty.prems have "names_in p \<inter> fst ` set bs = {}" by (auto simp: names_in_all_UN)
    then show "substitute bs p A = (p, A)" by (rule step [rotated]) (rule Ty.IH(2) [OF p])
  qed
  have nm: "map_of bs nm = None" if "k = KGenericParam \<or> k = KVector"
  proof (rule map_of_unmapped)
    have "nm \<in> names_in (Some (Ty a k i n ps r d nm))" using that by simp
    with Ty.prems show "nm \<notin> fst ` set bs" by (meson disjoint_iff)
  qed
  have refl: "list_all2 same_ptr ps ps" by (simp add: list_all2_same)
  show ?case
    by (simp only: substitute.simps Let_def i r ps prod.case same_ptr_refl refl simp_thms if_True if_cancel)
       (use nm in \<open>simp add: bound_length_def\<close>)
qed

lemma substitute_unmapped: "names_in p \<inter> fst ` set bs = {} \<Longrightarrow> substitute bs p A = (p, A)"
  by (cases p) (simp_all add: substitute_node_unmapped del: substitute.simps(2))

section \<open>Properties\<close>

lemma interned_shape: "k \<in> set interned_kinds \<Longrightarrow> shape_ok (Ty a k None 0 [] None None [])"
  by (auto simp: interned_kinds_def shape_ok_def wraps_inner_def pairs_parts_def no_children_def)

lemma intern_all_ok: "arena_ok A \<Longrightarrow> set ks \<subseteq> set interned_kinds \<Longrightarrow> arena_ok (intern_all ks A)"
proof (induction ks A rule: intern_all.induct)
  case (2 k ks A)
  let ?t = "Ty (length (owned A)) k None 0 [] None None []"
  have "arena_ok (A\<lparr>owned := owned A @ [?t], primitives := primitives A @ [(k, ?t)]\<rparr>)"
    using 2 interned_shape [of k] by (auto simp: arena_ok_def nth_append less_Suc_eq children_def)
  with 2 show ?case by (simp add: Let_def)
qed simp

lemma new_arena_ok: "arena_ok new_arena"
  unfolding new_arena_def by (rule intern_all_ok) (simp_all add: arena_ok_def)

lemma new_arena_primitives: "list_all (\<lambda>k. map_option ty_kind (primitive new_arena k) = Some k) interned_kinds"
  by code_simp

text \<open>A small arena for the witnesses: the parameter \<^verbatim>\<open>T\<close>, \<^verbatim>\<open>T?\<close> and the tuple \<^verbatim>\<open>(T?, Int32)\<close>.\<close>

definition sample_int :: type_ptr where
  "sample_int = primitive new_arena KInt32"

definition sample_param :: "type_ptr \<times> arena" where
  "sample_param = make_generic_param ''T'' new_arena"

definition sample_optional :: "type_ptr \<times> arena" where
  "sample_optional = (case sample_param of (t, A) \<Rightarrow> make_optional t A)"

definition sample_tuple :: "type_ptr \<times> arena" where
  "sample_tuple = (case sample_optional of (t, A) \<Rightarrow> make_tuple [t, sample_int] A)"

lemma sample_arena_ok: "arena_ok (snd sample_tuple)" "in_arena (snd sample_tuple) (fst sample_tuple)"
  "in_arena (snd sample_tuple) sample_int" "in_arena (snd sample_tuple) (fst sample_param)"
proof -
  have int: "in_arena new_arena sample_int" by code_simp
  have y1: "yields new_arena sample_param (Some (Ty 0 KGenericParam None 0 [] None None ''T''))"
    unfolding sample_param_def by (rule makes_generic_param [OF new_arena_ok])
  obtain t A where 1: "sample_param = (t, A)" by fastforce
  note st1 = yields_state [OF y1 [unfolded 1]]
  have y2: "yields A sample_optional (Some (Ty 0 KOptional (erase_ptr t) 0 [] None None []))"
    unfolding sample_optional_def 1 using optional_type.makes st1 by simp
  obtain u B where 2: "sample_optional = (u, B)" by fastforce
  note st2 = yields_state [OF y2 [unfolded 2]]
  have i: "in_arena B sample_int" using int st1 st2 by (blast intro: in_arena_extends)
  have y3: "yields B sample_tuple (Some (Ty 0 KTuple None 0 (map erase_ptr [u, sample_int]) None None []))"
    unfolding sample_tuple_def 2 using makes_tuple [of B "[u, sample_int]"] st2 i by auto
  then show "arena_ok (snd sample_tuple)" "in_arena (snd sample_tuple) (fst sample_tuple)"
    by (simp_all add: yields_def)
  show "in_arena (snd sample_tuple) sample_int" using y3 i by (auto simp: yields_def intro: in_arena_extends)
  show "in_arena (snd sample_tuple) (fst sample_param)"
  proof -
    have "in_arena A t" "extends A B" "extends B (snd sample_tuple)" using st1 st2 y3 by (simp_all add: yields_def)
    then show ?thesis unfolding 1 fst_conv by (blast intro: in_arena_extends)
  qed
qed

text \<open>
  C23: On the types of an arena, the equality of the code, which stops at equal pointers and
  compares by kind the fields that the kind uses, is structural equality: the two types are the
  same tree, whatever the addresses of their nodes.
\<close>

theorem equal_is_structural:
  assumes "arena_ok A" "in_arena A p" "in_arena A q"
  shows "ty_equal p q \<longleftrightarrow> map_option erase p = map_option erase q"
  by (rule ty_equal_erase [OF assms])

theorem equal_is_structural_witness:
  "ty_equal (fst sample_tuple) sample_int \<longleftrightarrow> map_option erase (fst sample_tuple) = map_option erase sample_int"
  by (rule equal_is_structural [OF sample_arena_ok(1,2,3)])

text \<open>
  C22: Substitution is correct: the arena stays well-formed and only grows, the result lies in
  it, and the result is the tree in which every bound generic parameter and every symbolic
  length that is bound to a constant is replaced. Returning a node whose children came back
  as the same pointers is therefore sound.
\<close>

theorem substitute_correct:
  assumes "arena_ok A" "in_arena A p" "bindings_in A bs" "substitute bs p A = (q, B)"
  shows "arena_ok B \<and> extends A B \<and> in_arena B q
     \<and> map_option erase q = subst_tree (erase_bindings bs) (map_option erase p)"
  using substitute_yields [OF assms(1-3)] by (simp add: yields_def assms(4))

theorem substitute_correct_witness:
  "\<exists>q B. substitute [(''T'', sample_int)] (fst sample_tuple) (snd sample_tuple) = (q, B) \<and> arena_ok B
     \<and> map_option describe q = Some ''(Int32?, Int32)''
     \<and> map_option erase q = subst_tree (erase_bindings [(''T'', sample_int)]) (map_option erase (fst sample_tuple))"
proof -
  obtain q B where s: "substitute [(''T'', sample_int)] (fst sample_tuple) (snd sample_tuple) = (q, B)" by fastforce
  have "bindings_in (snd sample_tuple) [(''T'', sample_int)]" using sample_arena_ok(3) by (simp add: bindings_in_def)
  from substitute_correct [OF sample_arena_ok(1,2) this s] have "arena_ok B"
    "map_option erase q = subst_tree (erase_bindings [(''T'', sample_int)]) (map_option erase (fst sample_tuple))"
    by simp_all
  moreover have "map_option describe (fst (substitute [(''T'', sample_int)] (fst sample_tuple) (snd sample_tuple)))
      = Some ''(Int32?, Int32)''"
    by code_simp
  ultimately show ?thesis using s by auto
qed

text \<open>
  C24: A substitution that binds none of the names of a type returns the same pointer and
  allocates nothing.
\<close>

theorem substitute_unchanged:
  assumes "names_in p \<inter> fst ` set bs = {}"
  shows "substitute bs p A = (p, A)"
  by (rule substitute_unmapped [OF assms])

theorem substitute_unchanged_witness:
  "substitute [(''U'', sample_int)] (fst sample_tuple) (snd sample_tuple) = (fst sample_tuple, snd sample_tuple)"
  by (rule substitute_unchanged) code_simp

text \<open>
  Two optional types that are built one after the other are equal exactly when their
  element types are, although their nodes are different.
\<close>

theorem make_optional_equal:
  assumes "arena_ok A" "in_arena A p" "in_arena A q"
  shows "let (t, B) = make_optional p A; (u, C) = make_optional q B in ty_equal t u = ty_equal p q"
  by (rule optional_type.equal_iff [OF assms])

theorem make_optional_equal_witness:
  "let (t, B) = make_optional sample_int (snd sample_tuple); (u, C) = make_optional (fst sample_param) B
   in ty_equal t u = ty_equal sample_int (fst sample_param)"
  by (rule make_optional_equal [OF sample_arena_ok(1,3,4)])

definition silent_kind :: "type_kind \<Rightarrow> bool" where
  "silent_kind k \<longleftrightarrow> k = KError \<or> k = KNever"

definition interned_pairs :: "(type_kind \<times> type_kind) list" where
  "interned_pairs = List.product (filter (\<lambda>k. \<not> silent_kind k) interned_kinds) (filter (\<lambda>k. \<not> silent_kind k) interned_kinds)"

lemma new_arena_nodes:
  "list_all (\<lambda>k. case primitive new_arena k of None \<Rightarrow> False
     | Some t \<Rightarrow> t = Ty (ty_addr t) k None 0 [] None None [] \<and> interned_kinds ! ty_addr t = k) interned_kinds"
  by code_simp

text \<open>Assignability between interned nodes, by their kinds.\<close>

definition interned_assignable :: "type_kind \<Rightarrow> type_kind \<Rightarrow> bool" where
  "interned_assignable k l \<longleftrightarrow>
     k = KError \<or> l = KError \<or> k = KNever \<or> converts_integer k l \<or> converts_string k l \<or> k = l"

lemma interned_assignable:
  assumes "k \<in> set interned_kinds" "l \<in> set interned_kinds"
  shows "assignable (primitive new_arena k) (primitive new_arena l) = interned_assignable k l"
proof -
  from assms(1) new_arena_nodes obtain a where k: "primitive new_arena k = Some (Ty a k None 0 [] None None [])"
    "interned_kinds ! a = k"
    unfolding list_all_iff by (fastforce split: option.splits)
  from assms(2) new_arena_nodes obtain b where l: "primitive new_arena l = Some (Ty b l None 0 [] None None [])"
    "interned_kinds ! b = l"
    unfolding list_all_iff by (fastforce split: option.splits)
  have "\<forall>j \<in> set interned_kinds. \<not> wraps_inner j \<and> \<not> pairs_parts j
      \<and> j \<notin> {KOptional, KSpan, KMutSpan, KAtomic, KInterruptHandler, KResult, KVector, KConstValue, KFunction, KTuple, KStruct,
           KEnum, KProtocol, KOpaqueType, KGenericParam}"
    by code_simp
  with assms have p: "\<not> wraps_inner l" "\<not> pairs_parts l"
    "l \<notin> {KOptional, KSpan, KMutSpan, KAtomic, KInterruptHandler, KResult, KVector, KConstValue, KFunction, KTuple, KStruct,
           KEnum, KProtocol, KOpaqueType, KGenericParam}" by blast+
  show ?thesis
    using p k(2) l(2) unfolding k(1) l(1) interned_assignable_def
    by (auto simp: converts_view_def converts_handler_def)
qed


text \<open>
  C27: The name a primitive type prints is the name the resolver looks it up by, for every
  interned type.
\<close>

theorem primitive_name_roundtrip:
  "map (\<lambda>k. map_option (\<lambda>t. primitive_kind_by_name (describe t)) (primitive new_arena k)) interned_kinds =
     map Some interned_kinds"
  by code_simp

text \<open>
  C26: Where a fixed array, a span or a mutable span may go, for every target. To a read-only
  span when the elements are equal; to a mutable span when they are and the source is not
  read-only; to an array only when the source is the same array type, so never from a view; into
  an optional or an atomic when it may go into what that holds; nowhere else, except where the
  target is the error type.
\<close>

theorem assignable_views:
  assumes "arena_ok A" "f \<in> set (owned A)" "t \<in> set (owned A)" "ty_kind f \<in> {KVector, KSpan, KMutSpan}"
  shows "assignable (Some f) (Some t) \<longleftrightarrow>
     (case ty_kind t of
        KError \<Rightarrow> True
      | KSpan \<Rightarrow> map_option erase (ty_inner f) = map_option erase (ty_inner t)
      | KMutSpan \<Rightarrow> map_option erase (ty_inner f) = map_option erase (ty_inner t) \<and> ty_kind f \<noteq> KSpan
      | KVector \<Rightarrow> ty_kind f = KVector \<and> erase f = erase t
      | KOptional \<Rightarrow> assignable (Some f) (ty_inner t)
      | KAtomic \<Rightarrow> ty_inner t \<noteq> None \<and> assignable (Some f) (ty_inner t)
      | _ \<Rightarrow> False)"
proof -
  obtain a k i n ps r d nm where f: "f = Ty a k i n ps r d nm" by (cases f)
  obtain a' k' i' n' ps' r' d' nm' where t: "t = Ty a' k' i' n' ps' r' d' nm'" by (cases t)
  note cf = arena_children [OF assms(1,2) [unfolded f]] and ct = arena_children [OF assms(1,3) [unfolded t]]
  have inner: "ty_equal i i' \<longleftrightarrow> erase_ptr i = erase_ptr i'" by (rule ty_equal_erase [OF assms(1) cf(1) ct(1)])
  have same: "a = a' \<Longrightarrow> k = k' \<and> i = i'"
    using arena_same_addr [OF assms(1-3)] by (simp add: f t)
  have whole: "ty_equal (Some f) (Some t) \<longleftrightarrow> erase f = erase t"
    by (rule ty_equal_erase_node [OF assms(1-3)])
  have kinds: "erase f = erase t \<Longrightarrow> k = k'" by (simp add: f t)
  note defs = converts_integer_def is_integer_def converts_view_def converts_handler_def converts_string_def
    is_strish_def wraps_inner_def
  show ?thesis
  proof (cases "k' \<in> {KSpan, KMutSpan}")
    case True
    then show ?thesis using assms(4) same inner unfolding f t ty.sel
      by (elim insertE emptyE; simp) (auto simp: defs)
  next
    case False
    have "assignable (Some f) (Some t) \<longleftrightarrow> k' = KError \<or> (k' = KOptional \<and> assignable (Some f) i')
        \<or> (k' = KAtomic \<and> i' \<noteq> None \<and> assignable (Some f) i') \<or> erase f = erase t"
    proof -
      have no: "\<not> converts_integer k k'" "\<not> converts_view f t" "\<not> converts_handler f t" "\<not> converts_string k k'"
        "k \<noteq> KError" "k \<noteq> KNever" "k \<noteq> KOptional"
        using False assms(4) by (auto simp: defs f t)
      have "assignable (Some f) (Some t) \<longleftrightarrow> k' = KError \<or> (k' = KOptional \<and> assignable (Some f) i')
        \<or> (k' = KAtomic \<and> i' \<noteq> None \<and> assignable (Some f) i') \<or> ty_equal (Some f) (Some t)"
        using no unfolding t f assignable.simps Let_def ty.sel by argo
      then show ?thesis unfolding whole .
    qed
    then show ?thesis using False assms(4) kinds by (cases k') (auto simp: t f)
  qed
qed

definition sample_views :: "type_ptr \<times> arena" where
  "sample_views = make_mut_span sample_int (snd sample_tuple)"

theorem assignable_views_witness:
  "\<exists>f t. ty_kind f = KMutSpan \<and> ty_kind t = KSpan \<and> \<not> assignable (Some t) (Some f)
     \<and> (assignable (Some f) (Some t) \<longleftrightarrow> map_option erase (ty_inner f) = map_option erase (ty_inner t))"
proof -
  obtain p A where 1: "make_mut_span sample_int (snd sample_tuple) = (p, A)" by fastforce
  note s1 = yields_state [OF mut_span_type.makes [OF sample_arena_ok(1,3), unfolded 1]]
  obtain q B where 2: "make_span sample_int A = (q, B)" by fastforce
  have "in_arena A sample_int" using sample_arena_ok(3) s1 by (blast intro: in_arena_extends)
  note s2 = yields_state [OF span_type.makes [OF conjunct1 [OF s1] this, unfolded 2]]
  obtain f where f: "p = Some f" "ty_kind f = KMutSpan" using s1 by (cases p; cases "the p") auto
  obtain t where t: "q = Some t" "ty_kind t = KSpan" using s2 by (cases q; cases "the q") auto
  have own: "f \<in> set (owned B)" "t \<in> set (owned B)" using f t s1 s2 in_arena_extends [of A p B] by simp_all
  have "\<not> assignable (Some t) (Some f)"
    using assignable_views [OF conjunct1 [OF s2] own(2,1)] f t by simp
  moreover have "assignable (Some f) (Some t) \<longleftrightarrow> map_option erase (ty_inner f) = map_option erase (ty_inner t)"
    using assignable_views [OF conjunct1 [OF s2] own] f t by simp
  ultimately show ?thesis using f t by blast
qed

end
