(* ===== verification/Ast.thy ===== *)
theory Ast
  imports Diag
begin

text \<open>
  The syntax tree, \<^verbatim>\<open>include/vestra/ast/nodes.hpp\<close>: one constructor per node class, with the
  fields of the class in their order. The base class \<^verbatim>\<open>Node\<close> is the first field of every
  node: the address of the object, which the side tables of the resolver are keyed by, and its
  source range. A node owns its children, so they are part of it; a child pointer that the
  readers of the tree test for null is an \<open>option\<close>, one that they follow without a test is the
  child itself. The auxiliary structs that are not nodes (\<^verbatim>\<open>Param\<close>, \<^verbatim>\<open>MatchArm\<close> and the like)
  are datatypes over the types of the nodes they own.
\<close>

section \<open>Enumerations\<close>

datatype (plugins only: code) param_mode = Read | Inout | Sink

datatype (plugins only: code) visibility = Private | Internal | Package | Public

text \<open>The four unary operators carry the suffix \<open>Op\<close>, as do the binary ones.\<close>

datatype (plugins only: code) unary_op = NegOp | NotOp | BitNotOp | UnwrapOp

datatype (plugins only: code) binary_op =
    MulOp | DivOp | ModOp | AddOp | SubOp | ShlOp | ShrOp | BitAndOp | BitXorOp | BitOrOp
  | RangeOp | RangeLtOp | EqOp | NeOp | LtOp | LeOp | GtOp | GeOp | AndOp | OrOp
  | CoalesceOp | WrappingAddOp | WrappingSubOp | WrappingMulOp

datatype (plugins only: code) assign_op =
    Assign | AddAssign | SubAssign | MulAssign | DivAssign | ModAssign | BitAndAssign
  | BitOrAssign | BitXorAssign | ShlAssign | ShrAssign

datatype (plugins only: code) try_form = Propagating | OptionalTry | Forced

datatype (plugins only: code) recv_mode = RecvNone | RecvInout | RecvSink

datatype (plugins only: code) field_kind = FieldLet | FieldVar | FieldEmbed

section \<open>The base of a node\<close>

record hdr =
  node_addr :: nat
  node_range :: source_range

section \<open>Auxiliary structures\<close>

datatype (plugins only: size) 'e attribute =
  Attribute (attr_name: string) (attr_predicate: "'e option") (attr_extra_args: "'e option list")
    (attr_range: source_range)

text \<open>A \<^verbatim>\<open>Bound\<close> is the list of its protocols.\<close>

type_synonym 't bound = "'t list"

datatype (plugins only: size) 't generic_param =
  GenericParam (gp_name: string) (gp_is_const: bool) (gp_const_type: "'t option")
    (gp_bound: "'t bound") (gp_range: source_range)

datatype (plugins only: size) ('t, 'e, 'p) param =
  Param (param_label: string) (param_label_omitted: bool) (param_name: string)
    (param_nonescaping: bool) (param_mode: param_mode) (param_type: "'t option")
    (param_default_value: "'e option") (param_pattern: "'p option") (param_range: source_range)

datatype (plugins only: size) 't effects =
  Effects (using_caps: "'t list") (throws_type: "'t option")

datatype (plugins only: size) 'e call_arg =
  Arg (arg_label: string) (arg_is_inout: bool) (arg_value: 'e)

datatype (plugins only: size) ('p, 'e) match_arm =
  MatchArm (arm_pattern: "'p option") (arm_guard: "'e option") (arm_body: "'e option")
    (arm_is_default: bool)

datatype (plugins only: size) ('p, 'e) select_arm =
  SelectArm (sel_pattern: "'p option") (sel_event: "'e option") (sel_body: "'e option")

datatype (plugins only: size) 'e segment =
  Segment (seg_literal: string) (seg_expr: "'e option")

datatype (plugins only: size) ('t, 'e) with_binding =
  WithBinding (wb_name: string) (wb_cap_type: "'t option") (wb_type_annotation: "'t option")
    (wb_value: "'e option")

datatype (plugins only: size) ('t, 'e) field =
  Field (field_attributes: "'e attribute list") (field_kind: field_kind) (field_name: string)
    (field_type: "'t option") (field_range: source_range)

datatype (plugins only: size) 't enum_case =
  EnumCase (case_name: string) (case_payload: "(string \<times> 't) list") (case_range: source_range)

datatype (plugins only: size) 't assoc_type =
  AssocType (assoc_name: string) (assoc_bound: "'t bound")

section \<open>Nodes\<close>

text \<open>
  Expressions, statements, patterns, the types as they are written, and declarations. A
  64-bit field of a type node (a vector length, a constant argument) is an integer.
\<close>

datatype (plugins only: size)
  expr =
    IntLit hdr string
  | FloatLit hdr string
  | StringLit hdr string
  | ByteStringLit hdr string
  | CharLit hdr string
  | BoolLit hdr bool
  | NilLit hdr
  | SelfExpr hdr
  | IdentExpr hdr string
  | LeadingDotExpr hdr string
  | PathExpr hdr "string list"
  | CallExpr hdr expr "tyx list" "expr call_arg list"
  | MemberExpr hdr expr string "expr option" bool
  | IndexExpr hdr expr "expr list" "tyx list"
  | UnaryExpr hdr unary_op expr
  | BinaryExpr hdr binary_op expr expr
  | AsExpr hdr expr tyx bool
  | IfExpr hdr string "expr option" "expr option" "expr option" "expr option"
  | MatchExpr hdr expr "(pattern, expr) match_arm list"
  | SelectExpr hdr "(pattern, expr) select_arm list" "expr option" "expr option" "expr option"
  | BlockExpr hdr "stmt list"
  | ClosureExpr hdr "string list" "stmt list"
  | ComptimeExpr hdr expr
  | EmbedExpr hdr string
  | InterpStringExpr hdr "expr segment list"
  | QuoteExpr hdr "expr option"
  | QuoteDeclExpr hdr "decl list"
  | SpliceExpr hdr expr
  | MacroCallExpr hdr string "expr list" "expr option"
  | AwaitExpr hdr expr
  | SpawnExpr hdr expr
  | CopyExpr hdr expr
  | ThrowExpr hdr expr
  | AddressOfExpr hdr expr
  | DoCatchExpr hdr expr string "tyx option" "expr option" expr
  | TryExpr hdr try_form expr
  | VectorLitExpr hdr "expr list"
  | TupleLitExpr hdr "expr list"
  | ParenExpr hdr expr
and stmt =
    LetStmt hdr "pattern option" "tyx option" "expr option"
  | VarStmt hdr "pattern option" "tyx option" "expr option"
  | ExprStmt hdr expr
  | ReturnStmt hdr "expr option"
  | BreakStmt hdr string
  | ContinueStmt hdr string
  | ForStmt hdr string "pattern option" expr "expr option"
  | WhileStmt hdr string expr "expr option"
  | WithStmt hdr "(tyx, expr) with_binding list" "expr option"
  | AssignStmt hdr assign_op "expr option" expr
and pattern =
    WildcardPat hdr
  | LiteralPat hdr expr
  | BindPat hdr string
  | IdentPat hdr string
  | EnumPat hdr string "pattern list"
  | TuplePat hdr "pattern list"
  | RangePat hdr expr expr bool
  | OrPat hdr "pattern list"
and tyx =
    NamedType hdr "string list" "tyx list" "(string \<times> tyx) list" "int list" bool
  | VectorType hdr int string "tyx option"
  | OptionalType hdr "tyx option"
  | FunctionType hdr "tyx list" "tyx effects" "tyx option"
  | InterruptType hdr "tyx option"
  | TupleType hdr "tyx list"
  | SomeType hdr "tyx option"
  | DynType hdr "tyx option"
  | SpliceType hdr "expr option"
and decl =
    ModuleDecl hdr "string list"
  | ImportDecl hdr bool string "string list"
  | FuncDecl hdr "expr attribute list" visibility bool bool recv_mode string "expr option" "tyx generic_param list"
      "(tyx, expr, pattern) param list" "tyx effects" "tyx option" "expr option"
  | StructDecl hdr "expr attribute list" visibility bool string "tyx generic_param list" "(tyx, expr) field list" "decl list" "expr option"
  | EnumDecl hdr "expr attribute list" visibility string "tyx generic_param list" "tyx enum_case list" "decl list"
  | ProtocolDecl hdr "expr attribute list" visibility string "tyx generic_param list" "tyx list" "tyx assoc_type list" "decl list"
  | ExtensionDecl hdr "expr attribute list" visibility "tyx option" "tyx list" "decl list"
  | OpaqueDecl hdr visibility string "tyx option"
  | ConstDecl hdr visibility string "tyx option" "expr option"
  | StaticDecl hdr visibility string "tyx option" "expr option" "expr attribute list" bool
  | DeriveDecl hdr "tyx list" "tyx option"
  | SpliceDecl hdr "expr option"


text \<open>A source file.\<close>

record compilation_unit =
  unit_module :: "decl option"
  unit_imports :: "decl list"
  unit_decls :: "decl list"

section \<open>The base of a node, by category\<close>

definition expr_hdr :: "expr \<Rightarrow> hdr" where
  "expr_hdr x =
     (case x of
        IntLit h _ \<Rightarrow> h
      | FloatLit h _ \<Rightarrow> h
      | StringLit h _ \<Rightarrow> h
      | ByteStringLit h _ \<Rightarrow> h
      | CharLit h _ \<Rightarrow> h
      | BoolLit h _ \<Rightarrow> h
      | NilLit h \<Rightarrow> h
      | SelfExpr h \<Rightarrow> h
      | IdentExpr h _ \<Rightarrow> h
      | LeadingDotExpr h _ \<Rightarrow> h
      | PathExpr h _ \<Rightarrow> h
      | CallExpr h _ _ _ \<Rightarrow> h
      | MemberExpr h _ _ _ _ \<Rightarrow> h
      | IndexExpr h _ _ _ \<Rightarrow> h
      | UnaryExpr h _ _ \<Rightarrow> h
      | BinaryExpr h _ _ _ \<Rightarrow> h
      | AsExpr h _ _ _ \<Rightarrow> h
      | IfExpr h _ _ _ _ _ \<Rightarrow> h
      | MatchExpr h _ _ \<Rightarrow> h
      | SelectExpr h _ _ _ _ \<Rightarrow> h
      | BlockExpr h _ \<Rightarrow> h
      | ClosureExpr h _ _ \<Rightarrow> h
      | ComptimeExpr h _ \<Rightarrow> h
      | EmbedExpr h _ \<Rightarrow> h
      | InterpStringExpr h _ \<Rightarrow> h
      | QuoteExpr h _ \<Rightarrow> h
      | QuoteDeclExpr h _ \<Rightarrow> h
      | SpliceExpr h _ \<Rightarrow> h
      | MacroCallExpr h _ _ _ \<Rightarrow> h
      | AwaitExpr h _ \<Rightarrow> h
      | SpawnExpr h _ \<Rightarrow> h
      | CopyExpr h _ \<Rightarrow> h
      | ThrowExpr h _ \<Rightarrow> h
      | AddressOfExpr h _ \<Rightarrow> h
      | DoCatchExpr h _ _ _ _ _ \<Rightarrow> h
      | TryExpr h _ _ \<Rightarrow> h
      | VectorLitExpr h _ \<Rightarrow> h
      | TupleLitExpr h _ \<Rightarrow> h
      | ParenExpr h _ \<Rightarrow> h)"

definition stmt_hdr :: "stmt \<Rightarrow> hdr" where
  "stmt_hdr x =
     (case x of
        LetStmt h _ _ _ \<Rightarrow> h
      | VarStmt h _ _ _ \<Rightarrow> h
      | ExprStmt h _ \<Rightarrow> h
      | ReturnStmt h _ \<Rightarrow> h
      | BreakStmt h _ \<Rightarrow> h
      | ContinueStmt h _ \<Rightarrow> h
      | ForStmt h _ _ _ _ \<Rightarrow> h
      | WhileStmt h _ _ _ \<Rightarrow> h
      | WithStmt h _ _ \<Rightarrow> h
      | AssignStmt h _ _ _ \<Rightarrow> h)"

definition pattern_hdr :: "pattern \<Rightarrow> hdr" where
  "pattern_hdr x =
     (case x of
        WildcardPat h \<Rightarrow> h
      | LiteralPat h _ \<Rightarrow> h
      | BindPat h _ \<Rightarrow> h
      | IdentPat h _ \<Rightarrow> h
      | EnumPat h _ _ \<Rightarrow> h
      | TuplePat h _ \<Rightarrow> h
      | RangePat h _ _ _ \<Rightarrow> h
      | OrPat h _ \<Rightarrow> h)"

definition tyx_hdr :: "tyx \<Rightarrow> hdr" where
  "tyx_hdr x =
     (case x of
        NamedType h _ _ _ _ _ \<Rightarrow> h
      | VectorType h _ _ _ \<Rightarrow> h
      | OptionalType h _ \<Rightarrow> h
      | FunctionType h _ _ _ \<Rightarrow> h
      | InterruptType h _ \<Rightarrow> h
      | TupleType h _ \<Rightarrow> h
      | SomeType h _ \<Rightarrow> h
      | DynType h _ \<Rightarrow> h
      | SpliceType h _ \<Rightarrow> h)"

definition decl_hdr :: "decl \<Rightarrow> hdr" where
  "decl_hdr x =
     (case x of
        ModuleDecl h _ \<Rightarrow> h
      | ImportDecl h _ _ _ \<Rightarrow> h
      | FuncDecl h _ _ _ _ _ _ _ _ _ _ _ _ \<Rightarrow> h
      | StructDecl h _ _ _ _ _ _ _ _ \<Rightarrow> h
      | EnumDecl h _ _ _ _ _ _ \<Rightarrow> h
      | ProtocolDecl h _ _ _ _ _ _ _ \<Rightarrow> h
      | ExtensionDecl h _ _ _ _ _ \<Rightarrow> h
      | OpaqueDecl h _ _ _ \<Rightarrow> h
      | ConstDecl h _ _ _ _ \<Rightarrow> h
      | StaticDecl h _ _ _ _ _ _ \<Rightarrow> h
      | DeriveDecl h _ _ \<Rightarrow> h
      | SpliceDecl h _ \<Rightarrow> h)"

text \<open>Ranges and addresses, read by the checkers.\<close>

abbreviation expr_range :: "expr \<Rightarrow> source_range" where
  "expr_range e \<equiv> node_range (expr_hdr e)"

abbreviation expr_addr :: "expr \<Rightarrow> nat" where
  "expr_addr e \<equiv> node_addr (expr_hdr e)"

abbreviation stmt_addr :: "stmt \<Rightarrow> nat" where
  "stmt_addr s \<equiv> node_addr (stmt_hdr s)"

abbreviation node_id :: "decl \<Rightarrow> nat" where
  "node_id d \<equiv> node_addr (decl_hdr d)"

end
