(* ===== verification/Scopes.thy ===== *)
theory Scopes
  imports Ast Types
begin

text \<open>
  Symbols and lexical scopes, \<^verbatim>\<open>include/vestra/sema/scope.hpp\<close> and \<^verbatim>\<open>src/sema/scope.cpp\<close>.
  The stack owns every scope it ever created, in the order of creation; a \<^verbatim>\<open>Scope*\<close> is an
  index into that list. A symbol lives in a node of its scope's hash table, whose address
  does not change: the state keeps the symbols in one list, a \<^verbatim>\<open>Symbol*\<close> is an index into
  it, and a scope maps a name to such an index.
\<close>

section \<open>Symbols\<close>

datatype (plugins only: code) symbol_kind =
    SymFunc | SymStruct | SymEnum | SymEnumCase | SymProtocol | SymConst | SymStatic
  | SymOpaqueType | SymLocal | SymParameter | SymGenericParam

type_synonym sym_ref = nat

text \<open>
  The node a symbol points at is always a declaration: no other assignment to the field
  exists.
\<close>

record symbol =
  sym_name :: string
  sym_kind :: symbol_kind
  sym_decl :: "decl option"
  sym_type :: type_ptr
  sym_definition_range :: source_range
  sym_visibility :: visibility
  sym_provenance_root :: "sym_ref option"
  sym_provenance_segment :: string

section \<open>Scopes\<close>

type_synonym scope_ref = nat

record scope =
  scope_parent :: "scope_ref option"
  scope_symbols :: "string \<rightharpoonup> sym_ref"

record scope_stack =
  ss_scopes :: "scope list"
  ss_active :: scope_ref
  ss_symbols :: "symbol list"

definition deref :: "scope_stack \<Rightarrow> sym_ref \<Rightarrow> symbol option" where
  "deref w a = (if a < length (ss_symbols w) then Some (ss_symbols w ! a) else None)"

text \<open>
  \<^verbatim>\<open>try_emplace\<close>: an existing entry is returned and nothing changes; otherwise a new node
  holds the symbol and the result is the null pointer.
\<close>

definition scope_insert :: "scope_ref \<Rightarrow> symbol \<Rightarrow> scope_stack \<Rightarrow> sym_ref option \<times> scope_stack" where
  "scope_insert i s w =
     (let sc = ss_scopes w ! i in
      case scope_symbols sc (sym_name s) of
        Some a \<Rightarrow> (Some a, w)
      | None \<Rightarrow>
          (None, w\<lparr>ss_scopes := (ss_scopes w)[i := sc\<lparr>scope_symbols :=
                     (scope_symbols sc)(sym_name s \<mapsto> length (ss_symbols w))\<rparr>],
                   ss_symbols := ss_symbols w @ [s]\<rparr>))"

definition lookup_local :: "scope_stack \<Rightarrow> scope_ref \<Rightarrow> string \<Rightarrow> sym_ref option" where
  "lookup_local w i x = scope_symbols (ss_scopes w ! i) x"

text \<open>
  The walk along the parents. Its value is \<open>None\<close> if it does not end, \<open>Some None\<close> for the
  null pointer. \<^verbatim>\<open>lookup_mutable\<close> is the same walk; what its caller writes through the
  pointer is \<open>annotate\<close>.
\<close>

partial_function (option) scope_walk ::
  "scope_stack \<Rightarrow> scope_ref option \<Rightarrow> string \<Rightarrow> sym_ref option option"
where
  "scope_walk w s x =
     (case s of
        None \<Rightarrow> Some None
      | Some i \<Rightarrow>
          (case lookup_local w i x of
             Some a \<Rightarrow> Some (Some a)
           | None \<Rightarrow> scope_walk w (scope_parent (ss_scopes w ! i)) x))"

definition scope_lookup :: "scope_stack \<Rightarrow> scope_ref \<Rightarrow> string \<Rightarrow> sym_ref option option" where
  "scope_lookup w i x = scope_walk w (Some i) x"

definition lookup_mutable :: "scope_stack \<Rightarrow> scope_ref \<Rightarrow> string \<Rightarrow> sym_ref option option" where
  "lookup_mutable w i x = scope_walk w (Some i) x"

definition write_provenance :: "sym_ref \<Rightarrow> sym_ref option \<Rightarrow> string \<Rightarrow> scope_stack \<Rightarrow> scope_stack" where
  "write_provenance a root seg w =
     w\<lparr>ss_symbols := (ss_symbols w)[a := (ss_symbols w ! a)
         \<lparr>sym_provenance_root := root, sym_provenance_segment := seg\<rparr>]\<rparr>"

text \<open>
  The helper of the resolver that records the provenance of a bound name. An empty name is
  skipped, and so is one that is not found.
\<close>

definition annotate :: "string \<Rightarrow> sym_ref option \<Rightarrow> string \<Rightarrow> scope_stack \<Rightarrow> scope_stack option" where
  "annotate nm root seg w =
     (if nm = [] then Some w
      else case lookup_mutable w (ss_active w) nm of
        None \<Rightarrow> None
      | Some None \<Rightarrow> Some w
      | Some (Some a) \<Rightarrow> Some (write_provenance a root seg w))"

section \<open>The stack of scopes\<close>

definition new_scope :: "scope_ref option \<Rightarrow> scope" where
  "new_scope p = \<lparr>scope_parent = p, scope_symbols = Map.empty\<rparr>"

definition new_scope_stack :: scope_stack where
  "new_scope_stack = \<lparr>ss_scopes = [new_scope None], ss_active = 0, ss_symbols = []\<rparr>"

definition current_scope :: "scope_stack \<Rightarrow> scope_ref" where
  "current_scope w = ss_active w"

definition global_scope :: "scope_stack \<Rightarrow> scope_ref" where
  "global_scope w = 0"

definition push_scope :: "scope_stack \<Rightarrow> scope_stack" where
  "push_scope w =
     w\<lparr>ss_scopes := ss_scopes w @ [new_scope (Some (ss_active w))], ss_active := length (ss_scopes w)\<rparr>"

text \<open>Leaving the global scope fails the assertion. A scope that is left is kept.\<close>

definition pop_scope :: "scope_stack \<Rightarrow> scope_stack option" where
  "pop_scope w =
     (case scope_parent (ss_scopes w ! ss_active w) of
        None \<Rightarrow> None
      | Some p \<Rightarrow> Some (w\<lparr>ss_active := p\<rparr>))"

text \<open>
  What a pass does with its stack: it enters and leaves scopes, inserts a symbol into the
  current scope, and annotates a binding.
\<close>

datatype scope_cmd =
    Push
  | Pop
  | Declare symbol
  | Annotate string "sym_ref option" string

definition run_cmd :: "scope_cmd \<Rightarrow> scope_stack \<Rightarrow> scope_stack option" where
  "run_cmd c w =
     (case c of
        Push \<Rightarrow> Some (push_scope w)
      | Pop \<Rightarrow> pop_scope w
      | Declare s \<Rightarrow> Some (snd (scope_insert (current_scope w) s w))
      | Annotate nm root seg \<Rightarrow> annotate nm root seg w)"

fun run_cmds :: "scope_cmd list \<Rightarrow> scope_stack \<Rightarrow> scope_stack option" where
  "run_cmds [] w = Some w"
| "run_cmds (c # cs) w = (case run_cmd c w of None \<Rightarrow> None | Some w' \<Rightarrow> run_cmds cs w')"

text \<open>The body of a \<^verbatim>\<open>ScopeStack::Guard\<close>: its constructor pushes, its destructor pops.\<close>

definition guarded :: "scope_cmd list \<Rightarrow> scope_cmd list" where
  "guarded cs = Push # cs @ [Pop]"

end
