(* ===== verification/Scopes_Props.thy ===== *)
theory Scopes_Props
  imports Scopes
begin

text \<open>
  The scope stack against its specification: a stack of finite maps from names to the
  addresses of symbols. The interface \<open>symbol_table\<close> states what a pass relies on, over any
  state with such frames; the interpretation \<open>scoping\<close> proves it for the model of the code.
\<close>

section \<open>The parent chain\<close>

fun chain :: "scope list \<Rightarrow> scope_ref \<Rightarrow> scope_ref list" where
  "chain scs i =
     i # (case scope_parent (scs ! i) of None \<Rightarrow> [] | Some p \<Rightarrow> if p < i then chain scs p else [])"

declare chain.simps [simp del]

text \<open>
  The invariant: the active scope exists, every parent is older than its child, and every name
  points at a symbol that exists and carries that name.
\<close>

definition stack_ok :: "scope_stack \<Rightarrow> bool" where
  "stack_ok w \<longleftrightarrow> ss_active w < length (ss_scopes w)
     \<and> (\<forall>i < length (ss_scopes w). \<forall>p. scope_parent (ss_scopes w ! i) = Some p \<longrightarrow> p < i)
     \<and> (\<forall>i < length (ss_scopes w). \<forall>x a. scope_symbols (ss_scopes w ! i) x = Some a \<longrightarrow>
          a < length (ss_symbols w) \<and> sym_name (ss_symbols w ! a) = x)"

definition frames :: "scope_stack \<Rightarrow> (string \<rightharpoonup> sym_ref) list" where
  "frames w = map (\<lambda>i. scope_symbols (ss_scopes w ! i)) (chain (ss_scopes w) (ss_active w))"

fun first_frame :: "(string \<rightharpoonup> 'a) list \<Rightarrow> string \<Rightarrow> 'a option" where
  "first_frame [] x = None"
| "first_frame (f # fs) x = (case f x of None \<Rightarrow> first_frame fs x | Some a \<Rightarrow> Some a)"

lemma chain_le: "j \<in> set (chain scs i) \<Longrightarrow> j \<le> i"
proof (induction scs i rule: chain.induct)
  case (1 scs i)
  from "1.prems" have "j = i \<or> (\<exists>p. scope_parent (scs ! i) = Some p \<and> p < i \<and> j \<in> set (chain scs p))"
    by (subst (asm) chain.simps) (auto split: option.splits if_splits)
  with "1.IH" show ?case by force
qed

lemma chain_cong: "(\<And>j. j \<le> i \<Longrightarrow> scope_parent (scs ! j) = scope_parent (scs' ! j)) \<Longrightarrow> chain scs i = chain scs' i"
proof (induction scs i rule: chain.induct)
  case (1 scs i)
  have "chain scs p = chain scs' p" if "scope_parent (scs ! i) = Some p" "p < i" for p
    using that "1.prems" by (intro "1.IH") auto
  then show ?case
    by (subst (1 2) chain.simps) (simp add: "1.prems" [of i, symmetric] split: option.split)
qed

lemma scope_walk_first:
  assumes "\<forall>i < length (ss_scopes w). \<forall>p. scope_parent (ss_scopes w ! i) = Some p \<longrightarrow> p < i"
  shows "i < length (ss_scopes w) \<Longrightarrow>
     scope_walk w (Some i) x = Some (first_frame (map (\<lambda>i. scope_symbols (ss_scopes w ! i)) (chain (ss_scopes w) i)) x)"
proof (induction i rule: less_induct)
  case (less i)
  have none: "scope_walk w None x = Some None" by (subst scope_walk.simps) simp
  from less assms have "p < i" "scope_walk w (Some p) x =
     Some (first_frame (map (\<lambda>i. scope_symbols (ss_scopes w ! i)) (chain (ss_scopes w) p)) x)"
    if "scope_parent (ss_scopes w ! i) = Some p" for p
    using that by auto
  then show ?case
    by (subst scope_walk.simps, subst chain.simps)
       (auto simp: lookup_local_def none split: option.split)
qed

lemma lookup_frames:
  "stack_ok w \<Longrightarrow> scope_lookup w (current_scope w) x = Some (first_frame (frames w) x)"
  by (simp add: scope_lookup_def current_scope_def frames_def stack_ok_def scope_walk_first)

lemma frames_ne [simp]: "frames w \<noteq> []"
  by (simp add: frames_def, subst chain.simps, simp)

lemma frames_Cons:
  "frames w = scope_symbols (ss_scopes w ! ss_active w) #
     (case scope_parent (ss_scopes w ! ss_active w) of None \<Rightarrow> []
      | Some p \<Rightarrow> if p < ss_active w then frames (w\<lparr>ss_active := p\<rparr>) else [])"
  unfolding frames_def by (subst chain.simps) (simp split: option.split)

section \<open>The interface\<close>

text \<open>
  A symbol table over states \<open>'s\<close>: its frames, innermost first, map names to addresses, and
  its memory maps an address to the symbol there.
\<close>

locale symbol_table =
  fixes valid :: "'s \<Rightarrow> bool"
    and frames :: "'s \<Rightarrow> (string \<rightharpoonup> sym_ref) list"
    and mem :: "'s \<Rightarrow> sym_ref \<rightharpoonup> symbol"
    and push :: "'s \<Rightarrow> 's"
    and pop :: "'s \<Rightarrow> 's option"
    and ins :: "symbol \<Rightarrow> 's \<Rightarrow> sym_ref option \<times> 's"
    and find :: "'s \<Rightarrow> string \<Rightarrow> sym_ref option option"
    and note_at :: "string \<Rightarrow> sym_ref option \<Rightarrow> string \<Rightarrow> 's \<Rightarrow> 's option"
  assumes push_valid: "valid s \<Longrightarrow> valid (push s)"
    and push_frames: "valid s \<Longrightarrow> frames (push s) = Map.empty # frames s"
    and push_mem: "mem (push s) = mem s"
    and pop_some: "valid s \<Longrightarrow> frames s = f # g # fs \<Longrightarrow>
          \<exists>s'. pop s = Some s' \<and> valid s' \<and> frames s' = g # fs \<and> mem s' = mem s"
    and ins_old: "valid s \<Longrightarrow> frames s = f # fs \<Longrightarrow> f (sym_name y) = Some a \<Longrightarrow> ins y s = (Some a, s)"
    and ins_new: "valid s \<Longrightarrow> frames s = f # fs \<Longrightarrow> f (sym_name y) = None \<Longrightarrow>
          \<exists>a s'. ins y s = (None, s') \<and> valid s' \<and> mem s a = None \<and> mem s' = (mem s)(a \<mapsto> y)
               \<and> frames s' = f(sym_name y \<mapsto> a) # fs"
    and find_frames: "valid s \<Longrightarrow> find s x = Some (first_frame (frames s) x)"
    and named: "valid s \<Longrightarrow> f \<in> set (frames s) \<Longrightarrow> f x = Some a \<Longrightarrow> \<exists>y. mem s a = Some y \<and> sym_name y = x"
    and note_frames: "valid s \<Longrightarrow> \<exists>s'. note_at x r seg s = Some s' \<and> valid s' \<and> frames s' = frames s"
    and note_mem: "valid s \<Longrightarrow> note_at x r seg s = Some s' \<Longrightarrow> mem s a = Some y \<Longrightarrow>
          \<exists>z. mem s' a = Some z \<and> sym_name z = sym_name y"
begin

text \<open>A pointer to a symbol is never left dangling, and the symbol behind it keeps its name.\<close>

definition keeps :: "'s \<Rightarrow> 's \<Rightarrow> bool" where
  "keeps s s' \<longleftrightarrow> (\<forall>a y. mem s a = Some y \<longrightarrow> (\<exists>z. mem s' a = Some z \<and> sym_name z = sym_name y))"

lemma keeps_refl [simp]: "keeps s s" by (simp add: keeps_def)

lemma keeps_trans: "keeps s s' \<Longrightarrow> keeps s' s'' \<Longrightarrow> keeps s s''"
  unfolding keeps_def by metis

lemma ins_keeps: "valid s \<Longrightarrow> frames s \<noteq> [] \<Longrightarrow> valid (snd (ins y s)) \<and> keeps s (snd (ins y s))
    \<and> tl (frames (snd (ins y s))) = tl (frames s)
    \<and> (\<forall>x a. hd (frames s) x = Some a \<longrightarrow> hd (frames (snd (ins y s))) x = Some a)
    \<and> frames (snd (ins y s)) \<noteq> []"
proof -
  assume v: "valid s" and "frames s \<noteq> []"
  then obtain f fs where fr: "frames s = f # fs" by (cases "frames s") auto
  show ?thesis
  proof (cases "f (sym_name y)")
    case None
    from ins_new [OF v fr None] show ?thesis using None by (auto simp: fr keeps_def)
  next
    case (Some a)
    from ins_old [OF v fr Some] v fr show ?thesis by simp
  qed
qed

lemma found_after_insert:
  assumes "valid s" "frames s \<noteq> []" "ins y s = (None, s')"
  shows "\<exists>a. find s' (sym_name y) = Some (Some a) \<and> mem s' a = Some y
           \<and> (\<forall>x. x \<noteq> sym_name y \<longrightarrow> find s' x = find s x)"
proof -
  from assms(2) obtain f fs where fr: "frames s = f # fs" by (cases "frames s") auto
  have n: "f (sym_name y) = None" using ins_old [OF assms(1) fr] assms(3) by (cases "f (sym_name y)") auto
  from ins_new [OF assms(1) fr n] assms(3) obtain a where
    "valid s'" "mem s' = (mem s)(a \<mapsto> y)" "frames s' = f(sym_name y \<mapsto> a) # fs" by auto
  then show ?thesis using assms(1) by (auto simp: find_frames fr)
qed

end

section \<open>The model provides it\<close>

lemma stack_ok_new [simp]: "stack_ok new_scope_stack"
  by (simp add: stack_ok_def new_scope_stack_def new_scope_def)

lemma push_ok: "stack_ok w \<Longrightarrow> stack_ok (push_scope w)"
  by (auto simp: stack_ok_def push_scope_def new_scope_def nth_append less_Suc_eq)

lemma push_frames: "stack_ok w \<Longrightarrow> frames (push_scope w) = Map.empty # frames w"
proof -
  assume ok: "stack_ok w"
  have "chain (ss_scopes w @ [new_scope (Some (ss_active w))]) (ss_active w) = chain (ss_scopes w) (ss_active w)"
    using ok by (intro chain_cong) (auto simp: stack_ok_def nth_append)
  moreover have "\<And>i. i \<in> set (chain (ss_scopes w) (ss_active w)) \<Longrightarrow> i < length (ss_scopes w)"
    using ok chain_le by (fastforce simp: stack_ok_def)
  ultimately show ?thesis
    using ok unfolding frames_def
    by (simp add: push_scope_def, subst chain.simps) (simp add: new_scope_def nth_append stack_ok_def)
qed

lemma pop_refines:
  assumes "stack_ok w" "frames w = f # g # fs"
  shows "\<exists>w'. pop_scope w = Some w' \<and> stack_ok w' \<and> frames w' = g # fs \<and> ss_symbols w' = ss_symbols w"
  using assms(2) unfolding frames_Cons [of w] using assms(1)
  by (fastforce simp: pop_scope_def stack_ok_def split: option.splits if_splits)

lemma insert_refines:
  assumes "stack_ok w" "frames w = f # fs" "f (sym_name y) = None"
  shows "\<exists>w'. scope_insert (current_scope w) y w = (None, w') \<and> stack_ok w' \<and> ss_symbols w' = ss_symbols w @ [y]
           \<and> frames w' = f(sym_name y \<mapsto> length (ss_symbols w)) # fs"
proof -
  define sc where "sc = ss_scopes w ! ss_active w"
  define scs where "scs = (ss_scopes w)[ss_active w := sc\<lparr>scope_symbols := (scope_symbols sc)(sym_name y \<mapsto> length (ss_symbols w))\<rparr>]"
  define w' where "w' = w\<lparr>ss_scopes := scs, ss_symbols := ss_symbols w @ [y]\<rparr>"
  have act: "ss_active w < length (ss_scopes w)" using assms(1) by (simp add: stack_ok_def)
  have f: "f = scope_symbols sc" using assms(2) unfolding frames_Cons [of w] sc_def by simp
  have par: "scope_parent (scs ! j) = scope_parent (ss_scopes w ! j)" for j
    using act by (cases "j = ss_active w") (simp_all add: scs_def sc_def)
  have ch: "chain scs i = chain (ss_scopes w) i" for i by (rule chain_cong) (simp add: par)
  have other: "scope_symbols (scs ! j) = scope_symbols (ss_scopes w ! j)" if "j \<noteq> ss_active w" for j
    using that by (simp add: scs_def)
  have self: "scope_symbols (scs ! ss_active w) = f(sym_name y \<mapsto> length (ss_symbols w))"
    using act by (simp add: scs_def f)
  have entry: "k < length (ss_symbols w @ [y]) \<and> sym_name ((ss_symbols w @ [y]) ! k) = x"
    if "i < length (ss_scopes w)" "scope_symbols (scs ! i) x = Some k" for i x k
  proof (cases "scope_symbols (ss_scopes w ! i) x = Some k")
    case True
    then have "k < length (ss_symbols w) \<and> sym_name (ss_symbols w ! k) = x"
      using assms(1) that(1) by (simp add: stack_ok_def)
    then show ?thesis by (simp add: nth_append)
  next
    case False
    then have "i = ss_active w" using that(2) other by metis
    then have "x = sym_name y \<and> k = length (ss_symbols w)"
      using that(2) False self by (simp add: f sc_def split: if_splits)
    then show ?thesis by simp
  qed
  have "stack_ok w'" unfolding stack_ok_def
    using assms(1) act entry by (simp add: w'_def par stack_ok_def) (simp add: scs_def)
  moreover have "frames w' = f(sym_name y \<mapsto> length (ss_symbols w)) # fs"
  proof -
    have "frames (w'\<lparr>ss_active := p\<rparr>) = frames (w\<lparr>ss_active := p\<rparr>)" if "p < ss_active w" for p
      using that chain_le [of _ "ss_scopes w" p]
      by (fastforce simp: frames_def w'_def ch intro!: other)
    moreover have "scope_parent (scs ! ss_active w) = scope_parent (ss_scopes w ! ss_active w)" by (rule par)
    ultimately show ?thesis using assms(2) unfolding frames_Cons [of w] frames_Cons [of w']
      by (cases "scope_parent (ss_scopes w ! ss_active w)") (auto simp: w'_def self)
  qed
  moreover have "scope_insert (current_scope w) y w = (None, w')"
    using assms(3) by (simp add: scope_insert_def current_scope_def Let_def sc_def [symmetric] f w'_def scs_def)
  ultimately show ?thesis by (auto simp: w'_def)
qed

lemma write_frames: "frames (write_provenance a r g w) = frames w"
  by (simp add: frames_def write_provenance_def)

lemma write_names: "sym_name (ss_symbols (write_provenance a r g w) ! b) = sym_name (ss_symbols w ! b)"
proof (cases "a < length (ss_symbols w)")
  case True then show ?thesis by (simp add: write_provenance_def nth_list_update)
next
  case False then show ?thesis by (simp add: write_provenance_def list_update_beyond)
qed

lemma write_length: "length (ss_symbols (write_provenance a r g w)) = length (ss_symbols w)"
  by (simp add: write_provenance_def)

lemma write_ok: "stack_ok w \<Longrightarrow> stack_ok (write_provenance a r g w)"
  unfolding stack_ok_def write_names write_length
  by (simp add: write_provenance_def)

lemma annotate_cases:
  assumes "stack_ok w"
  shows "annotate x r g w = Some w \<or> (\<exists>a. annotate x r g w = Some (write_provenance a r g w))"
  using assms lookup_frames [OF assms, of x]
  by (auto simp: annotate_def lookup_mutable_def scope_lookup_def current_scope_def split: option.split)

lemma frame_named:
  assumes "stack_ok w" "f \<in> set (frames w)" "f x = Some a"
  shows "\<exists>y. deref w a = Some y \<and> sym_name y = x"
proof -
  from assms(2) obtain i where i: "i \<in> set (chain (ss_scopes w) (ss_active w))" "f = scope_symbols (ss_scopes w ! i)"
    by (auto simp: frames_def)
  then have "i < length (ss_scopes w)" using chain_le [of i] assms(1) by (fastforce simp: stack_ok_def)
  then show ?thesis using assms(1,3) i(2) by (simp add: stack_ok_def deref_def)
qed

interpretation scoping: symbol_table stack_ok frames deref push_scope pop_scope
  "\<lambda>y w. scope_insert (current_scope w) y w" "\<lambda>w. scope_lookup w (current_scope w)" annotate
proof (unfold_locales, goal_cases)
  case (4 s f g fs)
  from pop_refines [OF 4] show ?case by (force simp: deref_def)
next
  case (5 s f fs y a)
  have "f = scope_symbols (ss_scopes s ! ss_active s)" using 5(2) unfolding frames_Cons [of s] by simp
  then show ?case using 5(3) by (simp add: scope_insert_def current_scope_def Let_def)
next
  case (6 s f fs y)
  from insert_refines [OF 6] obtain w' where w: "scope_insert (current_scope s) y s = (None, w')" "stack_ok w'"
    "ss_symbols w' = ss_symbols s @ [y]" "frames w' = f(sym_name y \<mapsto> length (ss_symbols s)) # fs" by blast
  have "deref w' = (deref s)(length (ss_symbols s) \<mapsto> y)"
    using w(3) by (auto simp: deref_def fun_eq_iff nth_append less_Suc_eq)
  with w show ?case by (auto simp: deref_def intro!: exI [of _ "length (ss_symbols s)"])
next
  case (8 s f x a)
  then show ?case by (rule frame_named)
next
  case (9 s x r g)
  from annotate_cases [OF 9, of x r g] show ?case using 9 write_ok write_frames by fastforce
next
  case (10 s x r g s' a y)
  from annotate_cases [OF 10(1), of x r g] 10 show ?case
    by (auto simp: deref_def write_names write_length split: if_splits)
qed (simp_all add: push_ok push_frames lookup_frames, simp add: deref_def push_scope_def fun_eq_iff)

section \<open>Sequences of operations\<close>

text \<open>
  A sequence is balanced from a depth when it never leaves the scope it started in below that
  depth and ends at it; \<open>locals_only\<close> says every declaration of it happens inside a scope it
  opened itself.
\<close>

fun balanced :: "nat \<Rightarrow> scope_cmd list \<Rightarrow> bool" where
  "balanced n [] = (n = 0)"
| "balanced n (Push # cs) = balanced (Suc n) cs"
| "balanced n (Pop # cs) = (0 < n \<and> balanced (n - 1) cs)"
| "balanced n (Declare s # cs) = balanced n cs"
| "balanced n (Annotate x r g # cs) = balanced n cs"

fun locals_only :: "nat \<Rightarrow> scope_cmd list \<Rightarrow> bool" where
  "locals_only n [] = True"
| "locals_only n (Push # cs) = locals_only (Suc n) cs"
| "locals_only n (Pop # cs) = locals_only (n - 1) cs"
| "locals_only n (Declare s # cs) = (0 < n \<and> locals_only n cs)"
| "locals_only n (Annotate x r g # cs) = locals_only n cs"

text \<open>One operation, over the frames: it succeeds when it stays above the outer frames.\<close>

lemma declare_step:
  assumes "stack_ok w"
  shows "stack_ok (snd (scope_insert (current_scope w) s w))
    \<and> scoping.keeps w (snd (scope_insert (current_scope w) s w))
    \<and> tl (frames (snd (scope_insert (current_scope w) s w))) = tl (frames w)
    \<and> frames (snd (scope_insert (current_scope w) s w)) \<noteq> []"
  using scoping.ins_keeps [OF assms] by simp

lemma push_keeps: "scoping.keeps w (push_scope w)"
  unfolding scoping.keeps_def by (simp add: scoping.push_mem)

lemma annotate_step:
  assumes "stack_ok w"
  obtains w' where "annotate x r g w = Some w'" "stack_ok w'" "frames w' = frames w" "scoping.keeps w w'"
  using scoping.note_frames [OF assms, of x r g] scoping.note_mem [OF assms, of x r g]
  unfolding scoping.keeps_def by blast

lemma pop_step:
  assumes "stack_ok w" "2 \<le> length (frames w)"
  obtains w' where "pop_scope w = Some w'" "stack_ok w'" "frames w' = tl (frames w)" "scoping.keeps w w'"
proof -
  obtain f h fs where "frames w = f # h # fs"
    using assms(2) by (cases "frames w"; cases "tl (frames w)") auto
  from scoping.pop_some [OF assms(1) this] this that show thesis
    unfolding scoping.keeps_def by fastforce
qed

lemma run_balanced:
  assumes "stack_ok w" "balanced n cs" "n < length (frames w)"
  shows "\<exists>w'. run_cmds cs w = Some w' \<and> stack_ok w' \<and> scoping.keeps w w'
    \<and> drop (Suc 0) (frames w') = drop (Suc n) (frames w)
    \<and> (locals_only n cs \<longrightarrow> frames w' = drop n (frames w))"
  using assms
proof (induction n cs arbitrary: w rule: balanced.induct)
  case (2 n cs)
  from "2.IH" [of "push_scope w"] "2.prems" obtain w' where
    "run_cmds cs (push_scope w) = Some w'" "stack_ok w'" "scoping.keeps (push_scope w) w'"
    "drop (Suc 0) (frames w') = drop (Suc n) (frames w)" "locals_only (Suc n) cs \<longrightarrow> frames w' = drop n (frames w)"
    by (auto simp: push_ok push_frames)
  then show ?case using scoping.keeps_trans [OF push_keeps] by (fastforce simp: run_cmd_def)
next
  case (3 n cs)
  then have "2 \<le> length (frames w)" by simp
  from pop_step [OF "3.prems"(1) this] obtain v where
    v: "pop_scope w = Some v" "stack_ok v" "frames v = tl (frames w)" "scoping.keeps w v" .
  have d: "drop k (frames v) = drop (Suc k) (frames w)" for k by (simp add: v(3) drop_Suc)
  obtain m where m: "n = Suc m" using "3.prems"(2) by (cases n) auto
  with "3.IH" [of v] "3.prems" v obtain w' where
    "run_cmds cs v = Some w'" "stack_ok w'" "scoping.keeps v w'"
    "drop (Suc 0) (frames w') = drop (Suc m) (frames v)" "locals_only m cs \<longrightarrow> frames w' = drop m (frames v)"
    by fastforce
  then show ?case using scoping.keeps_trans [OF v(4)] v(1) by (simp add: run_cmd_def m d)
next
  case (4 n s cs)
  define v where "v = snd (scope_insert (current_scope w) s w)"
  have v: "stack_ok v" "scoping.keeps w v" "tl (frames v) = tl (frames w)" "frames v \<noteq> []"
    using declare_step [OF "4.prems"(1), of s] by (simp_all add: v_def)
  have len: "length (frames v) = length (frames w)"
    using arg_cong [OF v(3), of length] v(4) frames_ne [of w] by (cases "frames v"; cases "frames w") simp_all
  have d: "drop (Suc k) (frames v) = drop (Suc k) (frames w)" for k using v(3) by (simp add: drop_Suc)
  have d': "drop n (frames v) = drop n (frames w)" if "0 < n" using that d by (cases n) auto
  from "4.IH" [of v] "4.prems" v len d d' show ?case
    using scoping.keeps_trans [OF v(2)] by (auto simp: run_cmd_def v_def [symmetric])
next
  case (5 n x r g cs)
  from annotate_step [OF "5.prems"(1), of x r g] obtain v where
    v: "annotate x r g w = Some v" "stack_ok v" "frames v = frames w" "scoping.keeps w v" .
  from "5.IH" [of v] "5.prems" v show ?case using scoping.keeps_trans [OF v(4)] by (auto simp: run_cmd_def)
qed auto

lemma balanced_append: "balanced m cs \<Longrightarrow> balanced (n + m) (cs @ ds) = balanced n ds"
  by (induction m cs rule: balanced.induct) (auto simp: Suc_diff_Suc)

lemma locals_append: "balanced m cs \<Longrightarrow> locals_only (Suc (n + m)) (cs @ ds) = locals_only (Suc n) ds"
  by (induction m cs rule: balanced.induct) (auto simp: Suc_diff_Suc)

lemma guarded_balanced: "balanced 0 cs \<Longrightarrow> balanced 0 (guarded cs) \<and> locals_only 0 (guarded cs)"
  using balanced_append [of 0 cs "Suc 0" "[Pop]"] locals_append [of 0 cs 0 "[Pop]"] by (simp add: guarded_def)

section \<open>Properties\<close>

text \<open>
  C30: A lookup from the current scope always returns, and returns the entry of the innermost
  enclosing scope that declares the name: the walk along the parents ends because every parent
  is older than its child.
\<close>

theorem lookup_terminates:
  assumes "stack_ok w"
  shows "\<exists>r. scope_lookup w (current_scope w) x = Some r \<and> r = first_frame (frames w) x
     \<and> (\<forall>a. r = Some a \<longrightarrow> (\<exists>y. deref w a = Some y \<and> sym_name y = x))"
proof -
  have "\<exists>f \<in> set fs. f x = Some a" if "first_frame fs x = Some a" for fs :: "(string \<rightharpoonup> sym_ref) list" and a
    using that by (induction fs) (auto split: option.splits)
  then show ?thesis using lookup_frames [OF assms] scoping.named [OF assms] by blast
qed

text \<open>
  C28: A guard leaves the scopes around it as they were: whatever balanced sequence of scopes,
  declarations and annotations runs inside it, the run succeeds, every name resolves afterwards
  to the symbol it resolved to before, and every pointer to a symbol taken before is still
  valid.
\<close>

theorem guard_restores:
  assumes "stack_ok w" "balanced 0 cs"
  shows "\<exists>w'. run_cmds (guarded cs) w = Some w' \<and> stack_ok w' \<and> frames w' = frames w
     \<and> (\<forall>x. scope_lookup w' (current_scope w') x = scope_lookup w (current_scope w) x)
     \<and> (\<forall>a y. deref w a = Some y \<longrightarrow> (\<exists>z. deref w' a = Some z \<and> sym_name z = sym_name y))"
proof -
  from run_balanced [OF assms(1), of 0 "guarded cs"] guarded_balanced [OF assms(2)] obtain w' where
    "run_cmds (guarded cs) w = Some w'" "stack_ok w'" "scoping.keeps w w'" "frames w' = frames w"
    by auto
  then show ?thesis using assms(1) unfolding scoping.keeps_def by (auto simp: lookup_frames)
qed

text \<open>
  C29: Inserting into the current scope: a name it already declares is refused, with the
  existing symbol returned and nothing changed; a new name is found from then on, it shadows
  the enclosing scopes, and no other name is affected.
\<close>

theorem insert_correct:
  assumes "stack_ok w"
  shows "(case scope_insert (current_scope w) s w of
      (Some a, w') \<Rightarrow> w' = w \<and> scope_lookup w (current_scope w) (sym_name s) = Some (Some a)
        \<and> (\<exists>y. deref w a = Some y \<and> sym_name y = sym_name s)
    | (None, w') \<Rightarrow> lookup_local w (current_scope w) (sym_name s) = None
        \<and> (\<exists>a. scope_lookup w' (current_scope w') (sym_name s) = Some (Some a) \<and> deref w' a = Some s)
        \<and> (\<forall>x. x \<noteq> sym_name s \<longrightarrow> scope_lookup w' (current_scope w') x = scope_lookup w (current_scope w) x))"
proof (cases "lookup_local w (current_scope w) (sym_name s)")
  case None
  then obtain w' where i: "scope_insert (current_scope w) s w = (None, w')"
    by (simp add: scope_insert_def lookup_local_def Let_def)
  from scoping.found_after_insert [OF assms frames_ne i] None show ?thesis unfolding i by auto
next
  case (Some a)
  then have i: "scope_insert (current_scope w) s w = (Some a, w)"
    by (simp add: scope_insert_def lookup_local_def Let_def)
  have f: "frames w = scope_symbols (ss_scopes w ! ss_active w) # tl (frames w)"
    by (subst frames_Cons) (subst (2) frames_Cons, simp)
  have n: "scope_symbols (ss_scopes w ! ss_active w) (sym_name s) = Some a"
    using Some by (simp add: lookup_local_def current_scope_def)
  have "first_frame (frames w) (sym_name s) = Some a" by (subst f) (simp add: n)
  moreover have "\<exists>y. deref w a = Some y \<and> sym_name y = sym_name s"
    using assms scoping.named [of w _ "sym_name s" a] n f by (metis list.set_intros(1))
  ultimately show ?thesis using i by (simp add: lookup_frames [OF assms])
qed

text \<open>
  What a run of commands does to the depth, apart from any stack: a run underflows from a depth
  when at some moment it has popped more than it has pushed and the depth allows.
\<close>

definition pushes :: "scope_cmd list \<Rightarrow> nat" where
  "pushes cs = length (filter (\<lambda>c. c = Push) cs)"

definition pops :: "scope_cmd list \<Rightarrow> nat" where
  "pops cs = length (filter (\<lambda>c. c = Pop) cs)"

definition underflows :: "nat \<Rightarrow> scope_cmd list \<Rightarrow> bool" where
  "underflows d cs \<longleftrightarrow> (\<exists>k. d + pushes (take k cs) < pops (take k cs))"

lemma underflows_Nil: "\<not> underflows d []"
  by (simp add: underflows_def pushes_def pops_def)

lemma underflows_Cons:
  "underflows d (c # cs) \<longleftrightarrow>
     (case c of Push \<Rightarrow> underflows (Suc d) cs | Pop \<Rightarrow> d = 0 \<or> underflows (d - 1) cs | _ \<Rightarrow> underflows d cs)"
proof -
  have step: "underflows d (c # cs) \<longleftrightarrow> (\<exists>k. d + pushes (c # take k cs) < pops (c # take k cs))"
    unfolding underflows_def
  proof
    assume "\<exists>k. d + pushes (take k (c # cs)) < pops (take k (c # cs))"
    then obtain k where k: "d + pushes (take k (c # cs)) < pops (take k (c # cs))" ..
    then show "\<exists>k. d + pushes (c # take k cs) < pops (c # take k cs)"
      by (cases k) (auto simp: pushes_def pops_def)
  next
    assume "\<exists>k. d + pushes (c # take k cs) < pops (c # take k cs)"
    then obtain k where "d + pushes (c # take k cs) < pops (c # take k cs)" ..
    then show "\<exists>k. d + pushes (take k (c # cs)) < pops (take k (c # cs))" by (intro exI [of _ "Suc k"]) simp
  qed
  show ?thesis
  proof (cases c)
    case Pop
    have "d = 0 \<Longrightarrow> \<exists>k. d + pushes (c # take k cs) < pops (c # take k cs)"
      by (intro exI [of _ 0]) (simp add: Pop pushes_def pops_def)
    moreover have "d + pushes (c # xs) < pops (c # xs) \<longleftrightarrow> d - 1 + pushes xs < pops xs" if "d \<noteq> 0" for xs
      using that by (auto simp: Pop pushes_def pops_def)
    ultimately show ?thesis unfolding step by (cases "d = 0") (auto simp: Pop underflows_def)
  qed (unfold step, simp_all add: pushes_def pops_def underflows_def)
qed

lemma run_depth:
  assumes "stack_ok w" "length (frames w) = Suc d"
  shows "case run_cmds cs w of
       None \<Rightarrow> underflows d cs
     | Some v \<Rightarrow> \<not> underflows d cs \<and> length (frames v) + pops cs = Suc d + pushes cs"
  using assms
proof (induction cs arbitrary: w d)
  case (Cons c cs)
  show ?case
  proof (cases c)
    case Push
    then show ?thesis using Cons.IH [of "push_scope w" "Suc d"] Cons.prems
      by (auto simp: run_cmd_def push_ok push_frames underflows_Cons pushes_def pops_def split: option.splits)
  next
    case Pop
    show ?thesis
    proof (cases d)
      case 0
      then have "pop_scope w = None"
        using Cons.prems by (subst (asm) frames_Cons) (auto simp: pop_scope_def stack_ok_def frames_ne split: option.splits)
      then show ?thesis by (simp add: Pop 0 run_cmd_def underflows_Cons)
    next
      case (Suc e)
      then have "2 \<le> length (frames w)" using Cons.prems by simp
      from pop_step [OF Cons.prems(1) this] obtain v where v: "pop_scope w = Some v" "stack_ok v" "frames v = tl (frames w)" .
      with Cons.IH [of v e] Cons.prems Suc show ?thesis
        by (auto simp: Pop run_cmd_def underflows_Cons pushes_def pops_def split: option.splits)
    qed
  next
    case (Declare s)
    define v where "v = snd (scope_insert (current_scope w) s w)"
    have v: "stack_ok v" "tl (frames v) = tl (frames w)" "frames v \<noteq> []"
      using declare_step [OF Cons.prems(1), of s] by (simp_all add: v_def)
    have "length (frames v) = Suc d"
      using arg_cong [OF v(2), of length] v(3) Cons.prems(2) by (cases "frames v") simp_all
    with Cons.IH [of v d] v show ?thesis
      by (auto simp: Declare run_cmd_def v_def [symmetric] underflows_Cons pushes_def pops_def split: option.splits)
  next
    case (Annotate x r g)
    from annotate_step [OF Cons.prems(1), of x r g] obtain v where
      v: "annotate x r g w = Some v" "stack_ok v" "frames v = frames w" .
    with Cons.IH [of v d] Cons.prems show ?thesis
      by (auto simp: Annotate run_cmd_def underflows_Cons pushes_def pops_def split: option.splits)
  qed
qed (simp add: underflows_Nil pushes_def pops_def)

text \<open>
  C31: From a fresh stack, a run of pushes, pops, declarations and notes of any length stops at
  the assertion of \<^verbatim>\<open>pop\<close> exactly when at some moment it has popped more often than it has
  pushed; no other command stops it. When it gets to its end, the open scopes are the global
  one and one for every push that no pop has closed.
\<close>

theorem runs_stop_at_underflow:
  "case run_cmds cs new_scope_stack of
     None \<Rightarrow> underflows 0 cs
   | Some w \<Rightarrow> \<not> underflows 0 cs \<and> length (frames w) + pops cs = Suc (pushes cs)"
proof -
  have "length (frames new_scope_stack) = Suc 0" by (simp add: frames_def new_scope_stack_def new_scope_def chain.simps)
  from run_depth [OF stack_ok_new this, of cs] show ?thesis unfolding add_Suc add_0 .
qed

section \<open>Witnesses\<close>

definition sample_symbol :: "string \<Rightarrow> symbol" where
  "sample_symbol x = \<lparr>sym_name = x, sym_kind = SymLocal, sym_decl = None, sym_type = None,
     sym_definition_range = no_range, sym_visibility = Internal, sym_provenance_root = None,
     sym_provenance_segment = []\<rparr>"

definition sample_stack :: scope_stack where
  "sample_stack = push_scope (snd (scope_insert 0 (sample_symbol ''x'') new_scope_stack))"

lemma sample_stack_ok: "stack_ok sample_stack"
  unfolding sample_stack_def
  using declare_step [OF stack_ok_new, of "sample_symbol ''x''"]
  by (intro push_ok) (simp add: current_scope_def, simp add: new_scope_stack_def)

theorem lookup_terminates_witness: "scope_lookup sample_stack (current_scope sample_stack) ''x'' = Some (Some 0)"
proof -
  have "first_frame (frames sample_stack) ''x'' = Some 0"
    by (simp add: sample_stack_def frames_def push_scope_def scope_insert_def new_scope_stack_def new_scope_def
        sample_symbol_def chain.simps)
  then show ?thesis using lookup_terminates [OF sample_stack_ok, of "''x''"] by simp
qed

theorem guard_restores_witness:
  "\<exists>w'. run_cmds (guarded [Declare (sample_symbol ''x''), Push, Annotate ''x'' (Some 0) ''s'', Pop]) sample_stack = Some w'
     \<and> scope_lookup w' (current_scope w') ''x'' = Some (Some 0)"
  using guard_restores [OF sample_stack_ok, of "[Declare (sample_symbol ''x''), Push, Annotate ''x'' (Some 0) ''s'', Pop]"]
    lookup_frames [OF sample_stack_ok, of "''x''"]
  by (force simp: sample_stack_def frames_def push_scope_def scope_insert_def new_scope_stack_def new_scope_def
      sample_symbol_def chain.simps)

theorem insert_correct_witness:
  "\<exists>a w'. scope_insert (current_scope sample_stack) (sample_symbol ''y'') sample_stack = (None, w')
     \<and> scope_lookup w' (current_scope w') ''y'' = Some (Some a)"
proof -
  obtain w' where i: "scope_insert (current_scope sample_stack) (sample_symbol ''y'') sample_stack = (None, w')"
    by (simp add: sample_stack_def push_scope_def scope_insert_def new_scope_stack_def new_scope_def
        sample_symbol_def current_scope_def)
  then show ?thesis using insert_correct [OF sample_stack_ok, of "sample_symbol ''y''"]
    by (auto simp: sample_symbol_def)
qed

end
