(* ===== verification/Resolution.thy ===== *)
theory Resolution
  imports Scopes
begin

text \<open>
  The side tables of the resolver, class \<^verbatim>\<open>Resolution\<close> of
  \<^verbatim>\<open>include/vestra/sema/resolver.hpp\<close> and \<^verbatim>\<open>src/sema/resolver.cpp\<close>, keyed by the addresses
  of the nodes. The table of folded values is polymorphic in the value. The checkers that run
  after the resolver read the tables and follow the symbol pointers in them: what a pointer
  points at is the function \<open>symbol_at\<close>, total because every recorded pointer is valid.
\<close>

record 'v resolution =
  expr_types :: "nat \<rightharpoonup> type_ptr"
  expr_symbols :: "nat \<rightharpoonup> sym_ref option"
  qualified_names :: "nat \<rightharpoonup> string"
  string_coercions :: "nat set"
  folded :: "nat \<rightharpoonup> 'v"
  gated_decls :: "nat set"
  do_catch_error :: "nat \<rightharpoonup> ty"
  binding_symbols :: "nat \<rightharpoonup> sym_ref option"

definition empty_resolution :: "'v resolution" where
  "empty_resolution = \<lparr>expr_types = Map.empty, expr_symbols = Map.empty, qualified_names = Map.empty,
     string_coercions = {}, folded = Map.empty, gated_decls = {}, do_catch_error = Map.empty,
     binding_symbols = Map.empty\<rparr>"

section \<open>Reading\<close>

definition type_of_expr :: "'v resolution \<Rightarrow> expr \<Rightarrow> type_ptr" where
  "type_of_expr r e = (case expr_types r (expr_addr e) of None \<Rightarrow> None | Some t \<Rightarrow> t)"

definition symbol_of :: "'v resolution \<Rightarrow> expr \<Rightarrow> sym_ref option" where
  "symbol_of r e = (case expr_symbols r (expr_addr e) of None \<Rightarrow> None | Some s \<Rightarrow> s)"

definition binding_symbol :: "'v resolution \<Rightarrow> stmt \<Rightarrow> sym_ref option" where
  "binding_symbol r s = (case binding_symbols r (stmt_addr s) of None \<Rightarrow> None | Some a \<Rightarrow> a)"

definition qualified_name_of :: "'v resolution \<Rightarrow> expr \<Rightarrow> string option" where
  "qualified_name_of r e = qualified_names r (expr_addr e)"

definition needs_string_coercion :: "'v resolution \<Rightarrow> expr \<Rightarrow> bool" where
  "needs_string_coercion r e \<longleftrightarrow> expr_addr e \<in> string_coercions r"

definition folded_value :: "'v resolution \<Rightarrow> expr \<Rightarrow> 'v option" where
  "folded_value r e = folded r (expr_addr e)"

definition is_gated_out :: "'v resolution \<Rightarrow> decl \<Rightarrow> bool" where
  "is_gated_out r d \<longleftrightarrow> node_id d \<in> gated_decls r"

definition do_catch_error_type :: "'v resolution \<Rightarrow> expr \<Rightarrow> type_ptr" where
  "do_catch_error_type r dc = do_catch_error r (expr_addr dc)"

section \<open>Writing\<close>

definition set_type :: "expr \<Rightarrow> type_ptr \<Rightarrow> 'v resolution \<Rightarrow> 'v resolution" where
  "set_type e t r = r\<lparr>expr_types := (expr_types r)(expr_addr e \<mapsto> t)\<rparr>"

definition set_symbol :: "expr \<Rightarrow> sym_ref option \<Rightarrow> 'v resolution \<Rightarrow> 'v resolution" where
  "set_symbol e s r = r\<lparr>expr_symbols := (expr_symbols r)(expr_addr e \<mapsto> s)\<rparr>"

definition set_binding_symbol :: "stmt \<Rightarrow> sym_ref option \<Rightarrow> 'v resolution \<Rightarrow> 'v resolution" where
  "set_binding_symbol s a r = r\<lparr>binding_symbols := (binding_symbols r)(stmt_addr s \<mapsto> a)\<rparr>"

definition set_qualified_name :: "expr \<Rightarrow> string \<Rightarrow> 'v resolution \<Rightarrow> 'v resolution" where
  "set_qualified_name e n r = r\<lparr>qualified_names := (qualified_names r)(expr_addr e \<mapsto> n)\<rparr>"

definition mark_string_coercion :: "expr \<Rightarrow> 'v resolution \<Rightarrow> 'v resolution" where
  "mark_string_coercion e r = r\<lparr>string_coercions := insert (expr_addr e) (string_coercions r)\<rparr>"

definition set_folded_value :: "expr \<Rightarrow> 'v \<Rightarrow> 'v resolution \<Rightarrow> 'v resolution" where
  "set_folded_value e v r = r\<lparr>folded := (folded r)(expr_addr e \<mapsto> v)\<rparr>"

definition mark_gated_out :: "decl \<Rightarrow> 'v resolution \<Rightarrow> 'v resolution" where
  "mark_gated_out d r = r\<lparr>gated_decls := insert (node_id d) (gated_decls r)\<rparr>"

definition set_do_catch_error_type :: "expr \<Rightarrow> type_ptr \<Rightarrow> 'v resolution \<Rightarrow> 'v resolution" where
  "set_do_catch_error_type dc t r =
     (case t of None \<Rightarrow> r | Some u \<Rightarrow> r\<lparr>do_catch_error := (do_catch_error r)(expr_addr dc \<mapsto> u)\<rparr>)"

text \<open>A string view that flows into a \<^verbatim>\<open>String\<close> slot is marked for conversion.\<close>

definition note_string_coercion :: "expr \<Rightarrow> type_ptr \<Rightarrow> type_ptr \<Rightarrow> 'v resolution \<Rightarrow> 'v resolution" where
  "note_string_coercion e from_t to_t r =
     (case (from_t, to_t) of
        (Some f, Some t) \<Rightarrow>
          (if ty_kind t \<noteq> KString then r
           else if ty_kind f = KStrConst \<or> ty_kind f = KStr then mark_string_coercion e r else r)
      | _ \<Rightarrow> r)"

section \<open>What a checker is given\<close>

record 'v sema_info =
  tables :: "'v resolution"
  symbol_at :: "sym_ref \<Rightarrow> symbol"

text \<open>The function declaration behind the symbol of a callee, if it is one.\<close>

definition is_func_decl :: "decl \<Rightarrow> bool" where
  "is_func_decl d \<longleftrightarrow> (case d of FuncDecl _ _ _ _ _ _ _ _ _ _ _ _ _ \<Rightarrow> True | _ \<Rightarrow> False)"

definition func_params :: "decl \<Rightarrow> (tyx, expr, pattern) param list" where
  "func_params d = (case d of FuncDecl _ _ _ _ _ _ _ _ _ ps _ _ _ \<Rightarrow> ps | _ \<Rightarrow> [])"

definition body_of :: "decl \<Rightarrow> expr option" where
  "body_of d = (case d of FuncDecl _ _ _ _ _ _ _ _ _ _ _ _ b \<Rightarrow> b | _ \<Rightarrow> None)"

lemma tables_simps [simp]:
  "type_of_expr (set_symbol e a r) x = type_of_expr r x"
  "symbol_of (set_type e t r) x = symbol_of r x"
  "type_of_expr (set_type e t r) x = (if expr_addr x = expr_addr e then t else type_of_expr r x)"
  "symbol_of (set_symbol e a r) x = (if expr_addr x = expr_addr e then a else symbol_of r x)"
  "binding_symbol (set_binding_symbol s a r) u = (if stmt_addr u = stmt_addr s then a else binding_symbol r u)"
  "binding_symbol (set_symbol e a r) u = binding_symbol r u"
  "binding_symbol (set_type e t r) u = binding_symbol r u"
  by (simp_all add: type_of_expr_def set_symbol_def symbol_of_def set_type_def binding_symbol_def set_binding_symbol_def)

end
