(* ===== verification/Exclusivity.thy ===== *)
theory Exclusivity
  imports Resolution
begin

text \<open>
  The law of exclusivity, \<^verbatim>\<open>include/vestra/sema/exclusivity.hpp\<close> and
  \<^verbatim>\<open>src/sema/exclusivity.cpp\<close>: every call gathers the borrows of its arguments and reports
  each pair that overlaps and conflicts. The checker keeps no state of its own; a function of
  the class is a function from the reporter to the reporter.
\<close>

section \<open>Places\<close>

datatype (plugins only: code) access = ReadAccess | InoutAccess

text \<open>The root is never null: no place without a root is built.\<close>

record place =
  place_root :: sym_ref
  place_path :: "string list"

record borrow =
  borrow_place :: place
  borrow_access :: access
  borrow_site :: source_range

definition is_storage_kind :: "symbol_kind \<Rightarrow> bool" where
  "is_storage_kind k \<longleftrightarrow> k = SymLocal \<or> k = SymParameter"

definition symbol_place :: "'v sema_info \<Rightarrow> sym_ref option \<Rightarrow> place option" where
  "symbol_place si a =
     (case a of
        None \<Rightarrow> None
      | Some s \<Rightarrow>
          (let sym = symbol_at si s in
           if \<not> is_storage_kind (sym_kind sym) then None
           else case sym_provenance_root sym of
             Some root \<Rightarrow> Some \<lparr>place_root = root, place_path = [sym_provenance_segment sym]\<rparr>
           | None \<Rightarrow> Some \<lparr>place_root = s, place_path = []\<rparr>))"

function as_place :: "'v sema_info \<Rightarrow> expr \<Rightarrow> place option" where
  "as_place si e =
     (case e of
        ParenExpr h inner \<Rightarrow> as_place si inner
      | IdentExpr h name \<Rightarrow> symbol_place si (symbol_of (tables si) e)
      | MemberExpr h base member sp chain \<Rightarrow>
          (case as_place si base of
             None \<Rightarrow> None
           | Some p \<Rightarrow> Some (p\<lparr>place_path := place_path p @ [CHR ''.'' # member]\<rparr>))
      | _ \<Rightarrow> None)"
  by pat_completeness auto
termination by (relation "measure (\<lambda>(si, e). size e)") auto

declare as_place.simps [simp del]

definition overlap :: "place \<Rightarrow> place \<Rightarrow> bool" where
  "overlap a b \<longleftrightarrow>
     (if place_root a \<noteq> place_root b then False
      else let shorter = (if length (place_path a) < length (place_path b) then place_path a else place_path b);
               longer = (if length (place_path a) < length (place_path b) then place_path b else place_path a)
           in \<forall>i < length shorter. shorter ! i = longer ! i)"

definition conflict :: "access \<Rightarrow> access \<Rightarrow> bool" where
  "conflict a b \<longleftrightarrow> a = InoutAccess \<or> b = InoutAccess"

definition render_place :: "'v sema_info \<Rightarrow> place \<Rightarrow> string" where
  "render_place si p =
     (let root = sym_name (symbol_at si (place_root p)) in
      case place_path p of
        [CHR ''@'' # _] \<Rightarrow> ''a sub-view of '' @ [chr_squote] @ root @ [chr_squote]
      | path \<Rightarrow> [chr_squote] @ root @ concat path @ [chr_squote])"

section \<open>The borrows of a call\<close>

definition callee_func :: "'v sema_info \<Rightarrow> expr \<Rightarrow> decl option" where
  "callee_func si callee =
     (case symbol_of (tables si) callee of
        None \<Rightarrow> None
      | Some s \<Rightarrow>
          (case sym_decl (symbol_at si s) of
             None \<Rightarrow> None
           | Some d \<Rightarrow> if is_func_decl d then Some d else None))"

definition declared_mode :: "decl option \<Rightarrow> nat \<Rightarrow> param_mode" where
  "declared_mode fn i =
     (case fn of
        None \<Rightarrow> Read
      | Some d \<Rightarrow> if i < length (func_params d) then param_mode (func_params d ! i) else Read)"

definition borrow_of_arg :: "'v sema_info \<Rightarrow> decl option \<Rightarrow> nat \<Rightarrow> expr call_arg \<Rightarrow> borrow option" where
  "borrow_of_arg si fn i arg =
     (let mode = (if arg_is_inout arg then Inout else declared_mode fn i) in
      if mode = Sink then None
      else case as_place si (arg_value arg) of
        None \<Rightarrow> None
      | Some p \<Rightarrow> Some \<lparr>borrow_place = p,
                       borrow_access = (if mode = Inout then InoutAccess else ReadAccess),
                       borrow_site = expr_range (arg_value arg)\<rparr>)"

fun arg_borrows :: "'v sema_info \<Rightarrow> decl option \<Rightarrow> nat \<Rightarrow> expr call_arg list \<Rightarrow> borrow list" where
  "arg_borrows si fn i [] = []"
| "arg_borrows si fn i (a # as) =
     (case borrow_of_arg si fn i a of None \<Rightarrow> [] | Some b \<Rightarrow> [b]) @ arg_borrows si fn (Suc i) as"

text \<open>The collection methods that take their receiver by inout.\<close>

definition receiver_borrowed_inout :: "'v sema_info \<Rightarrow> expr \<Rightarrow> string \<Rightarrow> bool" where
  "receiver_borrowed_inout si base member \<longleftrightarrow>
     (case type_of_expr (tables si) base of
        None \<Rightarrow> False
      | Some t \<Rightarrow>
          (case ty_kind t of
             KVec \<Rightarrow> member = ''push'' \<or> member = ''pop'' \<or> member = ''set'' \<or> member = ''clear''
           | KString \<Rightarrow> member = ''append''
           | KHashMap \<Rightarrow> member = ''set''
           | _ \<Rightarrow> False))"

definition receiver_borrow :: "'v sema_info \<Rightarrow> expr \<Rightarrow> borrow list" where
  "receiver_borrow si callee =
     (case callee of
        MemberExpr h base member sp chain \<Rightarrow>
          (if receiver_borrowed_inout si base member
           then case as_place si base of
                  None \<Rightarrow> []
                | Some p \<Rightarrow> [\<lparr>borrow_place = p, borrow_access = InoutAccess, borrow_site = expr_range base\<rparr>]
           else [])
      | _ \<Rightarrow> [])"

definition call_borrows :: "'v sema_info \<Rightarrow> expr \<Rightarrow> expr call_arg list \<Rightarrow> borrow list" where
  "call_borrows si callee args = arg_borrows si (callee_func si callee) 0 args @ receiver_borrow si callee"

section \<open>The conflict scan\<close>

definition access_word :: "access \<Rightarrow> string" where
  "access_word a = (if a = InoutAccess then ''inout'' else ''read'')"

definition conflict_diag :: "'v sema_info \<Rightarrow> borrow \<Rightarrow> borrow \<Rightarrow> diagnostic" where
  "conflict_diag si a b =
     (let same = (place_path (borrow_place a) = place_path (borrow_place b));
          reason = (if same
            then render_place si (borrow_place a) @ '' is borrowed twice with incompatible modes''
            else render_place si (borrow_place a) @ '' and '' @ render_place si (borrow_place b)
                   @ '' overlap with incompatible borrow modes'')
      in with_note (diag_at (borrow_site b)
             (diag_note (''second borrow is here ('' @ access_word (borrow_access b) @ '')'')))
           (with_note (diag_at (borrow_site a)
               (diag_note (''first borrow is here ('' @ access_word (borrow_access a) @ '')'')))
             (diag_at (borrow_site b) (diag_error reason))))"

definition clash :: "borrow \<Rightarrow> borrow \<Rightarrow> bool" where
  "clash a b \<longleftrightarrow> overlap (borrow_place a) (borrow_place b) \<and> conflict (borrow_access a) (borrow_access b)"

fun scan_against :: "'v sema_info \<Rightarrow> borrow \<Rightarrow> borrow list \<Rightarrow> reporter \<Rightarrow> reporter" where
  "scan_against si a [] r = r"
| "scan_against si a (b # bs) r =
     scan_against si a bs (if clash a b then report (conflict_diag si a b) r else r)"

fun scan_borrows :: "'v sema_info \<Rightarrow> borrow list \<Rightarrow> reporter \<Rightarrow> reporter" where
  "scan_borrows si [] r = r"
| "scan_borrows si (a # bs) r = scan_borrows si bs (scan_against si a bs r)"

section \<open>The traversal\<close>

text \<open>
  \<^verbatim>\<open>check_expr\<close>, \<^verbatim>\<open>check_stmt\<close> and \<^verbatim>\<open>check_call\<close>, with a function for each loop over a
  list of children and one for a child pointer that is tested for null.
\<close>

function (sequential)
      ex_expr :: "'v sema_info \<Rightarrow> expr \<Rightarrow> reporter \<Rightarrow> reporter"
  and ex_opt :: "'v sema_info \<Rightarrow> expr option \<Rightarrow> reporter \<Rightarrow> reporter"
  and ex_exprs :: "'v sema_info \<Rightarrow> expr list \<Rightarrow> reporter \<Rightarrow> reporter"
  and ex_args :: "'v sema_info \<Rightarrow> expr call_arg list \<Rightarrow> reporter \<Rightarrow> reporter"
  and ex_arms :: "'v sema_info \<Rightarrow> (pattern, expr) match_arm list \<Rightarrow> reporter \<Rightarrow> reporter"
  and ex_call :: "'v sema_info \<Rightarrow> expr \<Rightarrow> expr call_arg list \<Rightarrow> reporter \<Rightarrow> reporter"
  and ex_stmt :: "'v sema_info \<Rightarrow> stmt \<Rightarrow> reporter \<Rightarrow> reporter"
  and ex_stmts :: "'v sema_info \<Rightarrow> stmt list \<Rightarrow> reporter \<Rightarrow> reporter"
where
  "ex_expr si e =
     (case e of
        CallExpr h callee targs args \<Rightarrow> ex_call si callee args
      | ParenExpr h inner \<Rightarrow> ex_expr si inner
      | UnaryExpr h op operand \<Rightarrow> ex_expr si operand
      | BinaryExpr h op a b \<Rightarrow> (\<lambda>r. ex_expr si b (ex_expr si a r))
      | MemberExpr h base member sp chain \<Rightarrow> ex_expr si base
      | IndexExpr h base indices targs \<Rightarrow> (\<lambda>r. ex_exprs si indices (ex_expr si base r))
      | IfExpr h nm let_init cond then_b else_b \<Rightarrow>
          (\<lambda>r. ex_opt si else_b (ex_opt si then_b
                 (if cond \<noteq> None then ex_opt si cond r else ex_opt si let_init r)))
      | MatchExpr h scrutinee arms \<Rightarrow> (\<lambda>r. ex_arms si arms (ex_expr si scrutinee r))
      | BlockExpr h stmts \<Rightarrow> ex_stmts si stmts
      | CopyExpr h inner \<Rightarrow> ex_expr si inner
      | AwaitExpr h inner \<Rightarrow> ex_expr si inner
      | SpawnExpr h inner \<Rightarrow> ex_expr si inner
      | ThrowExpr h inner \<Rightarrow> ex_expr si inner
      | TryExpr h form inner \<Rightarrow> ex_expr si inner
      | DoCatchExpr h do_body nm err guard catch_body \<Rightarrow>
          (\<lambda>r. ex_expr si catch_body (ex_expr si do_body r))
      | AsExpr h v target opt \<Rightarrow> ex_expr si v
      | VectorLitExpr h elements \<Rightarrow> ex_exprs si elements
      | _ \<Rightarrow> (\<lambda>r. r))"
| "ex_opt si None = (\<lambda>r. r)"
| "ex_opt si (Some e) = ex_expr si e"
| "ex_exprs si [] = (\<lambda>r. r)"
| "ex_exprs si (e # es) = (\<lambda>r. ex_exprs si es (ex_expr si e r))"
| "ex_args si [] = (\<lambda>r. r)"
| "ex_args si (Arg l io e # as) = (\<lambda>r. ex_args si as (ex_expr si e r))"
| "ex_arms si [] = (\<lambda>r. r)"
| "ex_arms si (MatchArm p g b d # arms) = (\<lambda>r. ex_arms si arms (ex_opt si b (ex_opt si g r)))"
| "ex_call si callee args =
     (\<lambda>r. scan_borrows si (call_borrows si callee args) (ex_args si args (ex_expr si callee r)))"
| "ex_stmt si s =
     (case s of
        LetStmt h pat t v \<Rightarrow> ex_opt si v
      | VarStmt h pat t v \<Rightarrow> ex_opt si v
      | ExprStmt h e \<Rightarrow> ex_expr si e
      | ReturnStmt h v \<Rightarrow> ex_opt si v
      | AssignStmt h op target v \<Rightarrow> (\<lambda>r. ex_expr si v (ex_opt si target r))
      | WhileStmt h l cond body \<Rightarrow> (\<lambda>r. ex_opt si body (ex_expr si cond r))
      | ForStmt h l pat iter body \<Rightarrow> (\<lambda>r. ex_opt si body (ex_expr si iter r))
      | _ \<Rightarrow> (\<lambda>r. r))"
| "ex_stmts si [] = (\<lambda>r. r)"
| "ex_stmts si (s # ss) = (\<lambda>r. ex_stmts si ss (ex_stmt si s r))"
  by pat_completeness auto
termination
  by (relation "measure (case_sum
       (case_sum (case_sum (\<lambda>(_, e). 2 * size e) (\<lambda>(_, x). 2 * size_option size x))
                 (case_sum (\<lambda>(_, es). 2 * size_list size es) (\<lambda>(_, as). 2 * size_list (size_call_arg size) as)))
       (case_sum (case_sum (\<lambda>(_, arms). 2 * size_list (size_match_arm size size) arms)
                           (\<lambda>(_, c, as). 2 * (size c + size_list (size_call_arg size) as) + 1))
                 (case_sum (\<lambda>(_, s). 2 * size s) (\<lambda>(_, ss). 2 * size_list size ss))))") auto

section \<open>Functions, declarations and the whole unit\<close>

definition async_inout_diag :: "string \<Rightarrow> (tyx, expr, pattern) param \<Rightarrow> diagnostic" where
  "async_inout_diag fname p =
     diag_at (param_range p) (diag_error
       (''async function '' @ [chr_squote] @ fname @ [chr_squote] @ '' cannot take an `inout` parameter (''
        @ [chr_squote] @ (if param_name p = [] then param_label p else param_name p) @ [chr_squote]
        @ '') '' @ em_dash @ '' a mutable borrow cannot survive a suspension (no borrow across await)''))"

fun async_params :: "string \<Rightarrow> (tyx, expr, pattern) param list \<Rightarrow> reporter \<Rightarrow> reporter" where
  "async_params fname [] r = r"
| "async_params fname (p # ps) r =
     async_params fname ps (if param_mode p = Inout then report (async_inout_diag fname p) r else r)"

definition ex_func :: "'v sema_info \<Rightarrow> bool \<Rightarrow> string \<Rightarrow> (tyx, expr, pattern) param list
    \<Rightarrow> expr option \<Rightarrow> reporter \<Rightarrow> reporter" where
  "ex_func si is_async fname ps body r =
     (let r1 = (if is_async then async_params fname ps r else r)
      in case body of None \<Rightarrow> r1 | Some b \<Rightarrow> ex_expr si b r1)"

function (sequential)
      ex_decl :: "'v sema_info \<Rightarrow> decl \<Rightarrow> reporter \<Rightarrow> reporter"
  and ex_decls :: "'v sema_info \<Rightarrow> decl list \<Rightarrow> reporter \<Rightarrow> reporter"
where
  "ex_decl si d =
     (case d of
        FuncDecl h attrs vis is_async ct recv nm ns gens ps eff res body \<Rightarrow> ex_func si is_async nm ps body
      | StructDecl h attrs vis lin nm gens fs methods deinit \<Rightarrow> ex_decls si methods
      | EnumDecl h attrs vis nm gens cases methods \<Rightarrow> ex_decls si methods
      | ExtensionDecl h attrs vis target confs members \<Rightarrow> ex_decls si members
      | _ \<Rightarrow> (\<lambda>r. r))"
| "ex_decls si [] = (\<lambda>r. r)"
| "ex_decls si (d # ds) = (\<lambda>r. ex_decls si ds (ex_decl si d r))"
  by pat_completeness auto
termination
  by (relation "measure (case_sum (\<lambda>(_, d). size d) (\<lambda>(_, ds). size_list size ds))") auto

definition exclusivity_check :: "'v sema_info \<Rightarrow> compilation_unit \<Rightarrow> reporter \<Rightarrow> reporter" where
  "exclusivity_check si u = ex_decls si (unit_decls u)"

declare ex_expr.simps [simp del] ex_stmt.simps [simp del] ex_decl.simps [simp del]

end
