(* ===== verification/Traversal.thy ===== *)
theory Traversal
  imports Ast
begin

text \<open>
  The parts of a program that run: the nodes directly below an expression or a statement, in
  the order they are evaluated, and the nodes inside it. The checkers are stated against this
  relation, which does not depend on how they walk the tree. Code that is only quoted, a
  pattern and a type are not parts that run; a macro call runs as its expansion.
\<close>

datatype node = ExprNode expr | StmtNode stmt

definition opt_node :: "expr option \<Rightarrow> node list" where
  "opt_node x = (case x of None \<Rightarrow> [] | Some e \<Rightarrow> [ExprNode e])"

lemma opt_node_simps [simp]:
  "opt_node None = []"
  "opt_node (Some e) = [ExprNode e]"
  by (simp_all add: opt_node_def)

definition arm_nodes :: "(pattern, expr) match_arm \<Rightarrow> node list" where
  "arm_nodes a = opt_node (arm_guard a) @ opt_node (arm_body a)"

definition select_nodes :: "(pattern, expr) select_arm \<Rightarrow> node list" where
  "select_nodes a = opt_node (sel_event a) @ opt_node (sel_body a)"

definition direct_expr :: "expr \<Rightarrow> node list" where
  "direct_expr e =
     (case e of
        CallExpr h f ts args \<Rightarrow> ExprNode f # map (\<lambda>a. ExprNode (arg_value a)) args
      | MemberExpr h b m sp ch \<Rightarrow> [ExprNode b]
      | IndexExpr h b is ts \<Rightarrow> ExprNode b # map ExprNode is
      | UnaryExpr h op a \<Rightarrow> [ExprNode a]
      | BinaryExpr h op a b \<Rightarrow> [ExprNode a, ExprNode b]
      | AsExpr h a t opt \<Rightarrow> [ExprNode a]
      | IfExpr h nm li c t f \<Rightarrow> (if c \<noteq> None then opt_node c else opt_node li) @ opt_node t @ opt_node f
      | MatchExpr h s arms \<Rightarrow> ExprNode s # concat (map arm_nodes arms)
      | SelectExpr h arms d td tb \<Rightarrow> concat (map select_nodes arms) @ opt_node d @ opt_node td @ opt_node tb
      | BlockExpr h ss \<Rightarrow> map StmtNode ss
      | ClosureExpr h ps ss \<Rightarrow> map StmtNode ss
      | ComptimeExpr h a \<Rightarrow> [ExprNode a]
      | InterpStringExpr h segs \<Rightarrow> concat (map (\<lambda>s. opt_node (seg_expr s)) segs)
      | MacroCallExpr h nm args x \<Rightarrow> opt_node x
      | AwaitExpr h a \<Rightarrow> [ExprNode a]
      | SpawnExpr h a \<Rightarrow> [ExprNode a]
      | CopyExpr h a \<Rightarrow> [ExprNode a]
      | ThrowExpr h a \<Rightarrow> [ExprNode a]
      | AddressOfExpr h a \<Rightarrow> [ExprNode a]
      | DoCatchExpr h b nm t g c \<Rightarrow> ExprNode b # opt_node g @ [ExprNode c]
      | TryExpr h fm a \<Rightarrow> [ExprNode a]
      | VectorLitExpr h es \<Rightarrow> map ExprNode es
      | TupleLitExpr h es \<Rightarrow> map ExprNode es
      | ParenExpr h a \<Rightarrow> [ExprNode a]
      | _ \<Rightarrow> [])"

definition direct_stmt :: "stmt \<Rightarrow> node list" where
  "direct_stmt s =
     (case s of
        LetStmt h p t v \<Rightarrow> opt_node v
      | VarStmt h p t v \<Rightarrow> opt_node v
      | ExprStmt h e \<Rightarrow> [ExprNode e]
      | ReturnStmt h v \<Rightarrow> opt_node v
      | ForStmt h l p it b \<Rightarrow> ExprNode it # opt_node b
      | WhileStmt h l c b \<Rightarrow> ExprNode c # opt_node b
      | WithStmt h bs b \<Rightarrow> concat (map (\<lambda>x. opt_node (wb_value x)) bs) @ opt_node b
      | AssignStmt h op t v \<Rightarrow> opt_node t @ [ExprNode v]
      | _ \<Rightarrow> [])"

lemma direct_expr_simps [simp]:
  "\<And>x1 x2. direct_expr (IntLit x1 x2) = []"
  "\<And>x1 x2. direct_expr (FloatLit x1 x2) = []"
  "\<And>x1 x2. direct_expr (StringLit x1 x2) = []"
  "\<And>x1 x2. direct_expr (ByteStringLit x1 x2) = []"
  "\<And>x1 x2. direct_expr (CharLit x1 x2) = []"
  "\<And>x1 x2. direct_expr (BoolLit x1 x2) = []"
  "\<And>x1. direct_expr (NilLit x1) = []"
  "\<And>x1. direct_expr (SelfExpr x1) = []"
  "\<And>x1 x2. direct_expr (IdentExpr x1 x2) = []"
  "\<And>x1 x2. direct_expr (LeadingDotExpr x1 x2) = []"
  "\<And>x1 x2. direct_expr (PathExpr x1 x2) = []"
  "\<And>h f ts args. direct_expr (CallExpr h f ts args) = ExprNode f # map (\<lambda>a. ExprNode (arg_value a)) args"
  "\<And>h b m sp ch. direct_expr (MemberExpr h b m sp ch) = [ExprNode b]"
  "\<And>h b is ts. direct_expr (IndexExpr h b is ts) = ExprNode b # map ExprNode is"
  "\<And>h op a. direct_expr (UnaryExpr h op a) = [ExprNode a]"
  "\<And>h op a b. direct_expr (BinaryExpr h op a b) = [ExprNode a, ExprNode b]"
  "\<And>h a t opt. direct_expr (AsExpr h a t opt) = [ExprNode a]"
  "\<And>h nm li c t f. direct_expr (IfExpr h nm li c t f) = (if c \<noteq> None then opt_node c else opt_node li) @ opt_node t @ opt_node f"
  "\<And>h s arms. direct_expr (MatchExpr h s arms) = ExprNode s # concat (map arm_nodes arms)"
  "\<And>h arms d td tb. direct_expr (SelectExpr h arms d td tb) = concat (map select_nodes arms) @ opt_node d @ opt_node td @ opt_node tb"
  "\<And>h ss. direct_expr (BlockExpr h ss) = map StmtNode ss"
  "\<And>h ps ss. direct_expr (ClosureExpr h ps ss) = map StmtNode ss"
  "\<And>h a. direct_expr (ComptimeExpr h a) = [ExprNode a]"
  "\<And>x1 x2. direct_expr (EmbedExpr x1 x2) = []"
  "\<And>h segs. direct_expr (InterpStringExpr h segs) = concat (map (\<lambda>s. opt_node (seg_expr s)) segs)"
  "\<And>x1 x2. direct_expr (QuoteExpr x1 x2) = []"
  "\<And>x1 x2. direct_expr (QuoteDeclExpr x1 x2) = []"
  "\<And>x1 x2. direct_expr (SpliceExpr x1 x2) = []"
  "\<And>h nm args x. direct_expr (MacroCallExpr h nm args x) = opt_node x"
  "\<And>h a. direct_expr (AwaitExpr h a) = [ExprNode a]"
  "\<And>h a. direct_expr (SpawnExpr h a) = [ExprNode a]"
  "\<And>h a. direct_expr (CopyExpr h a) = [ExprNode a]"
  "\<And>h a. direct_expr (ThrowExpr h a) = [ExprNode a]"
  "\<And>h a. direct_expr (AddressOfExpr h a) = [ExprNode a]"
  "\<And>h b nm t g c. direct_expr (DoCatchExpr h b nm t g c) = ExprNode b # opt_node g @ [ExprNode c]"
  "\<And>h fm a. direct_expr (TryExpr h fm a) = [ExprNode a]"
  "\<And>h es. direct_expr (VectorLitExpr h es) = map ExprNode es"
  "\<And>h es. direct_expr (TupleLitExpr h es) = map ExprNode es"
  "\<And>h a. direct_expr (ParenExpr h a) = [ExprNode a]"
  by (simp_all add: direct_expr_def)

lemma direct_stmt_simps [simp]:
  "\<And>h p t v. direct_stmt (LetStmt h p t v) = opt_node v"
  "\<And>h p t v. direct_stmt (VarStmt h p t v) = opt_node v"
  "\<And>h e. direct_stmt (ExprStmt h e) = [ExprNode e]"
  "\<And>h v. direct_stmt (ReturnStmt h v) = opt_node v"
  "\<And>x1 x2. direct_stmt (BreakStmt x1 x2) = []"
  "\<And>x1 x2. direct_stmt (ContinueStmt x1 x2) = []"
  "\<And>h l p it b. direct_stmt (ForStmt h l p it b) = ExprNode it # opt_node b"
  "\<And>h l c b. direct_stmt (WhileStmt h l c b) = ExprNode c # opt_node b"
  "\<And>h bs b. direct_stmt (WithStmt h bs b) = concat (map (\<lambda>x. opt_node (wb_value x)) bs) @ opt_node b"
  "\<And>h op t v. direct_stmt (AssignStmt h op t v) = opt_node t @ [ExprNode v]"
  by (simp_all add: direct_stmt_def)

definition direct :: "node \<Rightarrow> node list" where
  "direct n = (case n of ExprNode e \<Rightarrow> direct_expr e | StmtNode s \<Rightarrow> direct_stmt s)"

lemma direct_simps [simp]:
  "direct (ExprNode e) = direct_expr e"
  "direct (StmtNode s) = direct_stmt s"
  by (simp_all add: direct_def)

inductive inside :: "node \<Rightarrow> node \<Rightarrow> bool" where
  here: "inside n n"
| below: "d \<in> set (direct n) \<Longrightarrow> inside d m \<Longrightarrow> inside n m"

lemma inside_unfold: "inside n m \<longleftrightarrow> m = n \<or> (\<exists>d \<in> set (direct n). inside d m)"
  by (subst inside.simps) auto

text \<open>A property of every node inside some nodes.\<close>

definition everywhere :: "(node \<Rightarrow> bool) \<Rightarrow> node list \<Rightarrow> bool" where
  "everywhere P ns \<longleftrightarrow> (\<forall>n \<in> set ns. \<forall>m. inside n m \<longrightarrow> P m)"

lemma everywhere_Nil [simp]: "everywhere P []"
  by (simp add: everywhere_def)

lemma everywhere_Cons [simp]: "everywhere P (n # ns) \<longleftrightarrow> P n \<and> everywhere P (direct n) \<and> everywhere P ns"
  unfolding everywhere_def using inside_unfold by (metis list.set_intros set_ConsD)

lemma everywhere_append [simp]: "everywhere P (ns @ ms) \<longleftrightarrow> everywhere P ns \<and> everywhere P ms"
  by (auto simp: everywhere_def)

lemma everywhere_concat: "everywhere P (concat nss) \<longleftrightarrow> (\<forall>ns \<in> set nss. everywhere P ns)"
  by (auto simp: everywhere_def)

lemma everywhere_inside: "everywhere P [n] \<longleftrightarrow> (\<forall>m. inside n m \<longrightarrow> P m)"
  unfolding everywhere_def by simp

section \<open>Induction over the parts\<close>

definition node_size :: "node \<Rightarrow> nat" where
  "node_size n = (case n of ExprNode e \<Rightarrow> size e | StmtNode s \<Rightarrow> size s)"

lemma node_size_simps [simp]:
  "node_size (ExprNode e) = size e"
  "node_size (StmtNode s) = size s"
  by (simp_all add: node_size_def)

lemma size_in_list: "x \<in> set xs \<Longrightarrow> f x \<le> size_list f xs"
  by (induction xs) auto

lemma size_opt_node: "d \<in> set (opt_node x) \<Longrightarrow> node_size d < Suc (size_option size x)"
  by (cases x) auto

lemma size_arg_node:
  assumes "a \<in> set as" shows "size (arg_value a) < Suc (size_list (size_call_arg size) as)"
  using size_in_list [OF assms, of "size_call_arg size"] by (cases a) auto

lemma size_arm_node:
  assumes "a \<in> set arms" "d \<in> set (arm_nodes a)"
  shows "node_size d < Suc (size_list (size_match_arm size size) arms)"
  using size_in_list [OF assms(1), of "size_match_arm size size"] assms(2) size_opt_node
  by (cases a) (fastforce simp: arm_nodes_def)

lemma size_select_node:
  assumes "a \<in> set arms" "d \<in> set (select_nodes a)"
  shows "node_size d < Suc (size_list (size_select_arm size size) arms)"
  using size_in_list [OF assms(1), of "size_select_arm size size"] assms(2) size_opt_node
  by (cases a) (fastforce simp: select_nodes_def)

lemma size_segment_node:
  assumes "a \<in> set segs" "d \<in> set (opt_node (seg_expr a))"
  shows "node_size d < Suc (size_list (size_segment size) segs)"
  using size_in_list [OF assms(1), of "size_segment size"] assms(2) size_opt_node
  by (cases a) fastforce

lemma size_binding_node:
  assumes "a \<in> set bs" "d \<in> set (opt_node (wb_value a))"
  shows "node_size d < Suc (size_list (size_with_binding size size) bs)"
  using size_in_list [OF assms(1), of "size_with_binding size size"] assms(2) size_opt_node
  by (cases a) fastforce

lemmas size_nested = size_arg_node size_arm_node size_select_node size_segment_node size_binding_node

lemmas size_plain = size_opt_node size_in_list [where f = "size :: expr \<Rightarrow> nat"] size_in_list [where f = "size :: stmt \<Rightarrow> nat"]

lemma direct_smaller: "d \<in> set (direct n) \<Longrightarrow> node_size d < node_size n"
proof (cases n)
  case (ExprNode e)
  assume "d \<in> set (direct n)"
  then show ?thesis unfolding ExprNode
    by (cases e; auto simp: less_Suc_eq_le dest!: size_nested split: if_splits)
       (auto dest!: size_plain)
next
  case (StmtNode s)
  assume "d \<in> set (direct n)"
  then show ?thesis unfolding StmtNode
    by (cases s; auto simp: less_Suc_eq_le dest!: size_nested split: if_splits)
       (auto dest!: size_plain)
qed

lemma node_induct [case_names node]:
  assumes "\<And>n. (\<And>d. d \<in> set (direct n) \<Longrightarrow> P d) \<Longrightarrow> P n"
  shows "P n"
  by (induction n rule: measure_induct_rule [of node_size]) (use assms direct_smaller in blast)

section \<open>Members\<close>

definition members :: "decl \<Rightarrow> decl list" where
  "members d =
     (case d of
        StructDecl h attrs vis lin nm gens fs ms deinit \<Rightarrow> ms
      | EnumDecl h attrs vis nm gens cases ms \<Rightarrow> ms
      | ExtensionDecl h attrs vis target confs ms \<Rightarrow> ms
      | _ \<Rightarrow> [])"

text \<open>A declaration of the unit or a member of one, at any depth.\<close>

inductive declared_in :: "decl list \<Rightarrow> decl \<Rightarrow> bool" where
  top: "d \<in> set ds \<Longrightarrow> declared_in ds d"
| member: "d \<in> set ds \<Longrightarrow> declared_in (members d) f \<Longrightarrow> declared_in ds f"

lemma declared_in_iff: "declared_in ds f \<longleftrightarrow> (\<exists>d \<in> set ds. f = d \<or> declared_in (members d) f)"
  by (subst declared_in.simps) auto

lemma declared_in_Nil [simp]: "\<not> declared_in [] f"
  by (subst declared_in_iff) simp

end
