(* ===== verification/Samples.thy ===== *)
theory Samples
  imports Resolution Traversal
begin

text \<open>
  Small programs on which the properties are applied: headers with given addresses, symbols of
  locals, and the unit with one function that has a given body.
\<close>

definition here :: "nat \<Rightarrow> hdr" where
  "here n = \<lparr>node_addr = n, node_range = \<lparr>range_begin = \<lparr>loc_file = 1, loc_offset = n\<rparr>, range_length = 1\<rparr>\<rparr>"

definition local_symbol :: "string \<Rightarrow> symbol" where
  "local_symbol x = \<lparr>sym_name = x, sym_kind = SymLocal, sym_decl = None, sym_type = None,
     sym_definition_range = no_range, sym_visibility = Internal, sym_provenance_root = None,
     sym_provenance_segment = []\<rparr>"

definition func_of :: "expr \<Rightarrow> decl" where
  "func_of b = FuncDecl (here 30) [] Internal False False RecvNone ''g'' None [] [] (Effects [] None) None (Some b)"

definition unit_of :: "expr \<Rightarrow> compilation_unit" where
  "unit_of b = \<lparr>unit_module = None, unit_imports = [], unit_decls = [func_of b]\<rparr>"

lemma declared_unit: "declared_in (unit_decls (unit_of b)) f \<longleftrightarrow> f = func_of b"
  by (subst declared_in_iff) (simp add: unit_of_def members_def func_of_def)

end
