(* ===== verification/Verdicts.thy ===== *)
theory Verdicts
  imports Samples
begin

text \<open>
  What the checkers that only report have in common: a pass is a function on the reporter, and
  delivers a verdict. Verdicts compose as the passes do.
\<close>

text \<open>
  A pass delivers a verdict: it leaves the reporter alone if what it checks is right, and adds
  at least one error if not, whatever the reporter held.
\<close>

definition verdict :: "bool \<Rightarrow> (reporter \<Rightarrow> reporter) \<Rightarrow> bool" where
  "verdict ok f \<longleftrightarrow> (\<forall>r. if ok then f r = r else error_count r < error_count (f r))"

lemma verdict_id [simp, intro]: "verdict True (\<lambda>r. r)"
  by (simp add: verdict_def)

lemma verdict_comp: "verdict a f \<Longrightarrow> verdict b g \<Longrightarrow> verdict (a \<and> b) (\<lambda>r. g (f r))"
  unfolding verdict_def by (cases a; cases b) (auto intro: less_trans)

lemma verdict_cong: "verdict a f \<Longrightarrow> a = b \<Longrightarrow> verdict b f"
  by simp

lemma verdict_eq: "verdict a f \<Longrightarrow> a = b \<Longrightarrow> f = g \<Longrightarrow> verdict b g"
  by simp

lemma verdict_silent: "verdict ok f \<Longrightarrow> error_count (f r) = error_count r \<longleftrightarrow> ok"
  unfolding verdict_def by (metis less_irrefl)

lemma verdict_report: "diag_severity d = Error \<Longrightarrow> verdict (\<not> c) (\<lambda>r. if c then report d r else r)"
  by (simp add: verdict_def report_def)

section \<open>Walks over a unit\<close>

text \<open>
  The checkers walk the declarations of a unit in the same way: the functions are checked, the
  members of the other declarations are walked. The contract says what a checker does with a
  function; what it gives is the verdict on the unit.
\<close>

locale unit_walk =
  fixes walk :: "decl \<Rightarrow> reporter \<Rightarrow> reporter"
    and walks :: "decl list \<Rightarrow> reporter \<Rightarrow> reporter"
    and func_ok :: "decl \<Rightarrow> bool"
    and func_covered :: "decl \<Rightarrow> bool"
  assumes walks_Nil: "walks [] = (\<lambda>r. r)"
    and walks_Cons: "walks (d # ds) = (\<lambda>r. walks ds (walk d r))"
    and walk_members: "\<not> is_func_decl d \<Longrightarrow> walk d = walks (members d)"
    and walk_func: "is_func_decl d \<Longrightarrow> func_covered d \<Longrightarrow> verdict (func_ok d) (walk d)"
    and ok_other: "\<not> is_func_decl d \<Longrightarrow> func_ok d"
begin

lemma walks_verdict:
  "(\<And>f. declared_in ds f \<Longrightarrow> func_covered f) \<Longrightarrow> verdict (\<forall>f. declared_in ds f \<longrightarrow> func_ok f) (walks ds)"
proof (induction ds rule: measure_induct_rule [of "size_list size"])
  case (less ds)
  show ?case
  proof (cases ds)
    case Nil
    then show ?thesis by (simp add: walks_Nil verdict_def)
  next
    case (Cons d ds')
    have split: "declared_in ds f \<longleftrightarrow> f = d \<or> declared_in (members d) f \<or> declared_in ds' f" for f
      unfolding Cons by (subst (1 3) declared_in_iff) auto
    have rest: "verdict (\<forall>f. declared_in ds' f \<longrightarrow> func_ok f) (walks ds')"
      by (rule less.IH) (use less.prems split in \<open>auto simp: Cons\<close>)
    have first: "verdict (func_ok d \<and> (\<forall>f. declared_in (members d) f \<longrightarrow> func_ok f)) (walk d)"
    proof (cases "is_func_decl d")
      case True
      then have "members d = []" by (simp add: is_func_decl_def members_def split: decl.splits)
      then show ?thesis using walk_func [OF True] less.prems split by simp
    next
      case False
      have "size_list size (members d) < size_list size ds"
        by (cases d) (simp_all add: Cons members_def)
      then have "verdict (\<forall>f. declared_in (members d) f \<longrightarrow> func_ok f) (walks (members d))"
        by (rule less.IH) (use less.prems split in auto)
      then show ?thesis by (simp add: walk_members [OF False] ok_other [OF False])
    qed
    from verdict_comp [OF first rest] have "verdict (\<forall>f. declared_in ds f \<longrightarrow> func_ok f) (\<lambda>r. walks ds' (walk d r))"
      by (rule verdict_cong) (auto simp: split)
    then show ?thesis by (simp add: Cons walks_Cons)
  qed
qed

end

end
