(* ===== verification/Exclusivity_Props.thy ===== *)
theory Exclusivity_Props
  imports Exclusivity Samples Verdicts
begin

text \<open>
  The exclusivity checker is exact on the code it walks: it is silent when, and only when,
  every call inside obeys the law, stated over the sets of storage that the borrows reach.
  The constructs it does not walk are named by \<open>ex_handles\<close>, and the calls where it misses a
  borrow of an element by \<open>elements_apart\<close>; a program with none of them is covered.
\<close>

section \<open>Storage\<close>

text \<open>
  The storage a place reaches: every path below it. Two borrows share storage when these sets
  meet.
\<close>

definition storage :: "place \<Rightarrow> (sym_ref \<times> string list) set" where
  "storage p = {(place_root p, place_path p @ ext) | ext. True}"

definition compatible :: "borrow \<Rightarrow> borrow \<Rightarrow> bool" where
  "compatible a b \<longleftrightarrow> storage (borrow_place a) \<inter> storage (borrow_place b) = {}
     \<or> (borrow_access a = ReadAccess \<and> borrow_access b = ReadAccess)"

lemma prefix_iff_nth:
  "length xs \<le> length ys \<Longrightarrow> (\<forall>i < length xs. xs ! i = ys ! i) \<longleftrightarrow> (\<exists>zs. ys = xs @ zs)"
proof
  assume l: "length xs \<le> length ys" and n: "\<forall>i < length xs. xs ! i = ys ! i"
  have "take (length xs) ys = xs" using l n by (intro nth_equalityI) auto
  then have "ys = xs @ drop (length xs) ys" by (metis append_take_drop_id)
  then show "\<exists>zs. ys = xs @ zs" ..
qed (auto simp: nth_append)

lemma overlap_prefix:
  "overlap a b \<longleftrightarrow> place_root a = place_root b
     \<and> ((\<exists>z. place_path b = place_path a @ z) \<or> (\<exists>z. place_path a = place_path b @ z))"
proof (cases "length (place_path a) < length (place_path b)")
  case True
  then have "\<not> (\<exists>z. place_path a = place_path b @ z)" by auto
  with True show ?thesis using prefix_iff_nth [of "place_path a" "place_path b"] by (simp add: overlap_def)
next
  case False
  then have "(\<exists>z. place_path b = place_path a @ z) \<Longrightarrow> (\<exists>z. place_path a = place_path b @ z)" by auto
  with False show ?thesis using prefix_iff_nth [of "place_path b" "place_path a"] by (auto simp: overlap_def)
qed

lemma overlap_storage: "overlap a b \<longleftrightarrow> storage a \<inter> storage b \<noteq> {}"
proof
  assume o: "overlap a b"
  have "p = q @ z \<Longrightarrow> p @ [] = q @ z" for p q z :: "string list" by simp
  then have "(place_root b, place_path a) \<in> storage a \<inter> storage b \<or> (place_root b, place_path b) \<in> storage a \<inter> storage b"
    using o unfolding overlap_prefix storage_def by fastforce
  then show "storage a \<inter> storage b \<noteq> {}" by blast
next
  assume "storage a \<inter> storage b \<noteq> {}"
  then show "overlap a b" unfolding overlap_prefix storage_def by (auto simp: append_eq_append_conv2) metis+
qed

lemma overlap_sym: "overlap a b = overlap b a"
  by (auto simp: overlap_storage)

lemma clash_compatible: "clash a b \<longleftrightarrow> \<not> compatible a b"
  by (auto simp: clash_def compatible_def overlap_storage conflict_def) (metis access.exhaust)+

section \<open>The law of a call\<close>

text \<open>
  The law is stated over what an expression denotes and how an argument is passed, apart from
  the functions of the checker. An expression denotes a place through its symbol, its
  parentheses, its fields, and its elements: the elements of one collection are one place,
  since their indices are not known, as \<^verbatim>\<open>exclusivity.hpp\<close> has it.
\<close>

inductive denotes :: "'v sema_info \<Rightarrow> expr \<Rightarrow> place \<Rightarrow> bool" for si where
  denotes_local: "symbol_of (tables si) (IdentExpr h nm) = Some s \<Longrightarrow> is_storage_kind (sym_kind (symbol_at si s)) \<Longrightarrow>
    sym_provenance_root (symbol_at si s) = None \<Longrightarrow>
    denotes si (IdentExpr h nm) \<lparr>place_root = s, place_path = []\<rparr>"
| denotes_view: "symbol_of (tables si) (IdentExpr h nm) = Some s \<Longrightarrow> is_storage_kind (sym_kind (symbol_at si s)) \<Longrightarrow>
    sym_provenance_root (symbol_at si s) = Some root \<Longrightarrow>
    denotes si (IdentExpr h nm) \<lparr>place_root = root, place_path = [sym_provenance_segment (symbol_at si s)]\<rparr>"
| denotes_paren: "denotes si inner p \<Longrightarrow> denotes si (ParenExpr h inner) p"
| denotes_field: "denotes si base p \<Longrightarrow>
    denotes si (MemberExpr h base member sp chain) (p\<lparr>place_path := place_path p @ [CHR ''.'' # member]\<rparr>)"
| denotes_element: "denotes si base p \<Longrightarrow>
    denotes si (IndexExpr h base indices targs) (p\<lparr>place_path := place_path p @ [''[]'']\<rparr>)"

text \<open>The mode of a parameter is the declared one, when the callee names a function that has it.\<close>

inductive declares :: "'v sema_info \<Rightarrow> expr \<Rightarrow> nat \<Rightarrow> param_mode \<Rightarrow> bool" for si callee where
  declares_known: "symbol_of (tables si) callee = Some s \<Longrightarrow> sym_decl (symbol_at si s) = Some d \<Longrightarrow> is_func_decl d \<Longrightarrow>
    i < length (func_params d) \<Longrightarrow> declares si callee i (param_mode (func_params d ! i))"
| declares_unknown: "(\<And>s d. symbol_of (tables si) callee = Some s \<Longrightarrow> sym_decl (symbol_at si s) = Some d \<Longrightarrow> is_func_decl d \<Longrightarrow>
    length (func_params d) \<le> i) \<Longrightarrow> declares si callee i Read"

text \<open>The methods of the built-in collections that change their receiver.\<close>

definition mutators :: "(type_kind \<times> string) set" where
  "mutators = {(KVec, ''push''), (KVec, ''pop''), (KVec, ''set''), (KVec, ''clear''),
     (KString, ''append''), (KHashMap, ''set'')}"

text \<open>
  The borrows of a call: of each argument unless it is moved into its parameter, and of the
  receiver of a method that changes it, which counts as one position more.
\<close>

inductive borrows :: "'v sema_info \<Rightarrow> expr \<Rightarrow> expr call_arg list \<Rightarrow> nat \<Rightarrow> access \<Rightarrow> place \<Rightarrow> bool" for si callee args where
  borrows_marked: "i < length args \<Longrightarrow> arg_is_inout (args ! i) \<Longrightarrow> denotes si (arg_value (args ! i)) p \<Longrightarrow>
    borrows si callee args i InoutAccess p"
| borrows_inout: "i < length args \<Longrightarrow> declares si callee i Inout \<Longrightarrow> denotes si (arg_value (args ! i)) p \<Longrightarrow>
    borrows si callee args i InoutAccess p"
| borrows_read: "i < length args \<Longrightarrow> \<not> arg_is_inout (args ! i) \<Longrightarrow> declares si callee i Read \<Longrightarrow>
    denotes si (arg_value (args ! i)) p \<Longrightarrow> borrows si callee args i ReadAccess p"
| borrows_receiver: "callee = MemberExpr h base member sp chain \<Longrightarrow> type_of_expr (tables si) base = Some t \<Longrightarrow>
    (ty_kind t, member) \<in> mutators \<Longrightarrow> denotes si base p \<Longrightarrow> borrows si callee args (length args) InoutAccess p"

text \<open>
  The law for one call: no storage is reached by two of its borrows unless both only read.
\<close>

definition lawful :: "'v sema_info \<Rightarrow> expr \<Rightarrow> expr call_arg list \<Rightarrow> bool" where
  "lawful si callee args \<longleftrightarrow>
     (\<forall>i j a b p q. i \<noteq> j \<longrightarrow> borrows si callee args i a p \<longrightarrow> borrows si callee args j b q \<longrightarrow>
        storage p \<inter> storage q = {} \<or> (a = ReadAccess \<and> b = ReadAccess))"

text \<open>
  The checker has no place for an element, so that a borrow of one is not seen. A call is
  covered when its borrows of elements are shared with no exclusive borrow at all.
\<close>

fun through_index :: "expr \<Rightarrow> bool" where
  "through_index (ParenExpr h inner) = through_index inner"
| "through_index (MemberExpr h base member sp chain) = through_index base"
| "through_index (IndexExpr h base indices targs) = True"
| "through_index e = False"

definition position_expr :: "expr \<Rightarrow> expr call_arg list \<Rightarrow> nat \<Rightarrow> expr" where
  "position_expr callee args i =
     (if i < length args then arg_value (args ! i)
      else case callee of MemberExpr h base member sp chain \<Rightarrow> base | _ \<Rightarrow> callee)"

definition elements_apart :: "'v sema_info \<Rightarrow> expr \<Rightarrow> expr call_arg list \<Rightarrow> bool" where
  "elements_apart si callee args \<longleftrightarrow>
     (\<forall>i j a b p q. i \<noteq> j \<longrightarrow> through_index (position_expr callee args i) \<longrightarrow>
        borrows si callee args i a p \<longrightarrow> borrows si callee args j b q \<longrightarrow> a = ReadAccess \<and> b = ReadAccess)"

section \<open>The borrows the checker gathers\<close>

text \<open>The checker finds the place of an expression, except through an index.\<close>

lemma through_index_no_place: "through_index e \<Longrightarrow> as_place si e = None"
  by (induction e rule: through_index.induct) (simp_all add: as_place.simps)

lemma denotes_as_place: "denotes si e p \<Longrightarrow> \<not> through_index e \<Longrightarrow> as_place si e = Some p"
  by (induction rule: denotes.induct) (simp_all add: as_place.simps symbol_place_def)

lemma as_place_denotes: "as_place si e = Some p \<Longrightarrow> denotes si e p"
proof (induction si e arbitrary: p rule: as_place.induct)
  case (1 si e)
  show ?case
  proof (cases e)
    case (IdentExpr h nm)
    then show ?thesis using 1(3)
      by (auto simp: as_place.simps symbol_place_def Let_def split: option.splits if_splits intro: denotes_local denotes_view)
  next
    case (ParenExpr h inner)
    then show ?thesis using 1 by (auto simp: as_place.simps [of _ "ParenExpr _ _"] intro: denotes_paren)
  next
    case (MemberExpr h b m sp c)
    then show ?thesis using 1 by (auto simp: as_place.simps [of _ "MemberExpr _ _ _ _ _"] split: option.splits intro: denotes_field)
  qed (use 1(3) in \<open>simp_all add: as_place.simps\<close>)
qed

lemma as_place_iff: "as_place si e = Some p \<longleftrightarrow> \<not> through_index e \<and> denotes si e p"
  by (cases "through_index e") (auto simp: through_index_no_place dest: denotes_as_place as_place_denotes)

lemma declares_mode: "declares si callee i m \<longleftrightarrow> m = declared_mode (callee_func si callee) i"
  by (auto simp: declares.simps declared_mode_def callee_func_def split: option.splits)

lemma receiver_mutates:
  "receiver_borrowed_inout si base member \<longleftrightarrow> (\<exists>t. type_of_expr (tables si) base = Some t \<and> (ty_kind t, member) \<in> mutators)"
  by (auto simp: receiver_borrowed_inout_def mutators_def split: option.splits type_kind.splits)

text \<open>What the checker gathers at a position.\<close>

definition gathered :: "'v sema_info \<Rightarrow> expr \<Rightarrow> expr call_arg list \<Rightarrow> nat \<Rightarrow> borrow list" where
  "gathered si callee args i =
     (if i < length args then (case borrow_of_arg si (callee_func si callee) i (args ! i) of None \<Rightarrow> [] | Some b \<Rightarrow> [b])
      else if i = length args then receiver_borrow si callee else [])"

lemma call_borrows_gathered: "call_borrows si callee args = concat (map (gathered si callee args) [0..<Suc (length args)])"
proof -
  have "arg_borrows si fn k as = concat (map (\<lambda>i. case borrow_of_arg si fn (k + i) (as ! i) of None \<Rightarrow> [] | Some b \<Rightarrow> [b]) [0..<length as])"
    for fn k as
    by (induction as arbitrary: k) (simp_all add: map_upt_Suc del: upt_Suc)
  from this [of "callee_func si callee" 0 args] show ?thesis
    by (simp add: call_borrows_def gathered_def) (auto simp: gathered_def intro!: arg_cong [of _ _ concat])
qed

lemma borrows_argument:
  assumes "i < length args"
  shows "borrows si callee args i a p \<longleftrightarrow>
    (let m = (if arg_is_inout (args ! i) then Inout else declared_mode (callee_func si callee) i)
     in m \<noteq> Sink \<and> a = (if m = Inout then InoutAccess else ReadAccess) \<and> denotes si (arg_value (args ! i)) p)"
  using assms by (cases "declared_mode (callee_func si callee) i") (auto simp: borrows.simps declares_mode Let_def)

lemma gathered_borrows:
  "(\<exists>b. gathered si callee args i = [b] \<and> borrow_access b = a \<and> borrow_place b = p)
     \<longleftrightarrow> \<not> through_index (position_expr callee args i) \<and> borrows si callee args i a p"
proof (cases "i < length args")
  case True
  have "(\<exists>b. gathered si callee args i = [b] \<and> borrow_access b = a \<and> borrow_place b = p) \<longleftrightarrow>
    (let m = (if arg_is_inout (args ! i) then Inout else declared_mode (callee_func si callee) i)
     in m \<noteq> Sink \<and> a = (if m = Inout then InoutAccess else ReadAccess) \<and> as_place si (arg_value (args ! i)) = Some p)"
    using True by (auto simp: gathered_def borrow_of_arg_def Let_def split: option.splits)
  then show ?thesis using True by (auto simp: borrows_argument position_expr_def as_place_iff Let_def)
next
  case False
  have "(\<exists>b. gathered si callee args i = [b] \<and> borrow_access b = a \<and> borrow_place b = p) \<longleftrightarrow>
    (\<exists>h base m sp ch. i = length args \<and> callee = MemberExpr h base m sp ch \<and> receiver_borrowed_inout si base m
      \<and> a = InoutAccess \<and> as_place si base = Some p)"
    using False by (auto simp: gathered_def receiver_borrow_def split: option.splits expr.splits)
  also have "\<dots> \<longleftrightarrow> \<not> through_index (position_expr callee args i) \<and> borrows si callee args i a p"
  proof (cases callee)
    case (MemberExpr h base m sp ch)
    then show ?thesis using False
      by (simp add: position_expr_def borrows.simps receiver_mutates as_place_iff) blast
  qed (use False in \<open>simp_all add: borrows.simps\<close>)
  finally show ?thesis .
qed

lemma gathered_at_most_one: "gathered si callee args i = [] \<or> (\<exists>b. gathered si callee args i = [b])"
  by (auto simp: gathered_def receiver_borrow_def split: option.splits expr.splits)

lemma sorted_wrt_concat:
  "(\<And>x. x \<in> set xss \<Longrightarrow> x = [] \<or> (\<exists>b. x = [b])) \<Longrightarrow>
     sorted_wrt P (concat xss) \<longleftrightarrow> (\<forall>i j a b. i < j \<longrightarrow> j < length xss \<longrightarrow> xss ! i = [a] \<longrightarrow> xss ! j = [b] \<longrightarrow> P a b)"
proof (induction xss)
  case (Cons x xss)
  have IH: "sorted_wrt P (concat xss) \<longleftrightarrow> (\<forall>i j a b. i < j \<longrightarrow> j < length xss \<longrightarrow> xss ! i = [a] \<longrightarrow> xss ! j = [b] \<longrightarrow> P a b)"
    using Cons by simp
  have el: "(\<forall>y \<in> set (concat xss). Q y) \<longleftrightarrow> (\<forall>j b. j < length xss \<longrightarrow> xss ! j = [b] \<longrightarrow> Q b)" for Q
  proof -
    have "(\<forall>y \<in> set (concat xss). Q y) \<longleftrightarrow> (\<forall>b. [b] \<in> set xss \<longrightarrow> Q b)"
      using Cons.prems by fastforce
    then show ?thesis by (auto simp: in_set_conv_nth)
  qed
  have split: "(\<forall>i j a b. i < j \<longrightarrow> j < length (x # xss) \<longrightarrow> (x # xss) ! i = [a] \<longrightarrow> (x # xss) ! j = [b] \<longrightarrow> P a b) \<longleftrightarrow>
      (\<forall>j a b. j < length xss \<longrightarrow> x = [a] \<longrightarrow> xss ! j = [b] \<longrightarrow> P a b)
      \<and> (\<forall>i j a b. i < j \<longrightarrow> j < length xss \<longrightarrow> xss ! i = [a] \<longrightarrow> xss ! j = [b] \<longrightarrow> P a b)" (is "?l \<longleftrightarrow> ?r")
  proof
    assume l: ?l
    have "P a b" if "j < length xss" "x = [a]" "xss ! j = [b]" for j a b
      using l [rule_format, of 0 "Suc j" a b] that by simp
    moreover have "P a b" if "i < j" "j < length xss" "xss ! i = [a]" "xss ! j = [b]" for i j a b
      using l [rule_format, of "Suc i" "Suc j" a b] that by simp
    ultimately show ?r by blast
  next
    assume r: ?r
    show ?l
    proof (intro allI impI)
      fix i j a b
      assume "i < j" "j < length (x # xss)" "(x # xss) ! i = [a]" "(x # xss) ! j = [b]"
      then show "P a b" using r by (cases j; cases i) auto
    qed
  qed
  have "sorted_wrt P (concat (x # xss)) \<longleftrightarrow> (\<forall>a. x = [a] \<longrightarrow> (\<forall>b \<in> set (concat xss). P a b)) \<and> sorted_wrt P (concat xss)"
    using Cons.prems [of x] by (auto simp: sorted_wrt_append)
  also have "\<dots> \<longleftrightarrow> (\<forall>j a b. j < length xss \<longrightarrow> x = [a] \<longrightarrow> xss ! j = [b] \<longrightarrow> P a b) \<and> sorted_wrt P (concat xss)"
    unfolding el by blast
  finally show ?case unfolding split IH .
qed simp

lemma compatible_sym: "compatible a b \<longleftrightarrow> compatible b a"
  by (auto simp: compatible_def)

lemma gathered_lawful:
  assumes "elements_apart si callee args"
  shows "sorted_wrt (\<lambda>a b. \<not> clash a b) (call_borrows si callee args) \<longleftrightarrow> lawful si callee args"
proof -
  let ?g = "gathered si callee args" and ?n = "Suc (length args)"
  have out: "i < ?n" if "?g i = [b]" for i b
    using that by (auto simp: gathered_def split: if_splits)
  have "sorted_wrt (\<lambda>a b. \<not> clash a b) (call_borrows si callee args)
      \<longleftrightarrow> (\<forall>i j a b. i < j \<longrightarrow> j < ?n \<longrightarrow> ?g i = [a] \<longrightarrow> ?g j = [b] \<longrightarrow> compatible a b)"
    unfolding call_borrows_gathered clash_compatible
    by (subst sorted_wrt_concat) (use gathered_at_most_one in \<open>auto simp del: upt_Suc\<close>)
  also have "\<dots> \<longleftrightarrow> (\<forall>i j a b. i \<noteq> j \<longrightarrow> ?g i = [a] \<longrightarrow> ?g j = [b] \<longrightarrow> compatible a b)"
  proof (intro iffI allI impI)
    fix i j a b
    assume l: "\<forall>i j a b. i < j \<longrightarrow> j < ?n \<longrightarrow> ?g i = [a] \<longrightarrow> ?g j = [b] \<longrightarrow> compatible a b"
      and *: "i \<noteq> j" "?g i = [a]" "?g j = [b]"
    have "i < j \<or> j < i" using *(1) by auto
    then show "compatible a b"
      using l [rule_format, of i j a b] l [rule_format, of j i b a] *(2,3) out compatible_sym [of a b] by auto
  qed (metis nat_neq_iff)
  also have "\<dots> \<longleftrightarrow> (\<forall>i j a b p q. i \<noteq> j \<longrightarrow> \<not> through_index (position_expr callee args i) \<longrightarrow> borrows si callee args i a p \<longrightarrow>
      \<not> through_index (position_expr callee args j) \<longrightarrow> borrows si callee args j b q \<longrightarrow>
      storage p \<inter> storage q = {} \<or> (a = ReadAccess \<and> b = ReadAccess))"
  proof (intro iffI allI impI)
    fix i j a b p q
    assume l: "\<forall>i j a b. i \<noteq> j \<longrightarrow> ?g i = [a] \<longrightarrow> ?g j = [b] \<longrightarrow> compatible a b"
      and *: "i \<noteq> j" "\<not> through_index (position_expr callee args i)" "borrows si callee args i a p"
        "\<not> through_index (position_expr callee args j)" "borrows si callee args j b q"
    obtain x y where "?g i = [x]" "borrow_access x = a" "borrow_place x = p" "?g j = [y]" "borrow_access y = b" "borrow_place y = q"
      using gathered_borrows [of si callee args i a p] gathered_borrows [of si callee args j b q] *(2-) by blast
    then show "storage p \<inter> storage q = {} \<or> (a = ReadAccess \<and> b = ReadAccess)"
      using l [rule_format, OF *(1)] by (auto simp: compatible_def)
  next
    fix i j a b
    assume l: "\<forall>i j a b p q. i \<noteq> j \<longrightarrow> \<not> through_index (position_expr callee args i) \<longrightarrow> borrows si callee args i a p \<longrightarrow>
        \<not> through_index (position_expr callee args j) \<longrightarrow> borrows si callee args j b q \<longrightarrow>
        storage p \<inter> storage q = {} \<or> (a = ReadAccess \<and> b = ReadAccess)"
      and *: "i \<noteq> j" "?g i = [a]" "?g j = [b]"
    show "compatible a b"
      using l [rule_format, OF *(1)] gathered_borrows [of si callee args i "borrow_access a" "borrow_place a"]
        gathered_borrows [of si callee args j "borrow_access b" "borrow_place b"] *(2,3)
      unfolding compatible_def by blast
  qed
  also have "\<dots> \<longleftrightarrow> lawful si callee args"
    unfolding lawful_def
  proof (intro iffI allI impI)
    fix i j a b p q
    assume l: "\<forall>i j a b p q. i \<noteq> j \<longrightarrow> \<not> through_index (position_expr callee args i) \<longrightarrow> borrows si callee args i a p \<longrightarrow>
        \<not> through_index (position_expr callee args j) \<longrightarrow> borrows si callee args j b q \<longrightarrow>
        storage p \<inter> storage q = {} \<or> (a = ReadAccess \<and> b = ReadAccess)"
      and *: "i \<noteq> j" "borrows si callee args i a p" "borrows si callee args j b q"
    show "storage p \<inter> storage q = {} \<or> (a = ReadAccess \<and> b = ReadAccess)"
    proof (cases "through_index (position_expr callee args i) \<or> through_index (position_expr callee args j)")
      case True
      then show ?thesis
        using assms [unfolded elements_apart_def, rule_format, OF *(1) _ *(2,3)]
          assms [unfolded elements_apart_def, rule_format, OF *(1) [symmetric] _ *(3,2)] by auto
    next
      case False
      then show ?thesis using l [rule_format, OF *(1) _ *(2) _ *(3)] by simp
    qed
  qed auto
  finally show ?thesis .
qed

section \<open>The verdict of a call\<close>

lemma conflict_diag_error [simp]: "diag_severity (conflict_diag si a b) = Error"
  by (simp add: conflict_diag_def Let_def with_note_def diag_at_def diag_error_def)

lemma scan_against_verdict: "verdict (\<forall>b \<in> set bs. \<not> clash a b) (scan_against si a bs)"
proof (induction bs)
  case (Cons b bs)
  show ?case
    using verdict_comp [OF verdict_report [OF conflict_diag_error [of si a b]] Cons.IH, of "clash a b"]
    by (rule verdict_eq) (auto simp: fun_eq_iff)
qed (simp add: verdict_def)

lemma scan_verdict: "verdict (sorted_wrt (\<lambda>a b. \<not> clash a b) bs) (scan_borrows si bs)"
proof (induction bs)
  case (Cons a bs)
  show ?case using verdict_comp [OF scan_against_verdict [of bs a si] Cons.IH]
    by (rule verdict_eq) (auto simp: fun_eq_iff)
qed (simp add: verdict_def)

lemma call_verdict:
  "elements_apart si callee args \<Longrightarrow> verdict (lawful si callee args) (scan_borrows si (call_borrows si callee args))"
  using scan_verdict by (rule verdict_cong) (rule gathered_lawful)

section \<open>What the traversal covers\<close>

text \<open>
  The constructs below which the checker looks, all of whose parts it visits. A construct it
  leaves alone is handled when it has no part that runs.
\<close>

definition ex_handles :: "node \<Rightarrow> bool" where
  "ex_handles n \<longleftrightarrow>
     (case n of
        ExprNode e \<Rightarrow>
          (case e of
             SelectExpr _ _ _ _ _ \<Rightarrow> direct_expr e = []
           | ClosureExpr _ _ _ \<Rightarrow> direct_expr e = []
           | ComptimeExpr _ _ \<Rightarrow> False
           | InterpStringExpr _ _ \<Rightarrow> direct_expr e = []
           | MacroCallExpr _ _ _ _ \<Rightarrow> direct_expr e = []
           | AddressOfExpr _ _ \<Rightarrow> False
           | DoCatchExpr _ _ _ _ g _ \<Rightarrow> g = None
           | TupleLitExpr _ _ \<Rightarrow> direct_expr e = []
           | _ \<Rightarrow> True)
      | StmtNode s \<Rightarrow> (case s of WithStmt _ _ _ \<Rightarrow> direct_stmt s = [] | _ \<Rightarrow> True))"

text \<open>A node is covered when it is handled and, if a call, its borrows of elements stay apart.\<close>

definition ex_covers :: "'v sema_info \<Rightarrow> node \<Rightarrow> bool" where
  "ex_covers si n \<longleftrightarrow> ex_handles n
     \<and> (case n of ExprNode (CallExpr h callee ts args) \<Rightarrow> elements_apart si callee args | _ \<Rightarrow> True)"

definition node_lawful :: "'v sema_info \<Rightarrow> node \<Rightarrow> bool" where
  "node_lawful si n \<longleftrightarrow>
     (case n of ExprNode (CallExpr h callee ts args) \<Rightarrow> lawful si callee args | _ \<Rightarrow> True)"

lemmas node_simps = ex_covers_def ex_handles_def node_lawful_def

definition ex_node :: "'v sema_info \<Rightarrow> node \<Rightarrow> reporter \<Rightarrow> reporter" where
  "ex_node si n = (case n of ExprNode e \<Rightarrow> ex_expr si e | StmtNode s \<Rightarrow> ex_stmt si s)"

lemma ex_node_simps [simp]:
  "ex_node si (ExprNode e) = ex_expr si e"
  "ex_node si (StmtNode s) = ex_stmt si s"
  by (simp_all add: ex_node_def)

text \<open>On covered nodes a pass delivers the verdict of the law on all of them.\<close>

definition exact :: "'v sema_info \<Rightarrow> node list \<Rightarrow> (reporter \<Rightarrow> reporter) \<Rightarrow> bool" where
  "exact si ns f \<longleftrightarrow> (everywhere (ex_covers si) ns \<longrightarrow> verdict (everywhere (node_lawful si) ns) f)"

lemma exact_Nil [simp]: "exact si [] (\<lambda>r. r)"
  by (simp add: exact_def)

lemma exact_append: "exact si ns f \<Longrightarrow> exact si ms g \<Longrightarrow> exact si (ns @ ms) (\<lambda>r. g (f r))"
  unfolding exact_def by (auto intro: verdict_comp)

lemma exact_Cons: "exact si [n] f \<Longrightarrow> exact si ns g \<Longrightarrow> exact si (n # ns) (\<lambda>r. g (f r))"
  using exact_append [of si "[n]" f ns g] by simp

lemma exact_opt: "(\<And>d. d \<in> set (opt_node x) \<Longrightarrow> exact si [d] (ex_node si d)) \<Longrightarrow> exact si (opt_node x) (ex_opt si x)"
  by (cases x) auto

lemma exact_exprs: "(\<And>e. e \<in> set es \<Longrightarrow> exact si [ExprNode e] (ex_expr si e)) \<Longrightarrow> exact si (map ExprNode es) (ex_exprs si es)"
proof (induction es)
  case (Cons e es)
  from exact_Cons [OF Cons.prems Cons.IH] show ?case using Cons.prems by simp
qed simp

lemma exact_stmts: "(\<And>e. e \<in> set es \<Longrightarrow> exact si [StmtNode e] (ex_stmt si e)) \<Longrightarrow> exact si (map StmtNode es) (ex_stmts si es)"
proof (induction es)
  case (Cons e es)
  from exact_Cons [OF Cons.prems Cons.IH] show ?case using Cons.prems by simp
qed simp

lemma exact_args:
  "(\<And>a. a \<in> set as \<Longrightarrow> exact si [ExprNode (arg_value a)] (ex_expr si (arg_value a))) \<Longrightarrow>
     exact si (map (\<lambda>a. ExprNode (arg_value a)) as) (ex_args si as)"
proof (induction as)
  case (Cons a as)
  from exact_Cons [OF Cons.prems [of a] Cons.IH] Cons.prems show ?case by (cases a) simp
qed simp

lemma exact_arms:
  "(\<And>d. d \<in> set (concat (map arm_nodes arms)) \<Longrightarrow> exact si [d] (ex_node si d)) \<Longrightarrow>
     exact si (concat (map arm_nodes arms)) (ex_arms si arms)"
proof (induction arms)
  case (Cons a arms)
  obtain p g b d where a: "a = MatchArm p g b d" by (cases a)
  have "exact si (opt_node g) (ex_opt si g)" "exact si (opt_node b) (ex_opt si b)"
    using Cons.prems by (auto intro!: exact_opt simp: a arm_nodes_def)
  from exact_append [OF exact_append [OF this] Cons.IH] Cons.prems
  show ?case by (simp add: a arm_nodes_def)
qed simp

lemma exact_call:
  assumes "exact si (ExprNode callee # map (\<lambda>a. ExprNode (arg_value a)) args) f"
  shows "exact si [ExprNode (CallExpr h callee ts args)] (\<lambda>r. scan_borrows si (call_borrows si callee args) (f r))"
proof -
  have n: "node_lawful si (ExprNode (CallExpr h callee ts args)) = lawful si callee args" by (simp add: node_lawful_def)
  show ?thesis unfolding exact_def
  proof
    assume c: "everywhere (ex_covers si) [ExprNode (CallExpr h callee ts args)]"
    then have "elements_apart si callee args" by (simp add: ex_covers_def)
    note v = call_verdict [OF this]
    have "verdict (everywhere (node_lawful si) (ExprNode callee # map (\<lambda>a. ExprNode (arg_value a)) args)) f"
      using assms c by (simp add: exact_def)
    from verdict_comp [OF this v]
    show "verdict (everywhere (node_lawful si) [ExprNode (CallExpr h callee ts args)])
        (\<lambda>r. scan_borrows si (call_borrows si callee args) (f r))"
      by (rule verdict_cong) (auto simp: n)
  qed
qed

text \<open>A node that the law says nothing about is exact when its parts are.\<close>

lemma exact_node:
  assumes "exact si (direct n) f" "node_lawful si n" "\<not> ex_covers si n \<or> ex_node si n = f"
  shows "exact si [n] (ex_node si n)"
  using assms by (auto simp: exact_def)

lemma ex_expr_exact: "exact si [n] (ex_node si n)"
proof (induction n rule: node_induct)
  case (node n)
  note IH = node
  have E: "exact si [ExprNode e] (ex_expr si e)" if "ExprNode e \<in> set (direct n)" for e
    using IH [OF that] by simp
  have S: "exact si [StmtNode s] (ex_stmt si s)" if "StmtNode s \<in> set (direct n)" for s
    using IH [OF that] by simp
  have O: "exact si (opt_node x) (ex_opt si x)" if "set (opt_node x) \<subseteq> set (direct n)" for x
    using IH that by (intro exact_opt) auto
  show ?case
  proof (cases n)
    case (ExprNode e)
    show ?thesis
    proof (cases e)
      case (CallExpr h c ts as)
      have "exact si [ExprNode c] (ex_expr si c)" "exact si (map (\<lambda>a. ExprNode (arg_value a)) as) (ex_args si as)"
        using E by (auto simp: ExprNode CallExpr intro!: exact_args)
      from exact_call [OF exact_Cons [OF this]] show ?thesis
        by (simp add: ExprNode CallExpr ex_expr.simps)
    next
      case (IfExpr h nm li c t f)
      define x where "x = (if c \<noteq> None then c else li)"
      have d: "direct n = opt_node x @ opt_node t @ opt_node f"
        by (simp add: ExprNode IfExpr x_def)
      have "exact si (direct n) (\<lambda>r. ex_opt si f (ex_opt si t (ex_opt si x r)))"
        using exact_append [OF exact_append [OF O O] O, of x t f] by (auto simp: d)
      then show ?thesis by (rule exact_node) (auto simp: ExprNode IfExpr node_lawful_def ex_expr.simps x_def fun_eq_iff)
    next
      case (MatchExpr h s arms)
      have "exact si (direct n) (\<lambda>r. ex_arms si arms (ex_expr si s r))"
        using exact_Cons [OF E exact_arms, of s arms] IH by (simp add: ExprNode MatchExpr)
      then show ?thesis by (rule exact_node) (simp_all add: ExprNode MatchExpr node_lawful_def ex_expr.simps)
    next
      case (BinaryExpr h op a b)
      have "exact si (direct n) (\<lambda>r. ex_expr si b (ex_expr si a r))"
        using exact_Cons [OF E E, of a b] by (simp add: ExprNode BinaryExpr)
      then show ?thesis by (rule exact_node) (simp_all add: ExprNode BinaryExpr node_lawful_def ex_expr.simps)
    next
      case (IndexExpr h b ixs t)
      have "exact si (direct n) (\<lambda>r. ex_exprs si ixs (ex_expr si b r))"
        using exact_Cons [OF E exact_exprs, of b ixs] E by (simp add: ExprNode IndexExpr)
      then show ?thesis by (rule exact_node) (simp_all add: ExprNode IndexExpr node_lawful_def ex_expr.simps)
    next
      case (DoCatchExpr h b nm t g c)
      have "g = None \<Longrightarrow> exact si (direct n) (\<lambda>r. ex_expr si c (ex_expr si b r))"
        using exact_Cons [OF E E, of b c] by (simp add: ExprNode DoCatchExpr)
      then show ?thesis using exact_node [of si n]
        by (cases "g = None") (auto simp: ExprNode DoCatchExpr node_simps ex_expr.simps exact_def)
    next
      case (BlockExpr h ss)
      have "exact si (direct n) (ex_stmts si ss)"
        using S by (auto simp: ExprNode BlockExpr intro!: exact_stmts)
      then show ?thesis by (rule exact_node) (simp_all add: ExprNode BlockExpr node_lawful_def ex_expr.simps)
    next
      case (VectorLitExpr h es)
      have "exact si (direct n) (ex_exprs si es)"
        using E by (auto simp: ExprNode VectorLitExpr intro!: exact_exprs)
      then show ?thesis by (rule exact_node) (simp_all add: ExprNode VectorLitExpr node_lawful_def ex_expr.simps)
    qed (use E in \<open>auto simp: ExprNode node_simps ex_expr.simps exact_def everywhere_concat\<close>)
  next
    case (StmtNode s)
    show ?thesis
    proof (cases s)
      case (AssignStmt h op t v)
      have "exact si (direct n) (\<lambda>r. ex_expr si v (ex_opt si t r))"
        using exact_append [OF O E, of t v] by (auto simp: StmtNode AssignStmt)
      then show ?thesis by (rule exact_node) (simp_all add: StmtNode AssignStmt node_lawful_def ex_stmt.simps)
    next
      case (ForStmt h l p it b)
      have "exact si (direct n) (\<lambda>r. ex_opt si b (ex_expr si it r))"
        using exact_Cons [OF E O, of it b] by (auto simp: StmtNode ForStmt)
      then show ?thesis by (rule exact_node) (simp_all add: StmtNode ForStmt node_lawful_def ex_stmt.simps)
    next
      case (WhileStmt h l c b)
      have "exact si (direct n) (\<lambda>r. ex_opt si b (ex_expr si c r))"
        using exact_Cons [OF E O, of c b] by (auto simp: StmtNode WhileStmt)
      then show ?thesis by (rule exact_node) (simp_all add: StmtNode WhileStmt node_lawful_def ex_stmt.simps)
    qed (use E O in \<open>auto simp: StmtNode node_simps ex_stmt.simps exact_def everywhere_concat\<close>)
  qed
qed

section \<open>Functions and declarations\<close>

text \<open>
  What the language asks of a function: an async function has no inout parameter, and every
  call inside the body is lawful.
\<close>

definition func_lawful :: "'v sema_info \<Rightarrow> decl \<Rightarrow> bool" where
  "func_lawful si d \<longleftrightarrow>
     (case d of
        FuncDecl h attrs vis is_async ct recv nm ns gens ps eff res body \<Rightarrow>
          (is_async \<longrightarrow> (\<forall>p \<in> set ps. param_mode p \<noteq> Inout))
          \<and> (\<forall>b. body = Some b \<longrightarrow> (\<forall>h callee ts args.
                inside (ExprNode b) (ExprNode (CallExpr h callee ts args)) \<longrightarrow> lawful si callee args))
      | _ \<Rightarrow> True)"

definition func_covered :: "'v sema_info \<Rightarrow> decl \<Rightarrow> bool" where
  "func_covered si d \<longleftrightarrow>
     (case d of
        FuncDecl h attrs vis is_async ct recv nm ns gens ps eff res body \<Rightarrow>
          (\<forall>b. body = Some b \<longrightarrow> (\<forall>m. inside (ExprNode b) m \<longrightarrow> ex_covers si m))
      | _ \<Rightarrow> True)"

lemma body_verdict:
  assumes "\<forall>m. inside (ExprNode b) m \<longrightarrow> ex_covers si m"
  shows "verdict (\<forall>h callee ts args. inside (ExprNode b) (ExprNode (CallExpr h callee ts args)) \<longrightarrow> lawful si callee args)
    (ex_expr si b)"
proof -
  have "everywhere (node_lawful si) [ExprNode b] \<longleftrightarrow>
      (\<forall>h callee ts args. inside (ExprNode b) (ExprNode (CallExpr h callee ts args)) \<longrightarrow> lawful si callee args)"
    unfolding everywhere_inside node_lawful_def by (auto split: node.split expr.split)
  then show ?thesis
    using ex_expr_exact [of si "ExprNode b"] assms unfolding exact_def everywhere_inside by simp
qed

lemma async_verdict: "verdict (\<forall>p \<in> set ps. param_mode p \<noteq> Inout) (async_params fname ps)"
proof (induction ps)
  case (Cons p ps)
  have e: "diag_severity (async_inout_diag fname p) = Error"
    by (simp add: async_inout_diag_def diag_at_def diag_error_def)
  from verdict_comp [OF verdict_report [OF e] Cons.IH, of "param_mode p = Inout"]
  show ?case by (rule verdict_eq) (auto simp: fun_eq_iff)
qed (simp add: verdict_def)

lemma ex_func_verdict:
  assumes "func_covered si d" "d = FuncDecl h attrs vis is_async ct recv nm ns gens ps eff res body"
  shows "verdict (func_lawful si d) (ex_func si is_async nm ps body)"
proof -
  have 1: "verdict (is_async \<longrightarrow> (\<forall>p \<in> set ps. param_mode p \<noteq> Inout)) (\<lambda>r. if is_async then async_params nm ps r else r)"
    using async_verdict [of ps nm] by (cases is_async) auto
  show ?thesis
  proof (cases body)
    case None
    from 1 show ?thesis by (rule verdict_eq) (auto simp: assms(2) func_lawful_def ex_func_def fun_eq_iff None)
  next
    case (Some b)
    have "\<forall>m. inside (ExprNode b) m \<longrightarrow> ex_covers si m"
      using assms by (simp add: func_covered_def Some)
    from verdict_comp [OF 1 body_verdict [OF this]] show ?thesis
      by (rule verdict_eq) (auto simp: assms(2) func_lawful_def ex_func_def fun_eq_iff Some)
  qed
qed

interpretation exclusivity: unit_walk "ex_decl si" "ex_decls si" "func_lawful si" "func_covered si"
proof
  show "ex_decl si d = ex_decls si (members d)" if "\<not> is_func_decl d" for d
    using that by (cases d) (simp_all add: ex_decl.simps members_def is_func_decl_def)
  show "verdict (func_lawful si d) (ex_decl si d)" if "is_func_decl d" "func_covered si d" for d
    using that ex_func_verdict [OF that(2)] by (cases d) (simp_all add: ex_decl.simps is_func_decl_def)
  show "func_lawful si d" if "\<not> is_func_decl d" for d
    using that by (cases d) (simp_all add: func_lawful_def is_func_decl_def)
qed simp_all

section \<open>Properties\<close>


text \<open>
  C17: A call reports every pair of borrows that breaks the law, once, in the order of the
  arguments, and nothing else.
\<close>

theorem call_reports_each_conflict:
  "diagnostics (scan_borrows si (call_borrows si callee args) r) = diagnostics r @
     (let bs = call_borrows si callee args in
      concat (map (\<lambda>i. concat (map (\<lambda>j. if compatible (bs ! i) (bs ! j) then [] else [conflict_diag si (bs ! i) (bs ! j)])
                               [Suc i..<length bs])) [0..<length bs]))"
proof -
  have against: "diagnostics (scan_against si a bs r) = diagnostics r
      @ concat (map (\<lambda>b. if compatible a b then [] else [conflict_diag si a b]) bs)" for a bs r
    by (induction bs arbitrary: r) (simp_all add: clash_compatible report_def)
  have upt: "concat (map g [0..<length bs]) = concat (map g' bs)"
    if "\<And>i. i < length bs \<Longrightarrow> g i = g' (bs ! i)" for g and g' :: "borrow \<Rightarrow> diagnostic list" and bs
    by (rule arg_cong [of _ _ concat], rule nth_equalityI) (simp_all add: that)
  have "diagnostics (scan_borrows si bs r) = diagnostics r @
      concat (map (\<lambda>i. concat (map (\<lambda>j. if compatible (bs ! i) (bs ! j) then [] else [conflict_diag si (bs ! i) (bs ! j)])
                               [Suc i..<length bs])) [0..<length bs])" for bs
  proof (induction bs arbitrary: r)
    case (Cons a bs)
    have shift: "[Suc i..<Suc n] = map Suc [i..<n]" for i n by (simp add: map_Suc_upt)
    have first: "concat (map (\<lambda>j. if compatible a ((a # bs) ! j) then [] else [conflict_diag si a ((a # bs) ! j)])
        [Suc 0..<length (a # bs)]) = concat (map (\<lambda>b. if compatible a b then [] else [conflict_diag si a b]) bs)"
      by (simp add: shift comp_def upt del: upt_Suc cong: if_cong)
    show ?case using Cons.IH [of "scan_against si a bs r"] first
      by (simp add: against upt_conv_Cons shift comp_def del: upt_Suc cong: if_cong)
  qed simp
  then show ?thesis by (simp add: Let_def)
qed

text \<open>
  C32: The overlap test of the checker is the question whether the two places share storage:
  one is an ancestor of the other. It is symmetric, distinct fields of one place never
  overlap, and a place overlaps each of its fields.
\<close>

theorem overlap_is_sharing:
  "(overlap p q \<longleftrightarrow> storage p \<inter> storage q \<noteq> {}) \<and> overlap p q = overlap q p
   \<and> (overlap (p\<lparr>place_path := place_path p @ [m]\<rparr>) (p\<lparr>place_path := place_path p @ [n]\<rparr>) \<longleftrightarrow> m = n)
   \<and> overlap p (p\<lparr>place_path := place_path p @ [m]\<rparr>)"
  using overlap_storage overlap_sym by (auto simp: overlap_prefix)

section \<open>Concrete programs\<close>

text \<open>Every identifier in these programs is the same local.\<close>

definition one_local :: "unit sema_info" where
  "one_local = \<lparr>tables = empty_resolution\<lparr>expr_symbols := (\<lambda>a. if a < 10 then Some (Some 0) else None)\<rparr>,
     symbol_at = (\<lambda>_. local_symbol ''x'')\<rparr>"

text \<open>The calls \<^verbatim>\<open>f(&x, x)\<close> and \<^verbatim>\<open>f(&x.a, x.b)\<close>.\<close>

definition clashing_call :: expr where
  "clashing_call = CallExpr (here 20) (IdentExpr (here 11) ''f'') []
     [Arg [] True (IdentExpr (here 3) ''x''), Arg [] False (IdentExpr (here 2) ''x'')]"

definition field_call :: expr where
  "field_call = CallExpr (here 20) (IdentExpr (here 11) ''f'') []
     [Arg [] True (MemberExpr (here 12) (IdentExpr (here 3) ''x'') ''a'' None False),
      Arg [] False (MemberExpr (here 13) (IdentExpr (here 2) ''x'') ''b'' None False)]"

lemma unit_check: "exclusivity_check si (unit_of b) r = ex_expr si b r"
  by (simp add: exclusivity_check_def unit_of_def func_of_def ex_decl.simps ex_func_def)

lemma call_places:
  "call_borrows one_local (IdentExpr (here 11) ''f'')
     [Arg [] True (IdentExpr (here 3) ''x''), Arg [] False (IdentExpr (here 2) ''x'')] =
   [\<lparr>borrow_place = \<lparr>place_root = 0, place_path = []\<rparr>, borrow_access = InoutAccess, borrow_site = node_range (here 3)\<rparr>,
    \<lparr>borrow_place = \<lparr>place_root = 0, place_path = []\<rparr>, borrow_access = ReadAccess, borrow_site = node_range (here 2)\<rparr>]"
  by (simp add: call_borrows_def borrow_of_arg_def receiver_borrow_def callee_func_def declared_mode_def
      as_place.simps symbol_of_def one_local_def empty_resolution_def here_def symbol_place_def
      local_symbol_def is_storage_kind_def expr_hdr_def Let_def)

lemma clashing_reports: "error_count (ex_expr one_local clashing_call r) = Suc (error_count r)"
  by (simp add: clashing_call_def ex_expr.simps call_places clash_def overlap_def conflict_def report_def)

lemma not_all_pos: "\<not> All ((<) (0::nat))"
  by blast

lemma field_call_silent: "ex_expr one_local field_call r = r"
  by (simp add: field_call_def ex_expr.simps call_borrows_def borrow_of_arg_def receiver_borrow_def
      callee_func_def declared_mode_def as_place.simps symbol_of_def one_local_def empty_resolution_def here_def
      symbol_place_def local_symbol_def is_storage_kind_def expr_hdr_def Let_def type_of_expr_def clash_def overlap_def not_all_pos)

lemma calls_covered:
  "\<forall>f. declared_in (unit_decls (unit_of clashing_call)) f \<longrightarrow> func_covered one_local f"
  "\<forall>f. declared_in (unit_decls (unit_of field_call)) f \<longrightarrow> func_covered one_local f"
proof -
  have "everywhere (ex_covers one_local) [ExprNode clashing_call]" "everywhere (ex_covers one_local) [ExprNode field_call]"
    by (simp_all add: clashing_call_def field_call_def ex_covers_def ex_handles_def elements_apart_def position_expr_def nth_Cons' borrows.simps)
  then show "\<forall>f. declared_in (unit_decls (unit_of clashing_call)) f \<longrightarrow> func_covered one_local f"
    "\<forall>f. declared_in (unit_decls (unit_of field_call)) f \<longrightarrow> func_covered one_local f"
    unfolding everywhere_inside declared_unit by (simp_all add: func_of_def func_covered_def)
qed


end
