(* ===== verification/Provenance.thy ===== *)
theory Provenance
  imports Exclusivity_Props Scopes_Props
begin

text \<open>
  Partition provenance, \<^verbatim>\<open>Resolver::record_partition_provenance\<close> in
  \<^verbatim>\<open>src/sema/resolver_match.cpp\<close>: the resolver notes on the symbol of a sub-view, a
  \<^verbatim>\<open>split\<close> half or a \<^verbatim>\<open>chunks\<close> iterator, which symbol it was taken from, and the exclusivity
  checker reads it there. The resolver writes through the scope stack; the checker follows the
  same addresses afterwards.
\<close>

section \<open>Recording\<close>

fun strip_parens :: "expr \<Rightarrow> expr" where
  "strip_parens (ParenExpr h inner) = strip_parens inner"
| "strip_parens e = e"

definition bound_name :: "pattern \<Rightarrow> string" where
  "bound_name p = (case p of IdentPat h x \<Rightarrow> x | BindPat h x \<Rightarrow> x | _ \<Rightarrow> [])"

definition annotate_pattern :: "pattern \<Rightarrow> sym_ref option \<Rightarrow> string \<Rightarrow> scope_stack \<Rightarrow> scope_stack option" where
  "annotate_pattern p root seg w = annotate (bound_name p) root seg w"

fun annotate_halves :: "nat \<Rightarrow> pattern list \<Rightarrow> sym_ref \<Rightarrow> scope_stack \<Rightarrow> scope_stack option" where
  "annotate_halves i [] parent w = Some w"
| "annotate_halves i (p # ps) parent w =
     (case annotate_pattern p (Some parent) (''@split'' @ dec i) w of
        None \<Rightarrow> None
      | Some w' \<Rightarrow> annotate_halves (Suc i) ps parent w')"

text \<open>The symbol a view is taken from, if it is a local or a parameter.\<close>

definition view_parent :: "'v resolution \<Rightarrow> scope_stack \<Rightarrow> expr \<Rightarrow> sym_ref option" where
  "view_parent res w base =
     (case symbol_of res base of
        None \<Rightarrow> None
      | Some a \<Rightarrow> if is_storage_kind (sym_kind (ss_symbols w ! a)) then Some a else None)"

definition record_alias :: "'v resolution \<Rightarrow> pattern \<Rightarrow> expr \<Rightarrow> scope_stack \<Rightarrow> scope_stack option" where
  "record_alias res pat ini w =
     (case ini of
        IdentExpr h x \<Rightarrow>
          (case symbol_of res ini of
             None \<Rightarrow> Some w
           | Some a \<Rightarrow>
               (case sym_provenance_root (ss_symbols w ! a) of
                  None \<Rightarrow> Some w
                | Some root \<Rightarrow> annotate_pattern pat (Some root) (sym_provenance_segment (ss_symbols w ! a)) w))
      | _ \<Rightarrow> Some w)"

definition record_view :: "pattern \<Rightarrow> string \<Rightarrow> sym_ref \<Rightarrow> scope_stack \<Rightarrow> scope_stack option" where
  "record_view pat member parent w =
     (case pat of
        TuplePat h ps \<Rightarrow>
          (if member = ''split'' then annotate_halves 0 ps parent w
           else if member = ''chunks'' then annotate_pattern pat (Some parent) ''@chunks'' w
           else Some w)
      | _ \<Rightarrow> (if member = ''chunks'' then annotate_pattern pat (Some parent) ''@chunks'' w else Some w))"

definition record_partition_provenance ::
  "'v resolution \<Rightarrow> pattern option \<Rightarrow> expr option \<Rightarrow> scope_stack \<Rightarrow> scope_stack option"
where
  "record_partition_provenance res pat ini w =
     (case (pat, ini) of
        (Some p, Some e) \<Rightarrow>
          (case strip_parens e of
             CallExpr h callee targs args \<Rightarrow>
               (case callee of
                  MemberExpr h2 base member sp ch \<Rightarrow>
                    (case view_parent res w base of
                       None \<Rightarrow> Some w
                     | Some parent \<Rightarrow> record_view p member parent w)
                | _ \<Rightarrow> Some w)
           | x \<Rightarrow> record_alias res p x w)
      | _ \<Rightarrow> Some w)"

text \<open>What the checkers are given once the resolver is done: its tables and its symbols.\<close>

definition handed_over :: "'v resolution \<Rightarrow> scope_stack \<Rightarrow> 'v sema_info" where
  "handed_over res w = \<lparr>tables = res, symbol_at = (\<lambda>a. ss_symbols w ! a)\<rparr>"

section \<open>What is recorded\<close>

lemma strip_parens_not_paren: "strip_parens e \<noteq> ParenExpr h i"
  by (induction e rule: strip_parens.induct) simp_all

lemma annotate_found:
  assumes "stack_ok w" "x \<noteq> []" "scope_lookup w (current_scope w) x = Some (Some a)"
  shows "annotate x r g w = Some (write_provenance a r g w)"
  using assms by (simp add: annotate_def lookup_mutable_def scope_lookup_def current_scope_def)

text \<open>
  The halves of a split: with the names found at distinct addresses, each address ends up with
  the parent and its own segment, and no other symbol changes.
\<close>

lemma annotate_halves_correct:
  assumes "stack_ok w" "length as = length ps" "distinct as"
    and "\<forall>k < length ps. bound_name (ps ! k) \<noteq> [] \<and> as ! k < length (ss_symbols w)
          \<and> scope_lookup w (current_scope w) (bound_name (ps ! k)) = Some (Some (as ! k))"
  shows "\<exists>w'. annotate_halves i ps parent w = Some w' \<and> stack_ok w' \<and> frames w' = frames w
     \<and> length (ss_symbols w') = length (ss_symbols w)
     \<and> (\<forall>k < length ps. sym_provenance_root (ss_symbols w' ! (as ! k)) = Some parent
           \<and> sym_provenance_segment (ss_symbols w' ! (as ! k)) = ''@split'' @ dec (i + k)
           \<and> sym_kind (ss_symbols w' ! (as ! k)) = sym_kind (ss_symbols w ! (as ! k)))
     \<and> (\<forall>b. b \<notin> set as \<longrightarrow> ss_symbols w' ! b = ss_symbols w ! b)"
  using assms
proof (induction ps arbitrary: i w as)
  case (Cons p ps)
  obtain a bs where as: "as = a # bs" using Cons.prems(2) by (cases as) auto
  define v where "v = write_provenance a (Some parent) (''@split'' @ dec i) w"
  have hd: "bound_name p \<noteq> []" "a < length (ss_symbols w)" "scope_lookup w (current_scope w) (bound_name p) = Some (Some a)"
    using Cons.prems(4) by (force simp: as)+
  have step: "annotate_pattern p (Some parent) (''@split'' @ dec i) w = Some v"
    unfolding annotate_pattern_def v_def by (rule annotate_found [OF Cons.prems(1) hd(1,3)])
  have v: "stack_ok v" "frames v = frames w" "length (ss_symbols v) = length (ss_symbols w)"
    using Cons.prems(1) by (simp_all add: v_def write_ok write_frames write_length)
  have look: "scope_lookup v (current_scope v) x = scope_lookup w (current_scope w) x" for x
    by (simp add: lookup_frames v(1,2) Cons.prems(1))
  have sym: "ss_symbols v ! a = (ss_symbols w ! a)\<lparr>sym_provenance_root := Some parent, sym_provenance_segment := ''@split'' @ dec i\<rparr>"
    "b \<noteq> a \<Longrightarrow> ss_symbols v ! b = ss_symbols w ! b" for b
    using hd(2) by (simp_all add: v_def write_provenance_def)
  have "\<forall>k < length ps. bound_name (ps ! k) \<noteq> [] \<and> bs ! k < length (ss_symbols v)
      \<and> scope_lookup v (current_scope v) (bound_name (ps ! k)) = Some (Some (bs ! k))"
    using Cons.prems(4) by (force simp: as look v(3))
  from Cons.IH [OF v(1) _ _ this, of "Suc i"] Cons.prems(2,3) as obtain w' where
    w': "annotate_halves (Suc i) ps parent v = Some w'" "stack_ok w'" "frames w' = frames w" "length (ss_symbols w') = length (ss_symbols w)"
      "\<forall>k < length ps. sym_provenance_root (ss_symbols w' ! (bs ! k)) = Some parent
           \<and> sym_provenance_segment (ss_symbols w' ! (bs ! k)) = ''@split'' @ dec (Suc i + k)
           \<and> sym_kind (ss_symbols w' ! (bs ! k)) = sym_kind (ss_symbols v ! (bs ! k))"
      "\<forall>b. b \<notin> set bs \<longrightarrow> ss_symbols w' ! b = ss_symbols v ! b"
    by (auto simp: v)
  have kind: "sym_kind (ss_symbols v ! b) = sym_kind (ss_symbols w ! b)" for b by (cases "b = a") (simp_all add: sym)
  have a: "ss_symbols w' ! a = ss_symbols v ! a" using w'(6) Cons.prems(3) by (simp add: as)
  show ?case
    using w' step by (auto simp: as a sym kind less_Suc_eq_0_disj nth_Cons')
qed simp

lemma dec_inj: "dec m = dec n \<Longrightarrow> m = n"
proof (induction m arbitrary: n rule: dec.induct)
  case (1 m)
  have digit: "digit_char i = digit_char j \<Longrightarrow> i < 10 \<Longrightarrow> j < 10 \<Longrightarrow> i = j" for i j
    unfolding digit_char_def by (drule arg_cong [of _ _ "of_char :: char \<Rightarrow> nat"]) simp
  show ?case
  proof (cases "m < 10")
    case True
    with "1.prems" show ?thesis using digit
      by (subst (asm) dec.simps, subst (asm) (2) dec.simps) (auto simp: dec_nonempty [symmetric] split: if_splits)
  next
    case False
    with "1.prems" have n: "\<not> n < 10" by (subst (asm) dec.simps, subst (asm) (2) dec.simps) (auto split: if_splits)
    have "dec (m div 10) @ [digit_char (m mod 10)] = dec (n div 10) @ [digit_char (n mod 10)]"
      using "1.prems" False n by (subst (asm) dec.simps, subst (asm) (2) dec.simps) simp
    then have "m div 10 = n div 10" "m mod 10 = n mod 10" using "1.IH" [OF False] digit by auto
    then show ?thesis by (metis div_mod_decomp)
  qed
qed

section \<open>Properties\<close>

text \<open>
  C18: After \<^verbatim>\<open>let (p0, ..., pn) = x.split(...)\<close>, where \<open>x\<close> is storage that is no view itself (its
  symbol has no provenance) and every element of the pattern binds a name of its own, found at
  an address of its own, the resolver has recorded the halves so that the exclusivity checker
  sees two different halves as places with no common storage, and each half as part of \<open>x\<close>.
\<close>

theorem split_halves_disjoint:
  assumes "stack_ok w" "length as = length ps" "distinct as" "x \<notin> set as"
    and "\<forall>k < length ps. bound_name (ps ! k) \<noteq> [] \<and> as ! k < length (ss_symbols w)
          \<and> scope_lookup w (current_scope w) (bound_name (ps ! k)) = Some (Some (as ! k))
          \<and> is_storage_kind (sym_kind (ss_symbols w ! (as ! k)))"
    and "symbol_of res base = Some x" "is_storage_kind (sym_kind (ss_symbols w ! x))"
    and "sym_provenance_root (ss_symbols w ! x) = None"
  shows "\<exists>w' px. record_partition_provenance res (Some (TuplePat h ps))
         (Some (CallExpr h1 (MemberExpr h2 base ''split'' sp ch) ts args)) w = Some w'
     \<and> symbol_place (handed_over res w') (Some x) = Some px
     \<and> (\<forall>k < length ps. \<exists>pk. symbol_place (handed_over res w') (Some (as ! k)) = Some pk \<and> overlap pk px
          \<and> (\<forall>j < length ps. j \<noteq> k \<longrightarrow>
               (\<exists>pj. symbol_place (handed_over res w') (Some (as ! j)) = Some pj \<and> storage pj \<inter> storage pk = {})))"
proof -
  from annotate_halves_correct [OF assms(1-3), of 0 x] assms(5) obtain w' where
    w': "annotate_halves 0 ps x w = Some w'"
      "\<forall>k < length ps. sym_provenance_root (ss_symbols w' ! (as ! k)) = Some x
           \<and> sym_provenance_segment (ss_symbols w' ! (as ! k)) = ''@split'' @ dec k
           \<and> sym_kind (ss_symbols w' ! (as ! k)) = sym_kind (ss_symbols w ! (as ! k))"
      "\<forall>b. b \<notin> set as \<longrightarrow> ss_symbols w' ! b = ss_symbols w ! b"
    by auto
  have rec: "record_partition_provenance res (Some (TuplePat h ps))
         (Some (CallExpr h1 (MemberExpr h2 base ''split'' sp ch) ts args)) w = Some w'"
    using assms(6,7) w'(1) by (simp add: record_partition_provenance_def view_parent_def record_view_def)
  have px: "symbol_place (handed_over res w') (Some x) = Some \<lparr>place_root = x, place_path = []\<rparr>"
    using assms(4,7,8) w'(3) by (simp add: symbol_place_def handed_over_def)
  have pk: "symbol_place (handed_over res w') (Some (as ! k)) = Some \<lparr>place_root = x, place_path = [''@split'' @ dec k]\<rparr>"
    if "k < length ps" for k
    using assms(5) w'(2) that by (simp add: symbol_place_def handed_over_def)
  have "storage \<lparr>place_root = x, place_path = [''@split'' @ dec j]\<rparr> \<inter> storage \<lparr>place_root = x, place_path = [''@split'' @ dec k]\<rparr> = {}"
    if "j \<noteq> k" for j k
    using that dec_inj [of j k] by (auto simp: storage_def)
  then show ?thesis using rec px pk by (auto simp: overlap_prefix)
qed

section \<open>Concrete programs\<close>

definition view_stack :: scope_stack where
  "view_stack = \<lparr>ss_scopes = [\<lparr>scope_parent = None, scope_symbols = [''x'' \<mapsto> 0, ''a'' \<mapsto> 1, ''b'' \<mapsto> 2, ''c'' \<mapsto> 3, ''d'' \<mapsto> 4]\<rparr>],
     ss_active = 0, ss_symbols = map local_symbol [''x'', ''a'', ''b'', ''c'', ''d'']\<rparr>"

text \<open>The identifier with address \<open>n\<close> refers to the symbol with address \<open>n\<close>.\<close>

definition view_tables :: "unit resolution" where
  "view_tables = empty_resolution\<lparr>expr_symbols := (\<lambda>n. if n < 5 then Some (Some n) else None)\<rparr>"

definition split_of :: "nat \<Rightarrow> string \<Rightarrow> expr" where
  "split_of n x = CallExpr (here 20) (MemberExpr (here 21) (IdentExpr (here n) x) ''split'' None False) [] []"

lemma view_stack_ok: "stack_ok view_stack"
  by (auto simp: stack_ok_def view_stack_def local_symbol_def split: if_splits)

lemma view_lookup:
  "scope_lookup view_stack 0 ''a'' = Some (Some 1)" "scope_lookup view_stack 0 ''b'' = Some (Some 2)"
  by (simp_all add: scope_lookup_def scope_walk.simps lookup_local_def view_stack_def)

lemma view_symbol_of: "n < 5 \<Longrightarrow> symbol_of view_tables (IdentExpr (here n) x) = Some n"
  by (simp add: symbol_of_def view_tables_def here_def expr_hdr_def)

lemma below_two: "(\<forall>k < Suc (Suc 0). P k) \<longleftrightarrow> P 0 \<and> P (Suc 0)"
  by (auto simp: less_Suc_eq)

theorem split_halves_disjoint_witness:
  "\<exists>w'. record_partition_provenance view_tables (Some (TuplePat (here 9) [IdentPat (here 7) ''a'', IdentPat (here 8) ''b'']))
     (Some (split_of 0 ''x'')) view_stack = Some w'"
proof -
  have *: "symbol_of view_tables (IdentExpr (here 0) ''x'') = Some 0" by (rule view_symbol_of) simp
  have active: "current_scope view_stack = 0" by (simp add: current_scope_def view_stack_def)
  have names: "\<forall>k < length [IdentPat (here 7) ''a'', IdentPat (here 8) ''b''].
      bound_name ([IdentPat (here 7) ''a'', IdentPat (here 8) ''b''] ! k) \<noteq> [] \<and> [1, 2] ! k < length (ss_symbols view_stack)
      \<and> scope_lookup view_stack (current_scope view_stack) (bound_name ([IdentPat (here 7) ''a'', IdentPat (here 8) ''b''] ! k)) = Some (Some ([1, 2] ! k))
      \<and> is_storage_kind (sym_kind (ss_symbols view_stack ! ([1, 2] ! k)))"
    unfolding active by (simp add: below_two bound_name_def view_lookup) (simp add: view_stack_def local_symbol_def is_storage_kind_def)
  have x: "is_storage_kind (sym_kind (ss_symbols view_stack ! 0))" "sym_provenance_root (ss_symbols view_stack ! 0) = None"
    by (simp_all add: view_stack_def local_symbol_def is_storage_kind_def)
  show ?thesis unfolding split_of_def
    using split_halves_disjoint [OF view_stack_ok _ _ _ names * x, of "here 9" "here 20" "here 21" None False "[]" "[]"] by auto
qed

text \<open>
  C35: The condition on the parent is needed: when \<open>x\<close> is itself a view, of some \<open>r\<close>, the halves of
  \<open>x\<close> are recorded as parts of the symbol \<open>x\<close> while the place of \<open>x\<close> is a part of \<open>r\<close>. So for the
  checker no half of a view overlaps the view, nor the variable the view was taken from, in
  whatever scopes and tables, although its memory is part of both.
\<close>

theorem nested_split_loses_parent:
  assumes "stack_ok w" "length as = length ps" "distinct as" "x \<notin> set as"
    and "\<forall>k < length ps. bound_name (ps ! k) \<noteq> [] \<and> as ! k < length (ss_symbols w)
          \<and> scope_lookup w (current_scope w) (bound_name (ps ! k)) = Some (Some (as ! k))
          \<and> is_storage_kind (sym_kind (ss_symbols w ! (as ! k)))"
    and "symbol_of res base = Some x" "is_storage_kind (sym_kind (ss_symbols w ! x))"
    and "sym_provenance_root (ss_symbols w ! x) = Some r" "r \<noteq> x" "r \<notin> set as"
    and "is_storage_kind (sym_kind (ss_symbols w ! r))" "sym_provenance_root (ss_symbols w ! r) = None"
  shows "\<exists>w' px pr. record_partition_provenance res (Some (TuplePat h ps))
         (Some (CallExpr h1 (MemberExpr h2 base ''split'' sp ch) ts args)) w = Some w'
     \<and> symbol_place (handed_over res w') (Some x) = Some px \<and> symbol_place (handed_over res w') (Some r) = Some pr
     \<and> overlap px pr
     \<and> (\<forall>k < length ps. \<exists>pk. symbol_place (handed_over res w') (Some (as ! k)) = Some pk
          \<and> \<not> overlap pk px \<and> \<not> overlap pk pr)"
proof -
  from annotate_halves_correct [OF assms(1-3), of 0 x] assms(5) obtain w' where
    w': "annotate_halves 0 ps x w = Some w'"
      "\<forall>k < length ps. sym_provenance_root (ss_symbols w' ! (as ! k)) = Some x
           \<and> sym_kind (ss_symbols w' ! (as ! k)) = sym_kind (ss_symbols w ! (as ! k))"
      "\<forall>b. b \<notin> set as \<longrightarrow> ss_symbols w' ! b = ss_symbols w ! b"
    by auto
  have rec: "record_partition_provenance res (Some (TuplePat h ps))
         (Some (CallExpr h1 (MemberExpr h2 base ''split'' sp ch) ts args)) w = Some w'"
    using assms(6,7) w'(1) by (simp add: record_partition_provenance_def view_parent_def record_view_def)
  have px: "symbol_place (handed_over res w') (Some x)
      = Some \<lparr>place_root = r, place_path = [sym_provenance_segment (ss_symbols w ! x)]\<rparr>"
    using assms(4,7,8) w'(3) by (simp add: symbol_place_def handed_over_def)
  have pr: "symbol_place (handed_over res w') (Some r) = Some \<lparr>place_root = r, place_path = []\<rparr>"
    using assms(10-12) w'(3) by (simp add: symbol_place_def handed_over_def)
  have pk: "\<exists>pk. symbol_place (handed_over res w') (Some (as ! k)) = Some pk \<and> place_root pk = x" if "k < length ps" for k
    using assms(5) w'(2) that by (simp add: symbol_place_def handed_over_def)
  have "\<not> overlap pk \<lparr>place_root = r, place_path = segs\<rparr>" if "place_root pk = x" for pk segs
    using that assms(9) by (simp add: overlap_prefix)
  moreover have "overlap \<lparr>place_root = r, place_path = segs\<rparr> \<lparr>place_root = r, place_path = []\<rparr>" for segs
    by (simp add: overlap_prefix)
  ultimately show ?thesis using rec px pr pk by blast
qed

text \<open>The stack after the first split: \<open>a\<close> is a half of \<open>x\<close>; now \<open>a\<close> is split into \<open>c\<close> and \<open>d\<close>.\<close>

definition halved_stack :: scope_stack where
  "halved_stack = write_provenance 1 (Some 0) ''@split0'' view_stack"

theorem nested_split_loses_parent_witness:
  "\<exists>w' px p. record_partition_provenance view_tables (Some (TuplePat (here 9) [IdentPat (here 7) ''c'', IdentPat (here 8) ''d'']))
     (Some (split_of 1 ''a'')) halved_stack = Some w'
     \<and> symbol_place (handed_over view_tables w') (Some 1) = Some px
     \<and> symbol_place (handed_over view_tables w') (Some 3) = Some p \<and> \<not> overlap p px"
proof -
  have ok: "stack_ok halved_stack" by (simp add: halved_stack_def write_ok view_stack_ok)
  have *: "symbol_of view_tables (IdentExpr (here 1) ''a'') = Some 1" by (rule view_symbol_of) simp
  have active: "current_scope halved_stack = 0" by (simp add: current_scope_def view_stack_def halved_stack_def write_provenance_def)
  have look: "scope_lookup halved_stack 0 ''c'' = Some (Some 3)" "scope_lookup halved_stack 0 ''d'' = Some (Some 4)"
    by (simp_all add: scope_lookup_def scope_walk.simps lookup_local_def view_stack_def halved_stack_def write_provenance_def)
  have syms: "length (ss_symbols halved_stack) = 5" "sym_provenance_root (ss_symbols halved_stack ! 1) = Some 0"
    "sym_provenance_root (ss_symbols halved_stack ! 0) = None"
    "k < 5 \<Longrightarrow> is_storage_kind (sym_kind (ss_symbols halved_stack ! k))" for k
    by (auto simp: halved_stack_def write_provenance_def view_stack_def local_symbol_def is_storage_kind_def nth_Cons' nth_list_update)
  have names: "\<forall>k < length [IdentPat (here 7) ''c'', IdentPat (here 8) ''d''].
      bound_name ([IdentPat (here 7) ''c'', IdentPat (here 8) ''d''] ! k) \<noteq> [] \<and> [3, 4] ! k < length (ss_symbols halved_stack)
      \<and> scope_lookup halved_stack (current_scope halved_stack) (bound_name ([IdentPat (here 7) ''c'', IdentPat (here 8) ''d''] ! k)) = Some (Some ([3, 4] ! k))
      \<and> is_storage_kind (sym_kind (ss_symbols halved_stack ! ([3, 4] ! k)))"
    unfolding active by (simp add: below_two bound_name_def look syms)
  have side: "length [3::nat, 4] = length [IdentPat (here 7) ''c'', IdentPat (here 8) ''d'']" "distinct [3::nat, 4]"
    "1 \<notin> set [3::nat, 4]" "(0::nat) \<noteq> 1" "0 \<notin> set [3::nat, 4]" "1 < (5::nat)" "0 < (5::nat)" by simp_all
  note * = nested_split_loses_parent [where h = "here 9" and ?h1.0 = "here 20" and ?h2.0 = "here 21" and sp = None and ch = False
    and ts = "[]" and args = "[]", OF ok side(1-3) names * syms(4) [OF side(6)] syms(2) side(4,5) syms(4) [OF side(7)] syms(3)]
  then obtain w' px pr where w': "record_partition_provenance view_tables (Some (TuplePat (here 9) [IdentPat (here 7) ''c'', IdentPat (here 8) ''d'']))
       (Some (CallExpr (here 20) (MemberExpr (here 21) (IdentExpr (here 1) ''a'') ''split'' None False) [] [])) halved_stack = Some w'"
    and px: "symbol_place (handed_over view_tables w') (Some 1) = Some px"
    and half: "\<forall>k < length [IdentPat (here 7) ''c'', IdentPat (here 8) ''d'']. \<exists>pk.
       symbol_place (handed_over view_tables w') (Some ([3, 4] ! k)) = Some pk \<and> \<not> overlap pk px \<and> \<not> overlap pk pr"
    by (elim exE conjE) (rule that)
  have "\<exists>p. symbol_place (handed_over view_tables w') (Some 3) = Some p \<and> \<not> overlap p px"
    using half [rule_format, of 0] by auto
  with w' px show ?thesis unfolding split_of_def by blast
qed

end
