(* ===== verification/Ownership.thy ===== *)
theory Ownership
  imports Resolution "HOL-Library.AList"
begin

text \<open>
  Ownership and moves, \<^verbatim>\<open>include/vestra/sema/ownership.hpp\<close> and
  \<^verbatim>\<open>src/sema/ownership.cpp\<close>. The state of the checker is the table of the bindings met so far
  in the function and the reporter. The table is an association list in the order of first
  insertion; the hash map of the code is walked in an unspecified order, which only changes
  the order of the reports of one walk.
\<close>

section \<open>State\<close>

datatype (plugins only: code) own_status = Live | Consumed

record binding_info =
  bi_state :: own_status
  bi_consume_site :: source_range

definition fresh_info :: binding_info where
  "fresh_info = \<lparr>bi_state = Live, bi_consume_site = no_range\<rparr>"

type_synonym binding_map = "(sym_ref \<times> binding_info) list"

record own_state =
  own_bindings :: binding_map
  own_reporter :: reporter

definition own_report :: "diagnostic \<Rightarrow> own_state \<Rightarrow> own_state" where
  "own_report d st = st\<lparr>own_reporter := report d (own_reporter st)\<rparr>"

text \<open>\<^verbatim>\<open>operator[]\<close>: a missing entry is created with the defaults.\<close>

definition slot :: "binding_map \<Rightarrow> sym_ref \<Rightarrow> binding_info" where
  "slot bs a = (case map_of bs a of None \<Rightarrow> fresh_info | Some i \<Rightarrow> i)"

section \<open>Predicates on types and symbols\<close>

definition is_trivial :: "type_ptr \<Rightarrow> bool" where
  "is_trivial t \<longleftrightarrow>
     (case t of
        None \<Rightarrow> True
      | Some u \<Rightarrow> ty_kind u \<in>
          {KInt8, KInt16, KInt32, KInt64, KInt, KUInt8, KUInt16, KUInt32, KUInt64, KUInt,
           KInt128, KUInt128, KFloat32, KFloat64, KBool, KChar, KUnit, KNever, KError})"

definition is_trackable_kind :: "symbol_kind \<Rightarrow> bool" where
  "is_trackable_kind k \<longleftrightarrow> k = SymLocal \<or> k = SymParameter"

definition is_linear_type :: "nat set \<Rightarrow> type_ptr \<Rightarrow> bool" where
  "is_linear_type lin t \<longleftrightarrow>
     (case t of
        None \<Rightarrow> False
      | Some u \<Rightarrow> ty_kind u = KStruct
          \<and> (case ty_decl u of None \<Rightarrow> False | Some d \<Rightarrow> decl_addr d \<in> lin))"

section \<open>Linear structs\<close>

fun struct_index :: "decl list \<Rightarrow> string \<Rightarrow> decl option" where
  "struct_index [] x = None"
| "struct_index (StructDecl h attrs vis is_lin nm gens fs ms deinit # ds) x =
     (if nm = x then Some (StructDecl h attrs vis is_lin nm gens fs ms deinit) else struct_index ds x)"
| "struct_index (d # ds) x = struct_index ds x"

fun declared_linear :: "decl list \<Rightarrow> nat set" where
  "declared_linear [] = {}"
| "declared_linear (StructDecl h attrs vis is_lin nm gens fs ms deinit # ds) =
     (if is_lin then insert (node_addr h) (declared_linear ds) else declared_linear ds)"
| "declared_linear (d # ds) = declared_linear ds"

definition field_struct_name :: "tyx option \<Rightarrow> string" where
  "field_struct_name t =
     (case t of
        Some (NamedType h path targs assoc consts gen) \<Rightarrow> (if path = [] then [] else last path)
      | _ \<Rightarrow> [])"

definition owns_linear :: "decl list \<Rightarrow> nat set \<Rightarrow> (tyx, expr) field \<Rightarrow> bool" where
  "owns_linear ds lin f \<longleftrightarrow>
     (case struct_index ds (field_struct_name (field_type f)) of
        None \<Rightarrow> False
      | Some d \<Rightarrow> node_id d \<in> lin)"

text \<open>One round over the declarations: the flag \<^verbatim>\<open>changed\<close> and the set.\<close>

fun linear_round :: "decl list \<Rightarrow> decl list \<Rightarrow> bool \<Rightarrow> nat set \<Rightarrow> bool \<times> nat set" where
  "linear_round all [] changed lin = (changed, lin)"
| "linear_round all (StructDecl h attrs vis is_lin nm gens fs ms deinit # ds) changed lin =
     (if node_addr h \<in> lin then linear_round all ds changed lin
      else if \<exists>f \<in> set fs. owns_linear all lin f
      then linear_round all ds True (insert (node_addr h) lin)
      else linear_round all ds changed lin)"
| "linear_round all (d # ds) changed lin = linear_round all ds changed lin"

lemma linear_round_grows:
  "linear_round all ds c lin = (c', lin') \<Longrightarrow>
     lin \<subseteq> lin' \<and> lin' \<subseteq> lin \<union> node_id ` set ds \<and> (\<not> c \<longrightarrow> c' = (lin \<noteq> lin')) \<and> (c \<longrightarrow> c')"
proof (induction all ds c lin arbitrary: c' lin' rule: linear_round.induct)
  case (2 all h attrs vis is_lin nm gens fs ms deinit ds changed lin)
  define d where "d = StructDecl h attrs vis is_lin nm gens fs ms deinit"
  have i: "node_id d = node_addr h" by (simp add: d_def decl_hdr_def)
  show ?case
  proof (cases "node_addr h \<in> lin")
    case True
    with 2(4) have "linear_round all ds changed lin = (c', lin')" by simp
    from 2(1) [OF True this] show ?thesis unfolding d_def [symmetric] by auto
  next
    case False
    show ?thesis
    proof (cases "\<exists>f \<in> set fs. owns_linear all lin f")
      case True
      with 2(4) False have "linear_round all ds True (insert (node_addr h) lin) = (c', lin')" by simp
      from 2(2) [OF False True this] False show ?thesis unfolding d_def [symmetric] i [symmetric] by auto
    next
      case no: False
      with 2(4) False have "linear_round all ds changed lin = (c', lin')" by simp
      from 2(3) [OF False no this] show ?thesis unfolding d_def [symmetric] by auto
    qed
  qed
qed (simp; blast)+

function linear_loop :: "decl list \<Rightarrow> nat set \<Rightarrow> nat set" where
  "linear_loop ds lin =
     (let (changed, lin') = linear_round ds ds False lin
      in if changed then linear_loop ds lin' else lin')"
  by pat_completeness auto
termination
proof (relation "measure (\<lambda>(ds, lin). card (node_id ` set ds - lin))")
  fix ds lin p changed lin'
  assume "p = linear_round ds ds False lin" "(changed, lin') = p" "changed"
  then have "linear_round ds ds False lin = (True, lin')" by simp
  then have "lin \<subseteq> lin'" "lin' \<subseteq> lin \<union> node_id ` set ds" "lin \<noteq> lin'"
    using linear_round_grows by fastforce+
  then have "node_id ` set ds - lin' \<subset> node_id ` set ds - lin" by blast
  then show "((ds, lin'), (ds, lin)) \<in> measure (\<lambda>(ds, lin). card (node_id ` set ds - lin))"
    by (simp add: psubset_card_mono)
qed simp

declare linear_loop.simps [simp del]

definition compute_linear_decls :: "compilation_unit \<Rightarrow> nat set" where
  "compute_linear_decls u = linear_loop (unit_decls u) (declared_linear (unit_decls u))"

section \<open>Places\<close>

definition tracked_symbol :: "'v sema_info \<Rightarrow> expr \<Rightarrow> sym_ref option" where
  "tracked_symbol si e =
     (case symbol_of (tables si) e of
        None \<Rightarrow> None
      | Some a \<Rightarrow>
          (if \<not> is_trackable_kind (sym_kind (symbol_at si a)) then None
           else if is_trivial (sym_type (symbol_at si a)) then None
           else Some a))"

fun place_symbol :: "'v sema_info \<Rightarrow> expr \<Rightarrow> sym_ref option" where
  "place_symbol si (ParenExpr h inner) = place_symbol si inner"
| "place_symbol si (IdentExpr h x) = tracked_symbol si (IdentExpr h x)"
| "place_symbol si _ = None"

text \<open>A note is attached only when the site of the move is known.\<close>

definition with_site :: "source_range \<Rightarrow> string \<Rightarrow> diagnostic \<Rightarrow> diagnostic" where
  "with_site r msg d = (if range_is_valid r then with_note (diag_at r (diag_note msg)) d else d)"

definition double_move_diag :: "string \<Rightarrow> source_range \<Rightarrow> source_range \<Rightarrow> diagnostic" where
  "double_move_diag nm site moved =
     with_site moved (quoted nm @ '' was moved here'')
       (diag_at site (diag_error (quoted nm @ '' was already moved and cannot be moved again'')))"

definition use_diag :: "string \<Rightarrow> source_range \<Rightarrow> source_range \<Rightarrow> diagnostic" where
  "use_diag nm site moved =
     with_site moved (quoted nm @ '' was moved here; use `copy '' @ nm @ ''` if you need a duplicate'')
       (diag_at site (diag_error (''use of '' @ quoted nm @ '' after it was moved'')))"

definition consume_symbol :: "'v sema_info \<Rightarrow> sym_ref \<Rightarrow> source_range \<Rightarrow> own_state \<Rightarrow> own_state" where
  "consume_symbol si a site st =
     (let info = slot (own_bindings st) a in
      if bi_state info = Consumed
      then own_report (double_move_diag (sym_name (symbol_at si a)) site (bi_consume_site info)) st
      else st\<lparr>own_bindings := AList.update a \<lparr>bi_state = Consumed, bi_consume_site = site\<rparr> (own_bindings st)\<rparr>)"

definition consume_place :: "'v sema_info \<Rightarrow> expr \<Rightarrow> source_range \<Rightarrow> own_state \<Rightarrow> own_state" where
  "consume_place si e site st =
     (case place_symbol si e of None \<Rightarrow> st | Some a \<Rightarrow> consume_symbol si a site st)"

definition use_symbol :: "'v sema_info \<Rightarrow> sym_ref \<Rightarrow> source_range \<Rightarrow> own_state \<Rightarrow> own_state" where
  "use_symbol si a site st =
     (case map_of (own_bindings st) a of
        None \<Rightarrow> st
      | Some info \<Rightarrow>
          (if bi_state info = Live then st
           else own_report (use_diag (sym_name (symbol_at si a)) site (bi_consume_site info)) st))"

definition check_use :: "'v sema_info \<Rightarrow> expr \<Rightarrow> own_state \<Rightarrow> own_state" where
  "check_use si e st =
     (case tracked_symbol si e of None \<Rightarrow> st | Some a \<Rightarrow> use_symbol si a (expr_range e) st)"

section \<open>Joins\<close>

fun merge_consumed :: "binding_map \<Rightarrow> binding_map \<Rightarrow> binding_map" where
  "merge_consumed dst [] = dst"
| "merge_consumed dst ((a, info) # branch) =
     merge_consumed
       (if bi_state info \<noteq> Consumed then dst
        else if bi_state (slot dst a) \<noteq> Consumed
        then AList.update a \<lparr>bi_state = Consumed, bi_consume_site = bi_consume_site info\<rparr> dst
        else dst) branch"

definition consumed_in :: "binding_map \<Rightarrow> sym_ref \<Rightarrow> bool" where
  "consumed_in bs a \<longleftrightarrow> (case map_of bs a of None \<Rightarrow> False | Some i \<Rightarrow> bi_state i = Consumed)"

definition divergence_diag :: "string \<Rightarrow> source_range \<Rightarrow> diagnostic" where
  "divergence_diag nm site =
     diag_at site (diag_error (''linear value '' @ quoted nm
       @ '' is consumed on some branches but leaks on the path(s) that do not consume it''))"

fun report_linear_divergence ::
  "'v sema_info \<Rightarrow> nat set \<Rightarrow> binding_map \<Rightarrow> binding_map list \<Rightarrow> source_range \<Rightarrow> own_state \<Rightarrow> own_state"
where
  "report_linear_divergence si lin [] branches site st = st"
| "report_linear_divergence si lin ((a, info) # pre) branches site st =
     report_linear_divergence si lin pre branches site
       (if bi_state info = Consumed \<or> \<not> is_linear_type lin (sym_type (symbol_at si a)) then st
        else if (\<exists>b \<in> set branches. consumed_in b a) \<and> \<not> (\<forall>b \<in> set branches. consumed_in b a)
        then own_report (divergence_diag (sym_name (symbol_at si a)) site) st
        else st)"

definition register_linear_binding :: "'v sema_info \<Rightarrow> nat set \<Rightarrow> stmt \<Rightarrow> own_state \<Rightarrow> own_state" where
  "register_linear_binding si lin s st =
     (case binding_symbol (tables si) s of
        None \<Rightarrow> st
      | Some a \<Rightarrow>
          (if is_linear_type lin (sym_type (symbol_at si a))
           then st\<lparr>own_bindings := AList.update a ((slot (own_bindings st) a)\<lparr>bi_state := Live\<rparr>) (own_bindings st)\<rparr>
           else st))"

text \<open>Assigning to a variable makes it live again, if it is in the table.\<close>

definition revive :: "sym_ref option \<Rightarrow> own_state \<Rightarrow> own_state" where
  "revive s st =
     (case s of
        None \<Rightarrow> st
      | Some a \<Rightarrow>
          (case map_of (own_bindings st) a of
             None \<Rightarrow> st
           | Some info \<Rightarrow> st\<lparr>own_bindings := AList.update a fresh_info (own_bindings st)\<rparr>))"

section \<open>Calls\<close>

text \<open>What the symbol of a callee says about its parameters.\<close>

definition own_callee :: "'v sema_info \<Rightarrow> expr \<Rightarrow> decl option \<times> bool" where
  "own_callee si callee =
     (case symbol_of (tables si) callee of
        None \<Rightarrow> (None, False)
      | Some a \<Rightarrow>
          (let sym = symbol_at si a in
           case sym_decl sym of
             Some d \<Rightarrow>
               (if is_func_decl d then (Some d, False)
                else (None, sym_kind sym \<in> {SymStruct, SymEnum, SymEnumCase}))
           | None \<Rightarrow> (None, sym_kind sym \<in> {SymStruct, SymEnum, SymEnumCase})))"

definition own_arg_mode :: "decl option \<times> bool \<Rightarrow> nat \<Rightarrow> bool \<Rightarrow> param_mode" where
  "own_arg_mode c i is_inout =
     (if snd c then Sink
      else case fst c of
        Some d \<Rightarrow> if i < length (func_params d) then param_mode (func_params d ! i)
                  else if is_inout then Inout else Read
      | None \<Rightarrow> if is_inout then Inout else Read)"

definition own_arg_end :: "'v sema_info \<Rightarrow> decl option \<times> bool \<Rightarrow> nat \<Rightarrow> bool \<Rightarrow> expr \<Rightarrow> own_state \<Rightarrow> own_state" where
  "own_arg_end si c i is_inout e st =
     (if own_arg_mode c i is_inout = Sink then consume_place si e (expr_range e) st else st)"

section \<open>The traversal\<close>

text \<open>
  \<^verbatim>\<open>check_expr\<close>, \<^verbatim>\<open>check_stmt\<close> and \<^verbatim>\<open>check_call\<close>. A branch is checked from the table
  before the branches and its table is kept for the join; \<open>own_bodies\<close> is the loop over the
  arms, which returns the merged table and the tables of the arms.
\<close>

definition join_if :: "'v sema_info \<Rightarrow> nat set \<Rightarrow> source_range \<Rightarrow> (own_state \<Rightarrow> own_state) \<Rightarrow> (own_state \<Rightarrow> own_state)
    \<Rightarrow> own_state \<Rightarrow> own_state" where
  "join_if si lin site then_f else_f st =
     (let pre = own_bindings st;
          st1 = then_f st;
          then_state = own_bindings st1;
          st2 = else_f (st1\<lparr>own_bindings := pre\<rparr>);
          else_state = own_bindings st2;
          st3 = report_linear_divergence si lin pre [then_state, else_state] site st2
      in st3\<lparr>own_bindings := merge_consumed else_state then_state\<rparr>)"

definition one_body :: "(own_state \<Rightarrow> own_state) \<Rightarrow> binding_map \<Rightarrow> binding_map \<times> binding_map list \<times> own_state
    \<Rightarrow> binding_map \<times> binding_map list \<times> own_state" where
  "one_body f pre acc =
     (case acc of (merged, states, st) \<Rightarrow>
        (let st1 = f (st\<lparr>own_bindings := pre\<rparr>)
         in (merge_consumed merged (own_bindings st1), states @ [own_bindings st1], st1)))"

definition join_match :: "'v sema_info \<Rightarrow> nat set \<Rightarrow> source_range
    \<Rightarrow> (binding_map \<Rightarrow> binding_map \<times> binding_map list \<times> own_state \<Rightarrow> binding_map \<times> binding_map list \<times> own_state)
    \<Rightarrow> own_state \<Rightarrow> own_state" where
  "join_match si lin site bodies st =
     (let pre = own_bindings st in
      case bodies pre (pre, [], st) of (merged, states, st1) \<Rightarrow>
        (let st2 = (if states = [] then st1 else report_linear_divergence si lin pre states site st1)
         in st2\<lparr>own_bindings := merged\<rparr>))"

definition is_ident :: "expr \<Rightarrow> bool" where
  "is_ident e \<longleftrightarrow> (case e of IdentExpr h x \<Rightarrow> True | _ \<Rightarrow> False)"

function (sequential)
      own_expr :: "'v sema_info \<Rightarrow> nat set \<Rightarrow> expr \<Rightarrow> own_state \<Rightarrow> own_state"
  and own_opt :: "'v sema_info \<Rightarrow> nat set \<Rightarrow> expr option \<Rightarrow> own_state \<Rightarrow> own_state"
  and own_exprs :: "'v sema_info \<Rightarrow> nat set \<Rightarrow> expr list \<Rightarrow> own_state \<Rightarrow> own_state"
  and own_args :: "'v sema_info \<Rightarrow> nat set \<Rightarrow> decl option \<times> bool \<Rightarrow> nat \<Rightarrow> expr call_arg list \<Rightarrow> own_state \<Rightarrow> own_state"
  and own_guards :: "'v sema_info \<Rightarrow> nat set \<Rightarrow> (pattern, expr) match_arm list \<Rightarrow> own_state \<Rightarrow> own_state"
  and own_bodies :: "'v sema_info \<Rightarrow> nat set \<Rightarrow> (pattern, expr) match_arm list \<Rightarrow> binding_map
        \<Rightarrow> binding_map \<times> binding_map list \<times> own_state \<Rightarrow> binding_map \<times> binding_map list \<times> own_state"
  and own_stmt :: "'v sema_info \<Rightarrow> nat set \<Rightarrow> stmt \<Rightarrow> own_state \<Rightarrow> own_state"
  and own_stmts :: "'v sema_info \<Rightarrow> nat set \<Rightarrow> stmt list \<Rightarrow> own_state \<Rightarrow> own_state"
where
  "own_expr si lin e =
     (case e of
        IdentExpr h x \<Rightarrow> check_use si e
      | ParenExpr h inner \<Rightarrow> own_expr si lin inner
      | UnaryExpr h op operand \<Rightarrow> own_expr si lin operand
      | BinaryExpr h op a b \<Rightarrow> (\<lambda>st. own_expr si lin b (own_expr si lin a st))
      | CallExpr h callee targs args \<Rightarrow>
          (\<lambda>st. own_args si lin (own_callee si callee) 0 args (own_expr si lin callee st))
      | MemberExpr h base member sp chain \<Rightarrow> own_expr si lin base
      | IndexExpr h base indices targs \<Rightarrow> (\<lambda>st. own_exprs si lin indices (own_expr si lin base st))
      | CopyExpr h inner \<Rightarrow> own_expr si lin inner
      | AwaitExpr h inner \<Rightarrow> own_expr si lin inner
      | SpawnExpr h inner \<Rightarrow> own_expr si lin inner
      | ThrowExpr h inner \<Rightarrow> own_expr si lin inner
      | TryExpr h form inner \<Rightarrow> own_expr si lin inner
      | DoCatchExpr h do_body nm err guard catch_body \<Rightarrow>
          (\<lambda>st. own_expr si lin catch_body (own_expr si lin do_body st))
      | AsExpr h v target opt \<Rightarrow> own_expr si lin v
      | IfExpr h nm let_init cond then_b else_b \<Rightarrow>
          (\<lambda>st. join_if si lin (node_range h) (own_opt si lin then_b) (own_opt si lin else_b)
                 (if cond \<noteq> None then own_opt si lin cond st else own_opt si lin let_init st))
      | MatchExpr h scrutinee arms \<Rightarrow>
          (\<lambda>st. join_match si lin (node_range h) (own_bodies si lin arms)
                 (own_guards si lin arms (own_expr si lin scrutinee st)))
      | BlockExpr h stmts \<Rightarrow> own_stmts si lin stmts
      | VectorLitExpr h elements \<Rightarrow> own_exprs si lin elements
      | _ \<Rightarrow> (\<lambda>st. st))"
| "own_opt si lin None = (\<lambda>st. st)"
| "own_opt si lin (Some e) = own_expr si lin e"
| "own_exprs si lin [] = (\<lambda>st. st)"
| "own_exprs si lin (e # es) = (\<lambda>st. own_exprs si lin es (own_expr si lin e st))"
| "own_args si lin c i [] = (\<lambda>st. st)"
| "own_args si lin c i (Arg l io e # as) =
     (\<lambda>st. own_args si lin c (Suc i) as (own_arg_end si c i io e (own_expr si lin e st)))"
| "own_guards si lin [] = (\<lambda>st. st)"
| "own_guards si lin (MatchArm p g b d # arms) = (\<lambda>st. own_guards si lin arms (own_opt si lin g st))"
| "own_bodies si lin [] = (\<lambda>pre acc. acc)"
| "own_bodies si lin (MatchArm p g b d # arms) =
     (\<lambda>pre acc. own_bodies si lin arms pre (if b = None then acc else one_body (own_opt si lin b) pre acc))"
| "own_stmt si lin s =
     (case s of
        LetStmt h pat t v \<Rightarrow>
          (\<lambda>st. register_linear_binding si lin s
                 (case v of None \<Rightarrow> st
                  | Some e \<Rightarrow> consume_place si e (expr_range e) (own_expr si lin e st)))
      | VarStmt h pat t v \<Rightarrow>
          (\<lambda>st. register_linear_binding si lin s
                 (case v of None \<Rightarrow> st
                  | Some e \<Rightarrow> consume_place si e (expr_range e) (own_expr si lin e st)))
      | ExprStmt h e \<Rightarrow> own_expr si lin e
      | ReturnStmt h v \<Rightarrow>
          (\<lambda>st. case v of None \<Rightarrow> st
                | Some e \<Rightarrow> consume_place si e (node_range h) (own_expr si lin e st))
      | AssignStmt h op target v \<Rightarrow>
          (\<lambda>st. let st1 = own_expr si lin v st in
                case target of
                  None \<Rightarrow> st1
                | Some t \<Rightarrow> if is_ident t then revive (symbol_of (tables si) t) st1
                            else own_expr si lin t st1)
      | WhileStmt h l cond body \<Rightarrow> (\<lambda>st. own_opt si lin body (own_expr si lin cond st))
      | ForStmt h l pat iter body \<Rightarrow> (\<lambda>st. own_opt si lin body (own_expr si lin iter st))
      | _ \<Rightarrow> (\<lambda>st. st))"
| "own_stmts si lin [] = (\<lambda>st. st)"
| "own_stmts si lin (s # ss) = (\<lambda>st. own_stmts si lin ss (own_stmt si lin s st))"
  by pat_completeness auto
termination
  by (relation "measure (case_sum
       (case_sum (case_sum (\<lambda>(_, _, e). size e) (\<lambda>(_, _, x). size_option size x))
                 (case_sum (\<lambda>(_, _, es). size_list size es) (\<lambda>(_, _, _, _, as). size_list (size_call_arg size) as)))
       (case_sum (case_sum (\<lambda>(_, _, arms). size_list (size_match_arm size size) arms)
                           (\<lambda>(_, _, arms). size_list (size_match_arm size size) arms))
                 (case_sum (\<lambda>(_, _, s). size s) (\<lambda>(_, _, ss). size_list size ss))))") auto

declare own_expr.simps [simp del] own_stmt.simps [simp del]

section \<open>Functions and the unit\<close>

definition leak_diag :: "symbol \<Rightarrow> diagnostic" where
  "leak_diag s =
     diag_at (sym_definition_range s) (diag_error (''linear value '' @ quoted (sym_name s)
       @ '' is never consumed; a linear value must be moved to a sink parameter, returned, or destructured before its scope ends''))"

fun report_leaks :: "'v sema_info \<Rightarrow> nat set \<Rightarrow> binding_map \<Rightarrow> own_state \<Rightarrow> own_state" where
  "report_leaks si lin [] st = st"
| "report_leaks si lin ((a, info) # bs) st =
     report_leaks si lin bs
       (if bi_state info = Live \<and> is_linear_type lin (sym_type (symbol_at si a))
        then own_report (leak_diag (symbol_at si a)) st else st)"

definition own_func :: "'v sema_info \<Rightarrow> nat set \<Rightarrow> expr option \<Rightarrow> own_state \<Rightarrow> own_state" where
  "own_func si lin body st =
     (case body of
        None \<Rightarrow> st
      | Some b \<Rightarrow>
          (let st1 = own_expr si lin b (st\<lparr>own_bindings := []\<rparr>)
           in report_leaks si lin (own_bindings st1) st1))"

function (sequential)
      own_decl :: "'v sema_info \<Rightarrow> nat set \<Rightarrow> decl \<Rightarrow> own_state \<Rightarrow> own_state"
  and own_decls :: "'v sema_info \<Rightarrow> nat set \<Rightarrow> decl list \<Rightarrow> own_state \<Rightarrow> own_state"
where
  "own_decl si lin d =
     (case d of
        FuncDecl h attrs vis is_async ct recv nm ns gens ps eff res body \<Rightarrow> own_func si lin body
      | StructDecl h attrs vis is_lin nm gens fs methods deinit \<Rightarrow> own_decls si lin methods
      | EnumDecl h attrs vis nm gens cases methods \<Rightarrow> own_decls si lin methods
      | ExtensionDecl h attrs vis target confs members \<Rightarrow> own_decls si lin members
      | _ \<Rightarrow> (\<lambda>st. st))"
| "own_decls si lin [] = (\<lambda>st. st)"
| "own_decls si lin (d # ds) = (\<lambda>st. own_decls si lin ds (own_decl si lin d st))"
  by pat_completeness auto
termination
  by (relation "measure (case_sum (\<lambda>(_, _, d). size d) (\<lambda>(_, _, ds). size_list size ds))") auto

declare own_decl.simps [simp del]

definition ownership_check :: "'v sema_info \<Rightarrow> compilation_unit \<Rightarrow> reporter \<Rightarrow> reporter" where
  "ownership_check si u r =
     own_reporter (own_decls si (compute_linear_decls u) (unit_decls u)
       \<lparr>own_bindings = [], own_reporter = r\<rparr>)"

end
