(* ===== verification/Ownership_Props.thy ===== *)
theory Ownership_Props
  imports Ownership Samples "HOL-Library.Sublist"
begin

text \<open>
  What the ownership checker guarantees. An execution of a body is a list of events, the uses,
  moves and re-assignments of tracked bindings in the order they happen; \<open>run\<close> says which lists
  a body can produce, over every choice of branches, arms, guards and short-circuits. The
  checker is sound on \<open>regular\<close> code: when it adds no error, no execution uses or moves a
  binding that was moved before. The set of linear structs is the least one closed under
  ownership by a field.
\<close>

section \<open>Linear structs\<close>

definition is_linear_decl :: "decl \<Rightarrow> bool" where
  "is_linear_decl d \<longleftrightarrow> (case d of StructDecl h attrs vis l nm gens fs ms deinit \<Rightarrow> l | _ \<Rightarrow> False)"

definition struct_fields :: "decl \<Rightarrow> (tyx, expr) field list" where
  "struct_fields d = (case d of StructDecl h attrs vis l nm gens fs ms deinit \<Rightarrow> fs | _ \<Rightarrow> [])"

inductive linear_struct :: "decl list \<Rightarrow> nat \<Rightarrow> bool" for ds where
  declared: "d \<in> set ds \<Longrightarrow> is_linear_decl d \<Longrightarrow> linear_struct ds (node_id d)"
| owning: "d \<in> set ds \<Longrightarrow> f \<in> set (struct_fields d) \<Longrightarrow>
     struct_index ds (field_struct_name (field_type f)) = Some t \<Longrightarrow> linear_struct ds (node_id t) \<Longrightarrow>
     linear_struct ds (node_id d)"

lemma struct_simps [simp]:
  "node_id (StructDecl h attrs vis l nm gens fs ms deinit) = node_addr h"
  "is_linear_decl (StructDecl h attrs vis l nm gens fs ms deinit) = l"
  "struct_fields (StructDecl h attrs vis l nm gens fs ms deinit) = fs"
  by (simp_all add: decl_hdr_def is_linear_decl_def struct_fields_def)

lemma declared_linear_iff: "declared_linear ds = node_id ` {d \<in> set ds. is_linear_decl d}"
proof (induction ds rule: declared_linear.induct)
  case (2 h attrs vis is_lin nm gens fs ms deinit ds)
  have "{d \<in> set (StructDecl h attrs vis is_lin nm gens fs ms deinit # ds). is_linear_decl d} =
    (if is_lin then {StructDecl h attrs vis is_lin nm gens fs ms deinit} else {}) \<union> {d \<in> set ds. is_linear_decl d}"
    by auto
  then show ?case using 2 by (auto simp: image_Un)
qed (auto simp: is_linear_decl_def)

lemma linear_round_sound:
  "linear_round all ds c lin = (c', lin') \<Longrightarrow> set ds \<subseteq> set all \<Longrightarrow> (\<forall>a \<in> lin. linear_struct all a) \<Longrightarrow>
     \<forall>a \<in> lin'. linear_struct all a"
proof (induction all ds c lin arbitrary: c' lin' rule: linear_round.induct)
  case (2 all h attrs vis is_lin nm gens fs ms deinit ds changed lin)
  show ?case
  proof (cases "node_addr h \<in> lin")
    case True
    with 2(4) have "linear_round all ds changed lin = (c', lin')" by simp
    from 2(1) [OF True this] 2(5,6) show ?thesis by simp
  next
    case False
    show ?thesis
    proof (cases "\<exists>f \<in> set fs. owns_linear all lin f")
      case True
      then obtain f d where f: "f \<in> set fs" "struct_index all (field_struct_name (field_type f)) = Some d" "node_id d \<in> lin"
        by (auto simp: owns_linear_def split: option.splits)
      then have "linear_struct all (node_addr h)"
        using 2(5,6) owning [of "StructDecl h attrs vis is_lin nm gens fs ms deinit" all f d] by simp
      moreover from 2(4) False True have "linear_round all ds True (insert (node_addr h) lin) = (c', lin')" by simp
      ultimately show ?thesis using 2(2) [OF False True] 2(5,6) by simp
    next
      case no: False
      with 2(4) False have "linear_round all ds changed lin = (c', lin')" by simp
      from 2(3) [OF False no this] 2(5,6) show ?thesis by simp
    qed
  qed
qed simp_all

lemma linear_round_closed:
  "linear_round all ds c lin = (False, lin') \<Longrightarrow>
     d \<in> set ds \<Longrightarrow> f \<in> set (struct_fields d) \<Longrightarrow> owns_linear all lin f \<Longrightarrow> node_id d \<in> lin"
proof (induction all ds c lin rule: linear_round.induct)
  case (2 all h' attrs' vis' is_lin' nm' gens' fs' ms' deinit' ds changed lin)
  have "\<not> (\<exists>f \<in> set fs'. owns_linear all lin f) \<or> node_addr h' \<in> lin"
    using 2(4) linear_round_grows [of all ds True] by (auto split: if_splits)
  with 2 show ?case by (auto split: if_splits)
qed (auto simp: struct_fields_def)

lemma linear_loop_exact:
  "(\<forall>a \<in> lin. linear_struct ds a) \<Longrightarrow> declared_linear ds \<subseteq> lin \<Longrightarrow> a \<in> linear_loop ds lin \<longleftrightarrow> linear_struct ds a"
proof (induction ds lin rule: linear_loop.induct)
  case (1 ds lin)
  obtain changed lin' where r: "linear_round ds ds False lin = (changed, lin')" by fastforce
  have sound: "\<forall>a \<in> lin'. linear_struct ds a" by (rule linear_round_sound [OF r _ 1(2)]) simp
  have sub: "lin \<subseteq> lin'" "changed = (lin \<noteq> lin')" using linear_round_grows [OF r] by auto
  show ?case
  proof (cases changed)
    case True
    with 1(1) [OF r [symmetric]] sound sub 1(3) show ?thesis by (subst linear_loop.simps) (auto simp: r)
  next
    case False
    then have eq: "lin' = lin" and r: "linear_round ds ds False lin = (False, lin)" using sub r by auto
    have "linear_struct ds a \<Longrightarrow> a \<in> lin" for a
    proof (induction rule: linear_struct.induct)
      case (declared d)
      then show ?case using 1(3) by (auto simp: declared_linear_iff)
    next
      case (owning d f t)
      then have "owns_linear ds lin f" by (simp add: owns_linear_def)
      from linear_round_closed [OF r owning(1,2) this] show ?case .
    qed
    then show ?thesis using 1(2) r by (subst linear_loop.simps) auto
  qed
qed

section \<open>The state\<close>

definition moved :: "own_state \<Rightarrow> sym_ref set" where
  "moved st = {a. consumed_in (own_bindings st) a}"

definition errs :: "own_state \<Rightarrow> nat" where
  "errs st = error_count (own_reporter st)"

lemma map_of_update [simp]: "map_of (AList.update a i bs) = (map_of bs)(a \<mapsto> i)"
  by (rule update_conv')

lemma error_diags [simp]:
  "diag_severity (double_move_diag nm site r) = Error" "diag_severity (use_diag nm site r) = Error"
  "diag_severity (divergence_diag nm site) = Error" "diag_severity (leak_diag s) = Error"
  by (simp_all add: double_move_diag_def use_diag_def divergence_diag_def leak_diag_def with_site_def
      with_note_def diag_at_def diag_error_def)

lemma own_report_errs [simp]: "diag_severity d = Error \<Longrightarrow> errs (own_report d st) = Suc (errs st)"
  by (simp add: errs_def own_report_def report_def)

lemma own_report_bindings [simp]: "own_bindings (own_report d st) = own_bindings st" "moved (own_report d st) = moved st"
  by (simp_all add: own_report_def moved_def)

lemma errs_bindings [simp]: "errs (st\<lparr>own_bindings := b\<rparr>) = errs st"
  by (simp add: errs_def)

lemma moved_bindings [simp]: "moved (st\<lparr>own_bindings := b\<rparr>) = {a. consumed_in b a}"
  by (simp add: moved_def)

lemma consumed_slot: "bi_state (slot bs a) = Consumed \<longleftrightarrow> consumed_in bs a"
  by (simp add: slot_def consumed_in_def fresh_info_def split: option.split)

lemma consumed_update: "consumed_in (AList.update a i bs) b \<longleftrightarrow> (if b = a then bi_state i = Consumed else consumed_in bs b)"
  by (simp add: consumed_in_def)

text \<open>A join keeps every move of either side; with the keys distinct it has no other.\<close>

lemma merge_consumed_map:
  "distinct (map fst br) \<Longrightarrow> consumed_in (merge_consumed dst br) a \<longleftrightarrow> consumed_in dst a \<or> consumed_in br a"
proof (induction dst br rule: merge_consumed.induct)
  case (2 dst b info br)
  have "map_of br b = None" using "2.prems" by (simp add: map_of_eq_None_iff)
  then have "consumed_in ((b, info) # br) a \<longleftrightarrow> (a = b \<and> bi_state info = Consumed) \<or> consumed_in br a"
    by (auto simp: consumed_in_def)
  then show ?case using 2 by (auto simp: consumed_slot consumed_update)
qed (simp add: consumed_in_def)

lemma merge_keeps: "consumed_in dst a \<Longrightarrow> consumed_in (merge_consumed dst br) a"
  by (induction dst br rule: merge_consumed.induct) (auto simp: consumed_slot consumed_update)

lemma merge_adds: "consumed_in br a \<Longrightarrow> consumed_in (merge_consumed dst br) a"
proof (induction dst br rule: merge_consumed.induct)
  case (2 dst b info br)
  show ?case
  proof (cases "a = b")
    case True
    then show ?thesis using "2.prems" by (auto simp: consumed_in_def [of "(b, info) # br"] consumed_slot consumed_update intro!: merge_keeps)
  next
    case False
    with "2.prems" have "consumed_in br a" by (simp add: consumed_in_def)
    then show ?thesis using "2.IH" by simp
  qed
qed (simp add: consumed_in_def)

lemma divergence_bindings [simp]: "own_bindings (report_linear_divergence si lin pre bs site st) = own_bindings st"
  by (induction si lin pre bs site st rule: report_linear_divergence.induct) auto

lemma divergence_errs: "errs st \<le> errs (report_linear_divergence si lin pre bs site st)"
proof (induction si lin pre bs site st rule: report_linear_divergence.induct)
  case (2 si lin a info pre branches site st)
  have "errs st \<le> errs (if bi_state info = Consumed \<or> \<not> is_linear_type lin (sym_type (symbol_at si a)) then st
      else if (\<exists>b \<in> set branches. consumed_in b a) \<and> \<not> (\<forall>b \<in> set branches. consumed_in b a)
      then own_report (divergence_diag (sym_name (symbol_at si a)) site) st else st)" by simp
  from le_trans [OF this 2] show ?case by (simp only: report_linear_divergence.simps)
qed simp

section \<open>Events\<close>

datatype event = UseEv sym_ref | MoveEv sym_ref | ReviveEv sym_ref

text \<open>Safe: nothing that was moved is used or moved again, starting from a set of moved bindings.\<close>

fun safe :: "sym_ref set \<Rightarrow> event list \<Rightarrow> bool" where
  "safe m [] = True"
| "safe m (UseEv a # es) = (a \<notin> m \<and> safe m es)"
| "safe m (MoveEv a # es) = (a \<notin> m \<and> safe (insert a m) es)"
| "safe m (ReviveEv a # es) = safe (m - {a}) es"

fun moved_after :: "sym_ref set \<Rightarrow> event list \<Rightarrow> sym_ref set" where
  "moved_after m [] = m"
| "moved_after m (UseEv a # es) = moved_after m es"
| "moved_after m (MoveEv a # es) = moved_after (insert a m) es"
| "moved_after m (ReviveEv a # es) = moved_after (m - {a}) es"

definition no_revive :: "event list \<Rightarrow> bool" where
  "no_revive es \<longleftrightarrow> (\<forall>a. ReviveEv a \<notin> set es)"

lemma safe_append [simp]: "safe m (es @ fs) \<longleftrightarrow> safe m es \<and> safe (moved_after m es) fs"
  by (induction m es rule: safe.induct) auto

lemma moved_after_append [simp]: "moved_after m (es @ fs) = moved_after (moved_after m es) fs"
  by (induction m es rule: safe.induct) auto

lemma moved_after_grows: "no_revive es \<Longrightarrow> m \<subseteq> moved_after m es"
  by (induction m es rule: safe.induct) (auto simp: no_revive_def)

text \<open>What an expression does to the binding it names.\<close>

definition use_events :: "'v sema_info \<Rightarrow> expr \<Rightarrow> event list" where
  "use_events si e = (case tracked_symbol si e of None \<Rightarrow> [] | Some a \<Rightarrow> [UseEv a])"

definition move_events :: "'v sema_info \<Rightarrow> expr \<Rightarrow> event list" where
  "move_events si e = (case place_symbol si e of None \<Rightarrow> [] | Some a \<Rightarrow> [MoveEv a])"

definition revive_events :: "sym_ref option \<Rightarrow> event list" where
  "revive_events s = (case s of None \<Rightarrow> [] | Some a \<Rightarrow> [ReviveEv a])"

definition opt_move_events :: "'v sema_info \<Rightarrow> expr option \<Rightarrow> event list" where
  "opt_move_events si v = (case v of None \<Rightarrow> [] | Some e \<Rightarrow> move_events si e)"

section \<open>Executions\<close>

definition short_circuit :: "binary_op \<Rightarrow> bool" where
  "short_circuit op \<longleftrightarrow> op = AndOp \<or> op = OrOp \<or> op = CoalesceOp"

text \<open>Nodes that evaluate their parts in order, once each, and do nothing to a binding.\<close>

definition plain :: "node \<Rightarrow> bool" where
  "plain n \<longleftrightarrow>
     (case n of
        ExprNode e \<Rightarrow>
          (case e of
             IdentExpr _ _ \<Rightarrow> False | CallExpr _ _ _ _ \<Rightarrow> False | IfExpr _ _ _ _ _ _ \<Rightarrow> False
           | MatchExpr _ _ _ \<Rightarrow> False | SelectExpr _ _ _ _ _ \<Rightarrow> False | DoCatchExpr _ _ _ _ _ _ \<Rightarrow> False
           | ClosureExpr _ _ _ \<Rightarrow> False | _ \<Rightarrow> True)
      | StmtNode s \<Rightarrow>
          (case s of
             ExprStmt _ _ \<Rightarrow> True | BreakStmt _ _ \<Rightarrow> True | ContinueStmt _ _ \<Rightarrow> True | WithStmt _ _ _ \<Rightarrow> True
           | _ \<Rightarrow> False))"

definition guard_nodes :: "(pattern, expr) match_arm list \<Rightarrow> node list" where
  "guard_nodes arms = concat (map (\<lambda>a. opt_node (arm_guard a)) arms)"

definition cond_nodes :: "expr option \<Rightarrow> expr option \<Rightarrow> node list" where
  "cond_nodes cond let_init = (if cond \<noteq> None then opt_node cond else opt_node let_init)"

text \<open>
  \<open>run si n es\<close>: the node can be evaluated to its end with these events. A short-circuit
  operator may skip its right side; a match evaluates some of the guards up to the arm it
  takes; the body of a \<^verbatim>\<open>do\<close> may stop anywhere before the catch body runs; a loop runs any
  number of times. Every event list of an evaluation that leaves early is a prefix of one here.
\<close>

inductive run :: "'v sema_info \<Rightarrow> node \<Rightarrow> event list \<Rightarrow> bool"
  and runs :: "'v sema_info \<Rightarrow> node list \<Rightarrow> event list \<Rightarrow> bool"
  and run_args :: "'v sema_info \<Rightarrow> decl option \<times> bool \<Rightarrow> nat \<Rightarrow> expr call_arg list \<Rightarrow> event list \<Rightarrow> bool"
  for si :: "'v sema_info"
where
  runs_Nil: "runs si [] []"
| runs_Cons: "run si n es \<Longrightarrow> runs si ns fs \<Longrightarrow> runs si (n # ns) (es @ fs)"
| args_Nil: "run_args si c i [] []"
| args_Cons: "run si (ExprNode e) es \<Longrightarrow> run_args si c (Suc i) as fs \<Longrightarrow>
     run_args si c i (Arg l io e # as) (es @ (if own_arg_mode c i io = Sink then move_events si e else []) @ fs)"
| run_plain: "plain n \<Longrightarrow> runs si (direct n) es \<Longrightarrow> run si n es"
| run_ident: "run si (ExprNode (IdentExpr h x)) (use_events si (IdentExpr h x))"
| run_skip: "short_circuit op \<Longrightarrow> run si (ExprNode a) es \<Longrightarrow> run si (ExprNode (BinaryExpr h op a b)) es"
| run_call: "run si (ExprNode f) es \<Longrightarrow> run_args si (own_callee si f) 0 as fs \<Longrightarrow>
     run si (ExprNode (CallExpr h f ts as)) (es @ fs)"
| run_then: "runs si (cond_nodes c li) es \<Longrightarrow> runs si (opt_node t) fs \<Longrightarrow>
     run si (ExprNode (IfExpr h nm li c t f)) (es @ fs)"
| run_else: "runs si (cond_nodes c li) es \<Longrightarrow> runs si (opt_node f) fs \<Longrightarrow>
     run si (ExprNode (IfExpr h nm li c t f)) (es @ fs)"
| run_match: "run si (ExprNode s) es \<Longrightarrow> arm \<in> set arms \<Longrightarrow> subseq gs (guard_nodes arms) \<Longrightarrow> runs si gs fs \<Longrightarrow>
     runs si (opt_node (arm_body arm)) ks \<Longrightarrow> run si (ExprNode (MatchExpr h s arms)) (es @ fs @ ks)"
| run_do: "run si (ExprNode b) es \<Longrightarrow> run si (ExprNode (DoCatchExpr h b nm t g c)) es"
| run_catch: "run si (ExprNode b) (es @ rest) \<Longrightarrow> runs si (opt_node g @ [ExprNode c]) fs \<Longrightarrow>
     run si (ExprNode (DoCatchExpr h b nm t g c)) (es @ fs)"
| run_let: "runs si (opt_node v) es \<Longrightarrow>
     run si (StmtNode (LetStmt h p t v)) (es @ opt_move_events si v @ revive_events (binding_symbol (tables si) (LetStmt h p t v)))"
| run_var: "runs si (opt_node v) es \<Longrightarrow>
     run si (StmtNode (VarStmt h p t v)) (es @ opt_move_events si v @ revive_events (binding_symbol (tables si) (VarStmt h p t v)))"
| run_return: "runs si (opt_node v) es \<Longrightarrow> run si (StmtNode (ReturnStmt h v)) (es @ opt_move_events si v)"
| run_assign: "run si (ExprNode v) es \<Longrightarrow> is_ident t \<Longrightarrow>
     run si (StmtNode (AssignStmt h op (Some t) v))
       (es @ (if op = Assign then [] else use_events si t) @ revive_events (symbol_of (tables si) t))"
| run_assign_place: "run si (ExprNode v) es \<Longrightarrow> \<not> is_ident t \<Longrightarrow> run si (ExprNode t) fs \<Longrightarrow>
     run si (StmtNode (AssignStmt h op (Some t) v)) (es @ fs)"
| run_assign_none: "run si (ExprNode v) es \<Longrightarrow> run si (StmtNode (AssignStmt h op None v)) es"
| run_while: "runs si (concat (replicate k (ExprNode c # opt_node b)) @ [ExprNode c]) es \<Longrightarrow>
     run si (StmtNode (WhileStmt h l c b)) es"
| run_for: "runs si (ExprNode it # concat (replicate k (opt_node b))) es \<Longrightarrow>
     run si (StmtNode (ForStmt h l p it b)) es"

text \<open>
  Where the analysis is claimed: no loops, no construct the checker does not walk, no compound
  assignment to a name; and no re-assignment or declaration in a part that may be skipped.
\<close>

definition still :: "node \<Rightarrow> bool" where
  "still n \<longleftrightarrow>
     (case n of
        StmtNode s \<Rightarrow> (case s of LetStmt _ _ _ _ \<Rightarrow> False | VarStmt _ _ _ _ \<Rightarrow> False | AssignStmt _ _ _ _ \<Rightarrow> False | _ \<Rightarrow> True)
      | _ \<Rightarrow> True)"

definition regular :: "node \<Rightarrow> bool" where
  "regular n \<longleftrightarrow>
     (case n of
        ExprNode e \<Rightarrow>
          (case e of
             SelectExpr _ _ _ _ _ \<Rightarrow> direct_expr e = []
           | ClosureExpr _ _ _ \<Rightarrow> direct_expr e = []
           | ComptimeExpr _ _ \<Rightarrow> False
           | InterpStringExpr _ _ \<Rightarrow> direct_expr e = []
           | MacroCallExpr _ _ _ _ \<Rightarrow> direct_expr e = []
           | AddressOfExpr _ _ \<Rightarrow> False
           | TupleLitExpr _ _ \<Rightarrow> direct_expr e = []
           | DoCatchExpr _ b _ _ g c \<Rightarrow> g = None \<and> everywhere still [ExprNode b, ExprNode c]
           | BinaryExpr _ op _ b \<Rightarrow> short_circuit op \<longrightarrow> everywhere still [ExprNode b]
           | MatchExpr _ _ arms \<Rightarrow> everywhere still (guard_nodes arms)
           | _ \<Rightarrow> True)
      | StmtNode s \<Rightarrow>
          (case s of
             WhileStmt _ _ _ _ \<Rightarrow> False
           | ForStmt _ _ _ _ _ \<Rightarrow> False
           | WithStmt _ _ _ \<Rightarrow> direct_stmt s = []
           | AssignStmt _ op t _ \<Rightarrow> op = Assign
           | _ \<Rightarrow> True))"

section \<open>The checker over nodes\<close>

definition own_node :: "'v sema_info \<Rightarrow> nat set \<Rightarrow> node \<Rightarrow> own_state \<Rightarrow> own_state" where
  "own_node si lin n = (case n of ExprNode e \<Rightarrow> own_expr si lin e | StmtNode s \<Rightarrow> own_stmt si lin s)"

lemma own_node_simps [simp]:
  "own_node si lin (ExprNode e) = own_expr si lin e"
  "own_node si lin (StmtNode s) = own_stmt si lin s"
  by (simp_all add: own_node_def)

fun own_nodes :: "'v sema_info \<Rightarrow> nat set \<Rightarrow> node list \<Rightarrow> own_state \<Rightarrow> own_state" where
  "own_nodes si lin [] st = st"
| "own_nodes si lin (n # ns) st = own_nodes si lin ns (own_node si lin n st)"

lemma own_nodes_fun [simp]:
  "own_nodes si lin [] = (\<lambda>st. st)"
  "own_nodes si lin (n # ns) = (\<lambda>st. own_nodes si lin ns (own_node si lin n st))"
  by (simp_all add: fun_eq_iff)

lemma own_nodes_append [simp]: "own_nodes si lin (ns @ ms) st = own_nodes si lin ms (own_nodes si lin ns st)"
  by (induction ns arbitrary: st) simp_all

lemma own_lists_nodes:
  "own_opt si lin x st = own_nodes si lin (opt_node x) st"
  "own_exprs si lin es st = own_nodes si lin (map ExprNode es) st"
  "own_stmts si lin ss st = own_nodes si lin (map StmtNode ss) st"
  "own_guards si lin arms st = own_nodes si lin (guard_nodes arms) st"
proof -
  show opt: "own_opt si lin x st = own_nodes si lin (opt_node x) st" for x st by (cases x) simp_all
  show "own_exprs si lin es st = own_nodes si lin (map ExprNode es) st" by (induction es arbitrary: st) simp_all
  show "own_stmts si lin ss st = own_nodes si lin (map StmtNode ss) st" by (induction ss arbitrary: st) simp_all
  show "own_guards si lin arms st = own_nodes si lin (guard_nodes arms) st"
  proof (induction arms arbitrary: st)
    case (Cons a arms)
    then show ?case by (cases a) (simp add: guard_nodes_def opt)
  qed (simp add: guard_nodes_def)
qed

lemma own_nodes_none: "\<forall>x \<in> set xs. f x = [] \<Longrightarrow> own_nodes si lin (concat (map f xs)) st = st"
  by (induction xs) simp_all

lemma own_plain: "plain n \<Longrightarrow> regular n \<Longrightarrow> own_node si lin n st = own_nodes si lin (direct n) st"
  by (cases n; (rename_tac x, case_tac x)?)
     (auto simp: plain_def regular_def own_expr.simps own_stmt.simps own_lists_nodes own_nodes_none)

lemma own_if_node:
  "own_expr si lin (IfExpr h nm li c t f) st
     = join_if si lin (node_range h) (own_opt si lin t) (own_opt si lin f) (own_nodes si lin (cond_nodes c li) st)"
  by (simp add: own_expr.simps cond_nodes_def own_lists_nodes [symmetric])

section \<open>Steps of the checker\<close>

lemma consume_symbol_step:
  "errs st \<le> errs (consume_symbol si a site st)"
  "moved st \<subseteq> moved (consume_symbol si a site st)"
  "errs (consume_symbol si a site st) = errs st \<Longrightarrow> a \<notin> moved st \<and> moved (consume_symbol si a site st) = insert a (moved st)"
  by (auto simp: consume_symbol_def Let_def consumed_slot moved_def [of st] consumed_update)

lemma use_symbol_step:
  "errs st \<le> errs (use_symbol si a site st)"
  "moved (use_symbol si a site st) = moved st"
  "errs (use_symbol si a site st) = errs st \<Longrightarrow> a \<notin> moved st"
  by (auto simp: use_symbol_def moved_def [of st] consumed_in_def split: option.splits if_splits)

lemma consume_place_step:
  "errs st \<le> errs (consume_place si e site st)"
  "moved st \<subseteq> moved (consume_place si e site st)"
  "errs (consume_place si e site st) = errs st \<Longrightarrow> safe (moved st) (move_events si e)
     \<and> moved (consume_place si e site st) = moved_after (moved st) (move_events si e)"
  using consume_symbol_step [where si = si and st = st and site = site]
  by (cases "place_symbol si e"; simp add: consume_place_def move_events_def)+

lemma check_use_step:
  "errs st \<le> errs (check_use si e st)"
  "moved (check_use si e st) = moved st"
  "errs (check_use si e st) = errs st \<Longrightarrow> safe (moved st) (use_events si e)"
  using use_symbol_step [where si = si and st = st and site = "expr_range e"]
  by (cases "tracked_symbol si e"; simp add: check_use_def use_events_def)+

lemma register_step:
  "errs (register_linear_binding si lin s st) = errs st"
  "moved st - (case binding_symbol (tables si) s of None \<Rightarrow> {} | Some a \<Rightarrow> {a}) \<subseteq> moved (register_linear_binding si lin s st)"
  by (auto simp: register_linear_binding_def moved_def consumed_update split: option.split)

lemma revive_step:
  "errs (revive s st) = errs st"
  "moved (revive s st) = moved_after (moved st) (revive_events s)"
  by (auto simp: revive_def revive_events_def moved_def consumed_in_def consumed_update fresh_info_def split: option.split)

lemma arg_end_step:
  "errs st \<le> errs (own_arg_end si c i io e st)"
  "moved st \<subseteq> moved (own_arg_end si c i io e st)"
  "errs (own_arg_end si c i io e st) = errs st \<Longrightarrow>
     safe (moved st) (if own_arg_mode c i io = Sink then move_events si e else [])
     \<and> moved (own_arg_end si c i io e st) = moved_after (moved st) (if own_arg_mode c i io = Sink then move_events si e else [])"
  using consume_place_step [where si = si and st = st and e = e and site = "expr_range e"]
  by (cases "own_arg_mode c i io = Sink"; simp add: own_arg_end_def)+

lemma join_if_step:
  assumes "\<And>st. errs st \<le> errs (f st)" "\<And>st. errs st \<le> errs (g st)"
  shows "errs st \<le> errs (join_if si lin site f g st)"
    "moved (f st) \<subseteq> moved (join_if si lin site f g st)"
    "moved (g ((f st)\<lparr>own_bindings := own_bindings st\<rparr>)) \<subseteq> moved (join_if si lin site f g st)"
    "errs (join_if si lin site f g st) = errs st \<Longrightarrow>
       errs (f st) = errs st \<and> errs (g ((f st)\<lparr>own_bindings := own_bindings st\<rparr>)) = errs ((f st)\<lparr>own_bindings := own_bindings st\<rparr>)"
proof -
  define st2 where "st2 = g ((f st)\<lparr>own_bindings := own_bindings st\<rparr>)"
  define st3 where "st3 = report_linear_divergence si lin (own_bindings st) [own_bindings (f st), own_bindings st2] site st2"
  have j: "join_if si lin site f g st = st3\<lparr>own_bindings := merge_consumed (own_bindings st2) (own_bindings (f st))\<rparr>"
    by (simp add: join_if_def Let_def st2_def st3_def)
  have le: "errs st \<le> errs (f st)" "errs (f st) \<le> errs st2" "errs st2 \<le> errs st3"
    using assms(1) [of st] assms(2) [of "(f st)\<lparr>own_bindings := own_bindings st\<rparr>"] divergence_errs
    by (simp_all add: st2_def st3_def)
  show "errs st \<le> errs (join_if si lin site f g st)" using le by (simp add: j)
  show "moved (f st) \<subseteq> moved (join_if si lin site f g st)" by (auto simp: j moved_def merge_adds)
  show "moved (g ((f st)\<lparr>own_bindings := own_bindings st\<rparr>)) \<subseteq> moved (join_if si lin site f g st)"
    unfolding st2_def [symmetric] by (auto simp: j moved_def merge_keeps)
  show "errs (f st) = errs st \<and> errs (g ((f st)\<lparr>own_bindings := own_bindings st\<rparr>)) = errs ((f st)\<lparr>own_bindings := own_bindings st\<rparr>)"
    if "errs (join_if si lin site f g st) = errs st"
    using that le unfolding st2_def [symmetric] by (simp add: j)
qed

definition arms_grow :: "'v sema_info \<Rightarrow> nat set \<Rightarrow> (pattern, expr) match_arm list \<Rightarrow> bool" where
  "arms_grow si lin arms \<longleftrightarrow>
     (\<forall>arm \<in> set arms. \<forall>b. arm_body arm = Some b \<longrightarrow> (\<forall>st. errs st \<le> errs (own_expr si lin b st)))"

text \<open>The loop over the arms: nothing is lost, and every body was checked from the common table.\<close>

lemma bodies_step:
  assumes "arms_grow si lin arms"
    and "own_bodies si lin arms pre (m, ss, st) = (m', ss', st')"
  shows "errs st \<le> errs st' \<and> (\<forall>a. consumed_in m a \<longrightarrow> consumed_in m' a)
     \<and> (errs st' = errs st \<longrightarrow> (\<forall>arm \<in> set arms. \<forall>b. arm_body arm = Some b \<longrightarrow>
          (\<exists>v. own_bindings v = pre \<and> errs (own_expr si lin b v) = errs v
             \<and> (\<forall>a \<in> moved (own_expr si lin b v). consumed_in m' a))))"
  using assms
proof (induction arms arbitrary: m ss st)
  case (Cons arm arms)
  obtain p g b d where arm: "arm = MatchArm p g b d" by (cases arm)
  show ?case
  proof (cases b)
    case None
    then have b: "own_bodies si lin arms pre (m, ss, st) = (m', ss', st')" using Cons.prems(2) by (simp add: arm)
    have "arms_grow si lin arms" using Cons.prems(1) by (simp add: arms_grow_def)
    from Cons.IH [OF this b] show ?thesis by (simp add: arm None)
  next
    case (Some e)
    define v where "v = st\<lparr>own_bindings := pre\<rparr>"
    define st1 where "st1 = own_expr si lin e v"
    define m1 where "m1 = merge_consumed m (own_bindings st1)"
    have 1: "own_bodies si lin arms pre (m1, ss @ [own_bindings st1], st1) = (m', ss', st')"
      using Cons.prems(2) by (simp add: arm Some one_body_def Let_def v_def st1_def m1_def)
    have le: "errs st \<le> errs st1"
      using Cons.prems(1) by (auto simp: arms_grow_def arm Some st1_def) (metis errs_bindings v_def)
    have IH: "errs st1 \<le> errs st'" "\<forall>a. consumed_in m1 a \<longrightarrow> consumed_in m' a"
      "errs st' = errs st1 \<longrightarrow> (\<forall>arm \<in> set arms. \<forall>b. arm_body arm = Some b \<longrightarrow>
          (\<exists>v. own_bindings v = pre \<and> errs (own_expr si lin b v) = errs v
             \<and> (\<forall>a \<in> moved (own_expr si lin b v). consumed_in m' a)))"
      using Cons.IH [OF _ 1] Cons.prems(1) by (simp_all add: arms_grow_def)
    have here: "own_bindings v = pre \<and> (\<forall>a \<in> moved (own_expr si lin e v). consumed_in m' a)"
      using IH(2) unfolding st1_def [symmetric] by (auto simp: v_def moved_def m1_def merge_adds)
    have keep: "\<forall>a. consumed_in m a \<longrightarrow> consumed_in m' a" using IH(2) by (simp add: m1_def merge_keeps)
    show ?thesis
    proof (intro conjI impI)
      assume q: "errs st' = errs st"
      then have "errs (own_expr si lin e v) = errs v" "errs st' = errs st1"
        using le IH(1) by (simp_all add: st1_def [symmetric]) (simp add: v_def)
      then show "\<forall>arm \<in> set (arm # arms). \<forall>b. arm_body arm = Some b \<longrightarrow>
          (\<exists>v. own_bindings v = pre \<and> errs (own_expr si lin b v) = errs v
             \<and> (\<forall>a \<in> moved (own_expr si lin b v). consumed_in m' a))"
        using IH(3) here by (auto simp: arm Some)
    qed (use le IH(1) keep in auto)
  qed
qed simp

lemma join_match_step:
  assumes "arms_grow si lin arms"
  shows "errs st \<le> errs (join_match si lin site (own_bodies si lin arms) st)"
    "moved st \<subseteq> moved (join_match si lin site (own_bodies si lin arms) st)"
    "errs (join_match si lin site (own_bodies si lin arms) st) = errs st \<Longrightarrow> arm \<in> set arms \<Longrightarrow> arm_body arm = Some b \<Longrightarrow>
       \<exists>v. moved v = moved st \<and> errs (own_expr si lin b v) = errs v
         \<and> moved (own_expr si lin b v) \<subseteq> moved (join_match si lin site (own_bodies si lin arms) st)"
proof -
  obtain m ss st1 where b: "own_bodies si lin arms (own_bindings st) (own_bindings st, [], st) = (m, ss, st1)"
    by (metis prod_cases3)
  have step: "errs st \<le> errs st1 \<and> (\<forall>a. consumed_in (own_bindings st) a \<longrightarrow> consumed_in m a)
     \<and> (errs st1 = errs st \<longrightarrow> (\<forall>arm \<in> set arms. \<forall>b. arm_body arm = Some b \<longrightarrow>
          (\<exists>v. own_bindings v = own_bindings st \<and> errs (own_expr si lin b v) = errs v
             \<and> (\<forall>a \<in> moved (own_expr si lin b v). consumed_in m a))))"
    by (rule bodies_step [OF assms b])
  define st2 where "st2 = (if ss = [] then st1 else report_linear_divergence si lin (own_bindings st) ss site st1)"
  have j: "join_match si lin site (own_bodies si lin arms) st = st2\<lparr>own_bindings := m\<rparr>"
    by (simp add: join_match_def Let_def b st2_def)
  have le: "errs st \<le> errs st1" "errs st1 \<le> errs st2" using step divergence_errs by (auto simp: st2_def)
  show "errs st \<le> errs (join_match si lin site (own_bodies si lin arms) st)" using le by (simp add: j)
  show "moved st \<subseteq> moved (join_match si lin site (own_bodies si lin arms) st)" using step by (auto simp: j moved_def)
  assume q: "errs (join_match si lin site (own_bodies si lin arms) st) = errs st" and arm: "arm \<in> set arms" "arm_body arm = Some b"
  then have "errs st1 = errs st" using le by (simp add: j)
  then obtain v where v: "own_bindings v = own_bindings st" "errs (own_expr si lin b v) = errs v"
    "\<forall>a \<in> moved (own_expr si lin b v). consumed_in m a"
    using step arm by blast
  then show "\<exists>v. moved v = moved st \<and> errs (own_expr si lin b v) = errs v
         \<and> moved (own_expr si lin b v) \<subseteq> moved (join_match si lin site (own_bodies si lin arms) st)"
    by (intro exI [of _ v]) (auto simp: j moved_def)
qed

text \<open>Errors are only added; and code without declarations and assignments revives nothing.\<close>

definition grows :: "node list \<Rightarrow> (own_state \<Rightarrow> own_state) \<Rightarrow> bool" where
  "grows ns f \<longleftrightarrow> (\<forall>st. errs st \<le> errs (f st) \<and> (everywhere still ns \<longrightarrow> moved st \<subseteq> moved (f st)))"

lemma growsD: "grows ns f \<Longrightarrow> errs st \<le> errs (f st)" "grows ns f \<Longrightarrow> everywhere still ns \<Longrightarrow> moved st \<subseteq> moved (f st)"
  by (simp_all add: grows_def)

lemma grows_nodes:
  "(\<And>n. n \<in> set ns \<Longrightarrow> grows [n] (own_node si lin n)) \<Longrightarrow> grows ns (own_nodes si lin ns)"
proof (induction ns)
  case (Cons n ns)
  then have 1: "grows [n] (own_node si lin n)" and 2: "grows ns (own_nodes si lin ns)" by simp_all
  show ?case unfolding grows_def
  proof (intro allI conjI impI)
    fix st
    show "errs st \<le> errs (own_nodes si lin (n # ns) st)"
      using growsD(1) [OF 1, of st] growsD(1) [OF 2, of "own_node si lin n st"] by simp
    assume "everywhere still (n # ns)"
    then show "moved st \<subseteq> moved (own_nodes si lin (n # ns) st)"
      using growsD(2) [OF 1, of st] growsD(2) [OF 2, of "own_node si lin n st"] by auto
  qed
qed (simp add: grows_def)

lemma grows_args:
  "(\<And>a. a \<in> set as \<Longrightarrow> grows [ExprNode (arg_value a)] (own_expr si lin (arg_value a))) \<Longrightarrow>
     grows (map (\<lambda>a. ExprNode (arg_value a)) as) (own_args si lin c i as)"
proof (induction as arbitrary: i)
  case (Cons a as)
  obtain l io e where a: "a = Arg l io e" by (cases a)
  from Cons.prems [of a] have 1: "grows [ExprNode e] (own_expr si lin e)" by (simp add: a)
  from Cons have 2: "grows (map (\<lambda>a. ExprNode (arg_value a)) as) (own_args si lin c (Suc i) as)" by simp
  show ?case unfolding grows_def
  proof (intro allI conjI impI)
    fix st
    note e = arg_end_step [where si = si and c = c and i = i and io = io and e = e and st = "own_expr si lin e st"]
    show "errs st \<le> errs (own_args si lin c i (a # as) st)"
      using growsD(1) [OF 1, of st] e(1) growsD(1) [OF 2, of "own_arg_end si c i io e (own_expr si lin e st)"] by (simp add: a)
    assume "everywhere still (map (\<lambda>a. ExprNode (arg_value a)) (a # as))"
    then show "moved st \<subseteq> moved (own_args si lin c i (a # as) st)"
      using growsD(2) [OF 1, of st] e(2) growsD(2) [OF 2, of "own_arg_end si c i io e (own_expr si lin e st)"] by (auto simp: a)
  qed
qed (simp add: grows_def)

lemma grows_weaken: "grows ns f \<Longrightarrow> (everywhere still ms \<Longrightarrow> everywhere still ns) \<Longrightarrow> grows ms f"
  by (auto simp: grows_def)

lemma grows_comp: "grows ns f \<Longrightarrow> grows ms g \<Longrightarrow> grows (ns @ ms) (\<lambda>st. g (f st))"
  unfolding grows_def by (auto intro: le_trans)

lemma grows_id [simp]: "grows ns (\<lambda>st. st)"
  by (simp add: grows_def)

lemma own_value_grows:
  assumes "grows (opt_node v) (own_nodes si lin (opt_node v))"
  shows "errs st \<le> errs (case v of None \<Rightarrow> st | Some e \<Rightarrow> consume_place si e site (own_expr si lin e st))"
    "everywhere still (opt_node v) \<Longrightarrow> moved st \<subseteq> moved (case v of None \<Rightarrow> st | Some e \<Rightarrow> consume_place si e site (own_expr si lin e st))"
proof -
  show "errs st \<le> errs (case v of None \<Rightarrow> st | Some e \<Rightarrow> consume_place si e site (own_expr si lin e st))"
    using growsD(1) [OF assms, of st] by (cases v) (auto intro: order_trans [OF _ consume_place_step(1)])
  show "moved st \<subseteq> moved (case v of None \<Rightarrow> st | Some e \<Rightarrow> consume_place si e site (own_expr si lin e st))"
    if "everywhere still (opt_node v)"
  proof (cases v)
    case (Some e)
    have "moved st \<subseteq> moved (own_expr si lin e st)" using growsD(2) [OF assms that, of st] by (simp add: Some)
    from subset_trans [OF this consume_place_step(2)] show ?thesis by (simp add: Some)
  qed simp
qed

lemma own_grows: "grows [n] (own_node si lin n)"
proof (induction n rule: node_induct)
  case (node n)
  have L: "grows ns (own_nodes si lin ns)" if "set ns \<subseteq> set (direct n)" for ns
    using node that by (intro grows_nodes) auto
  have E: "grows [ExprNode e] (own_expr si lin e)" if "ExprNode e \<in> set (direct n)" for e
    using node [OF that] by simp
  have up: "grows (direct n) f \<Longrightarrow> grows [n] f" for f by (erule grows_weaken) simp
  have all: "grows [n] (own_nodes si lin (direct n))" by (rule up [OF L]) simp
  show ?case
  proof (cases n)
    case (ExprNode e)
    show ?thesis
    proof (cases e)
      case (CallExpr h c ts as)
      have "grows ([ExprNode c] @ map (\<lambda>a. ExprNode (arg_value a)) as) (\<lambda>st. own_args si lin (own_callee si c) 0 as (own_expr si lin c st))"
        by (rule grows_comp [OF E grows_args [OF E]]) (auto simp: ExprNode CallExpr)
      then show ?thesis using up by (simp add: ExprNode CallExpr own_expr.simps)
    next
      case (IfExpr h nm li c t f)
      define x where "x = cond_nodes c li"
      have g: "grows x (own_nodes si lin x)" "grows (opt_node t) (own_nodes si lin (opt_node t))" "grows (opt_node f) (own_nodes si lin (opt_node f))"
        by (rule L; auto simp: ExprNode IfExpr x_def cond_nodes_def)+
      have eq: "own_node si lin n st = join_if si lin (node_range h) (own_opt si lin t) (own_opt si lin f) (own_nodes si lin x st)" for st
        by (simp add: ExprNode IfExpr x_def own_if_node)
      note j = join_if_step [where f = "own_opt si lin t" and g = "own_opt si lin f" and si = si and lin = lin and site = "node_range h"]
      have s: "everywhere still [n] \<longleftrightarrow> everywhere still x \<and> everywhere still (opt_node t) \<and> everywhere still (opt_node f)"
        by (simp add: ExprNode IfExpr x_def cond_nodes_def still_def)
      show ?thesis unfolding grows_def eq s
        using growsD [OF g(1)] growsD [OF g(2)] growsD [OF g(3)] j
        by (simp add: own_lists_nodes) (meson order_trans)
    next
      case (MatchExpr h s arms)
      have g: "grows (ExprNode s # guard_nodes arms) (own_nodes si lin (ExprNode s # guard_nodes arms))"
        by (rule L) (auto simp: ExprNode MatchExpr guard_nodes_def arm_nodes_def)
      have "ExprNode b \<in> set (direct n)" if "arm \<in> set arms" "arm_body arm = Some b" for arm b
        using that by (auto simp: ExprNode MatchExpr arm_nodes_def intro!: bexI [of _ arm])
      then have b: "arms_grow si lin arms" using growsD(1) [OF E] unfolding arms_grow_def by blast
      note j = join_match_step [OF b]
      have eq: "own_node si lin n st = join_match si lin (node_range h) (own_bodies si lin arms) (own_nodes si lin (ExprNode s # guard_nodes arms) st)" for st
        by (simp add: ExprNode MatchExpr own_expr.simps own_lists_nodes)
      have s: "everywhere still [n] \<Longrightarrow> everywhere still (ExprNode s # guard_nodes arms)"
        by (auto simp: ExprNode MatchExpr guard_nodes_def arm_nodes_def everywhere_concat)
      show ?thesis unfolding grows_def eq
        using growsD [OF g] j(1,2) s by (meson order_trans)
    next
      case (DoCatchExpr h b nm t g c)
      have "grows ([ExprNode b] @ [ExprNode c]) (\<lambda>st. own_expr si lin c (own_expr si lin b st))"
        by (rule grows_comp [OF E E]) (auto simp: ExprNode DoCatchExpr)
      then have "grows [n] (\<lambda>st. own_expr si lin c (own_expr si lin b st))"
        by (rule grows_weaken) (auto simp: ExprNode DoCatchExpr)
      then show ?thesis by (simp add: ExprNode DoCatchExpr own_expr.simps)
    next
      case (IdentExpr h x)
      show ?thesis by (simp add: grows_def ExprNode IdentExpr own_expr.simps check_use_step)
    qed (use all in \<open>simp_all add: ExprNode own_expr.simps own_lists_nodes [abs_def]\<close>)
  next
    case (StmtNode s)
    show ?thesis
    proof (cases s)
      case (LetStmt h p t v)
      have "grows (opt_node v) (own_nodes si lin (opt_node v))" by (rule L) (simp add: StmtNode LetStmt)
      from own_value_grows(1) [OF this] show ?thesis
        by (simp add: grows_def StmtNode LetStmt own_stmt.simps still_def register_step cong: option.case_cong) (cases v; simp)
    next
      case (VarStmt h p t v)
      have "grows (opt_node v) (own_nodes si lin (opt_node v))" by (rule L) (simp add: StmtNode VarStmt)
      from own_value_grows(1) [OF this] show ?thesis
        by (simp add: grows_def StmtNode VarStmt own_stmt.simps still_def register_step cong: option.case_cong) (cases v; simp)
    next
      case (ReturnStmt h v)
      have "grows (opt_node v) (own_nodes si lin (opt_node v))" by (rule L) (simp add: StmtNode ReturnStmt)
      from own_value_grows [OF this] show ?thesis
        by (simp add: grows_def StmtNode ReturnStmt own_stmt.simps)
    next
      case (AssignStmt h op t v)
      have g: "grows [ExprNode v] (own_expr si lin v)" "grows (opt_node t) (own_nodes si lin (opt_node t))"
        by (rule E, simp add: StmtNode AssignStmt) (rule L, auto simp: StmtNode AssignStmt)
      show ?thesis using growsD(1) [OF g(1)] growsD(1) [OF g(2)] revive_step(1)
        by (cases t) (auto simp: grows_def StmtNode AssignStmt own_stmt.simps still_def Let_def intro: order_trans)
    qed (use all in \<open>simp_all add: StmtNode own_stmt.simps own_lists_nodes [abs_def]\<close>)
  qed
qed

lemma nodes_grow: "grows ns (own_nodes si lin ns)"
  by (rule grows_nodes [OF own_grows])

lemma expr_grows: "grows [ExprNode e] (own_expr si lin e)"
  using own_grows [of "ExprNode e"] by simp

lemma args_grow: "grows (map (\<lambda>a. ExprNode (arg_value a)) as) (own_args si lin c i as)"
  by (rule grows_args [OF expr_grows])

section \<open>Soundness\<close>

lemma safe_mono: "safe m' es \<Longrightarrow> m \<subseteq> m' \<Longrightarrow> safe m es"
proof (induction m es arbitrary: m' rule: safe.induct)
  case (3 m a es)
  from "3.IH" [of "insert a m'"] "3.prems" show ?case by auto
next
  case (4 m a es)
  from "4.IH" [of "m' - {a}"] "4.prems" show ?case by auto
qed auto

lemma moved_after_mono: "m \<subseteq> m' \<Longrightarrow> moved_after m es \<subseteq> moved_after m' es"
proof (induction m es arbitrary: m' rule: safe.induct)
  case (3 m a es)
  from "3.IH" [of "insert a m'"] "3.prems" show ?case by auto
next
  case (4 m a es)
  from "4.IH" [of "m' - {a}"] "4.prems" show ?case by auto
qed auto

text \<open>
  A step of the checker covers some events: if it is silent, they are safe from any set of moved
  bindings the table knows, and the table knows everything moved afterwards.
\<close>

definition covers :: "(own_state \<Rightarrow> own_state) \<Rightarrow> event list \<Rightarrow> bool" where
  "covers f es \<longleftrightarrow> (\<forall>st m. m \<subseteq> moved st \<longrightarrow> errs (f st) = errs st \<longrightarrow> safe m es \<and> moved_after m es \<subseteq> moved (f st))"

lemma coversD: "covers f es \<Longrightarrow> m \<subseteq> moved st \<Longrightarrow> errs (f st) = errs st \<Longrightarrow> safe m es \<and> moved_after m es \<subseteq> moved (f st)"
  by (simp add: covers_def)

lemma covers_comp:
  assumes "covers f es" "covers g fs" "\<And>st. errs st \<le> errs (f st)" "\<And>st. errs st \<le> errs (g st)"
  shows "covers (\<lambda>st. g (f st)) (es @ fs)"
  unfolding covers_def
proof (intro allI impI)
  fix st m assume m: "m \<subseteq> moved st" and q: "errs (g (f st)) = errs st"
  from q assms(3) [of st] assms(4) [of "f st"] have 1: "errs (f st) = errs st" and 2: "errs (g (f st)) = errs (f st)" by simp_all
  from coversD [OF assms(1) m 1] coversD [OF assms(2) _ 2, of "moved_after m es"]
  show "safe m (es @ fs) \<and> moved_after m (es @ fs) \<subseteq> moved (g (f st))" by simp
qed

lemma covers_exact:
  assumes "\<And>st. errs (f st) = errs st \<Longrightarrow> safe (moved st) es \<and> moved_after (moved st) es \<subseteq> moved (f st)"
  shows "covers f es"
  unfolding covers_def using assms safe_mono moved_after_mono by (meson order_trans)

lemma covers_arg_end: "covers (own_arg_end si c i io e) (if own_arg_mode c i io = Sink then move_events si e else [])"
  by (rule covers_exact) (simp add: arg_end_step(3))

lemma covers_consume: "covers (consume_place si e site) (move_events si e)"
  by (rule covers_exact) (simp add: consume_place_step(3))

lemma covers_use: "covers (check_use si e) (use_events si e)"
proof (rule covers_exact, intro conjI)
  fix st assume "errs (check_use si e st) = errs st"
  then show "safe (moved st) (use_events si e)" by (rule check_use_step(3))
  show "moved_after (moved st) (use_events si e) \<subseteq> moved (check_use si e st)"
    by (simp add: check_use_step(2) use_events_def split: option.split)
qed

lemma covers_revive: "covers (revive s) (revive_events s)"
  by (rule covers_exact) (auto simp: revive_step revive_events_def split: option.split)

lemma covers_register: "covers (register_linear_binding si lin s) (revive_events (binding_symbol (tables si) s))"
proof (rule covers_exact)
  fix st
  show "safe (moved st) (revive_events (binding_symbol (tables si) s))
      \<and> moved_after (moved st) (revive_events (binding_symbol (tables si) s)) \<subseteq> moved (register_linear_binding si lin s st)"
    using register_step(2) [of st si s lin] by (cases "binding_symbol (tables si) s") (simp_all add: revive_events_def)
qed

lemma covers_value:
  assumes "covers (own_nodes si lin (opt_node v)) es"
  shows "covers (\<lambda>st. case v of None \<Rightarrow> st | Some e \<Rightarrow> consume_place si e site (own_expr si lin e st)) (es @ opt_move_events si v)"
proof (cases v)
  case None
  with assms show ?thesis by (simp add: opt_move_events_def)
next
  case (Some e)
  with assms have "covers (own_expr si lin e) es" by simp
  from covers_comp [OF this covers_consume growsD(1) [OF expr_grows] consume_place_step(1)] show ?thesis
    by (simp add: Some opt_move_events_def)
qed

lemma everywhere_subset: "set xs \<subseteq> set ys \<Longrightarrow> everywhere P ys \<Longrightarrow> everywhere P xs"
  by (auto simp: everywhere_def)

lemma everywhere_arms:
  "everywhere P (concat (map arm_nodes arms)) \<longleftrightarrow>
     everywhere P (guard_nodes arms) \<and> (\<forall>arm \<in> set arms. everywhere P (opt_node (arm_body arm)))"
  by (auto simp: everywhere_concat guard_nodes_def arm_nodes_def ball_conj_distrib)

lemma everywhere_replicate: "everywhere P ns \<Longrightarrow> everywhere P (concat (replicate k ns))"
  by (induction k) simp_all

lemma no_revive_simps [simp]:
  "no_revive []" "no_revive (es @ fs) \<longleftrightarrow> no_revive es \<and> no_revive fs"
  "no_revive (use_events si e)" "no_revive (move_events si e)" "no_revive (opt_move_events si v)"
  by (auto simp: no_revive_def use_events_def move_events_def opt_move_events_def split: option.split)

lemma subseq_set: "subseq xs ys \<Longrightarrow> set xs \<subseteq> set ys"
  by (induction rule: list_emb.induct) auto

lemma run_still:
  "run si n es \<Longrightarrow> everywhere still [n] \<Longrightarrow> no_revive es"
  "runs si ns es \<Longrightarrow> everywhere still ns \<Longrightarrow> no_revive es"
  "run_args si c i as es \<Longrightarrow> everywhere still (map (\<lambda>a. ExprNode (arg_value a)) as) \<Longrightarrow> no_revive es"
proof (induction rule: run_runs_run_args.inducts)
  case (run_match s es arm arms gs fs ks h)
  then show ?case using everywhere_subset [OF subseq_set [OF \<open>subseq gs (guard_nodes arms)\<close>]]
    by (auto simp: everywhere_arms)
qed (auto simp: still_def cond_nodes_def everywhere_replicate split: if_splits)

lemma covers_runs_Cons:
  assumes "covers (own_node si lin n) es"
    and "\<And>vs. subseq ns vs \<Longrightarrow> everywhere regular vs \<Longrightarrow> vs = ns \<or> everywhere still vs \<Longrightarrow> covers (own_nodes si lin vs) fs"
    and "subseq (n # ns) ms" "everywhere regular ms" "ms = n # ns \<or> everywhere still ms"
  shows "covers (own_nodes si lin ms) (es @ fs)"
proof -
  obtain us vs where ms: "ms = us @ n # vs" "subseq ns vs" "us = [] \<and> vs = ns \<or> everywhere still ms"
  proof (cases "ms = n # ns")
    case True
    then show ?thesis using that [of "[]" ns] by simp
  next
    case False
    then show ?thesis using that assms(3,5) by (auto dest!: list_emb_ConsD)
  qed
  have vs: "covers (own_nodes si lin vs) fs" using assms(2) [OF ms(2)] assms(4) ms(1,3) by auto
  have "moved st \<subseteq> moved (own_nodes si lin us st)" for st
    using ms(1,3) growsD(2) [OF nodes_grow [of us], of st] by (cases "us = []") auto
  then have "covers (own_nodes si lin us) []" by (simp add: covers_def) (meson order_trans)
  moreover have "covers (\<lambda>st. own_nodes si lin vs (own_node si lin n st)) (es @ fs)"
    by (rule covers_comp [OF assms(1) vs growsD(1) [OF own_grows] growsD(1) [OF nodes_grow]])
  ultimately have "covers (\<lambda>st. own_nodes si lin vs (own_node si lin n (own_nodes si lin us st))) ([] @ es @ fs)"
    by (rule covers_comp [OF _ _ growsD(1) [OF nodes_grow]])
       (rule order_trans [OF growsD(1) [OF own_grows] growsD(1) [OF nodes_grow]])
  moreover have "own_nodes si lin ms = (\<lambda>st. own_nodes si lin vs (own_node si lin n (own_nodes si lin us st)))"
    by (simp add: fun_eq_iff ms(1) del: own_nodes_fun)
  ultimately show ?thesis by simp
qed

lemma covers_still: "everywhere still ns \<Longrightarrow> covers (own_nodes si lin ns) []"
  unfolding covers_def using growsD(2) [OF nodes_grow [of ns si lin]] by (auto dest: subsetD)

lemma covers_prefix:
  assumes "covers f (es @ rest)" "no_revive (es @ rest)"
  shows "covers f es"
  unfolding covers_def
proof (intro allI impI)
  fix st m assume "m \<subseteq> moved st" "errs (f st) = errs st"
  from coversD [OF assms(1) this] have 1: "safe m es" "moved_after (moved_after m es) rest \<subseteq> moved (f st)" by simp_all
  moreover have "moved_after m es \<subseteq> moved_after (moved_after m es) rest"
    using assms(2) by (intro moved_after_grows) simp
  ultimately show "safe m es \<and> moved_after m es \<subseteq> moved (f st)" by blast
qed

lemma covers_own_node:
  "covers f es \<Longrightarrow> (\<And>st. own_node si lin n st = f st) \<Longrightarrow> covers (own_node si lin n) es"
  by (simp add: covers_def)

lemma covers_branch:
  assumes "covers f es" "\<And>st. errs st \<le> errs (f st)" "\<And>st. errs st \<le> errs (g st)"
  shows "covers (join_if si lin site f g) es" "covers (join_if si lin site g f) es"
  unfolding covers_def
proof (intro allI impI)
  fix st m assume m: "m \<subseteq> moved st" and q: "errs (join_if si lin site f g st) = errs st"
  note j = join_if_step [where f = f and g = g and st = st and si = si and lin = lin and site = site, OF assms(2,3)]
  from coversD [OF assms(1) m conjunct1 [OF j(4) [OF q]]] j(2)
  show "safe m es \<and> moved_after m es \<subseteq> moved (join_if si lin site f g st)" by blast
next
  show "\<forall>st m. m \<subseteq> moved st \<longrightarrow> errs (join_if si lin site g f st) = errs st \<longrightarrow>
      safe m es \<and> moved_after m es \<subseteq> moved (join_if si lin site g f st)"
  proof (intro allI impI)
    fix st m assume m: "m \<subseteq> moved st" and q: "errs (join_if si lin site g f st) = errs st"
    define st1 where "st1 = (g st)\<lparr>own_bindings := own_bindings st\<rparr>"
    note j = join_if_step [where f = g and g = f and st = st and si = si and lin = lin and site = site, OF assms(3,2), folded st1_def]
    have "m \<subseteq> moved st1" using m by (simp add: st1_def moved_def)
    from coversD [OF assms(1) this conjunct2 [OF j(4) [OF q]]] j(3)
    show "safe m es \<and> moved_after m es \<subseteq> moved (join_if si lin site g f st)" by blast
  qed
qed

lemma covers_arm:
  assumes "arms_grow si lin arms" "arm \<in> set arms" "covers (own_nodes si lin (opt_node (arm_body arm))) es"
  shows "covers (join_match si lin site (own_bodies si lin arms)) es"
  unfolding covers_def
proof (intro allI impI)
  fix st m assume m: "m \<subseteq> moved st" and q: "errs (join_match si lin site (own_bodies si lin arms) st) = errs st"
  note j = join_match_step [OF assms(1), where st = st and site = site]
  show "safe m es \<and> moved_after m es \<subseteq> moved (join_match si lin site (own_bodies si lin arms) st)"
  proof (cases "arm_body arm")
    case None
    then have "covers (\<lambda>st. st) es" using assms(3) by simp
    from coversD [OF this m] j(2) show ?thesis by blast
  next
    case (Some b)
    from j(3) [OF q assms(2) Some] obtain v where v: "moved v = moved st" "errs (own_expr si lin b v) = errs v"
      "moved (own_expr si lin b v) \<subseteq> moved (join_match si lin site (own_bodies si lin arms) st)" by blast
    have "covers (own_expr si lin b) es" using assms(3) by (simp add: Some)
    from coversD [OF this _ v(2)] m v show ?thesis by blast
  qed
qed

lemma arms_grow: "arms_grow si lin arms"
  unfolding arms_grow_def using growsD(1) [OF expr_grows] by blast

lemma opt_grows: "errs st \<le> errs (own_opt si lin x st)"
  using growsD(1) [OF nodes_grow] by (simp add: own_lists_nodes)

lemma own_args_grow: "errs st \<le> errs (own_args si lin c i as st)"
  by (rule growsD(1) [OF args_grow])

lemma covers_if:
  assumes "covers (own_nodes si lin (cond_nodes c li)) es"
    "covers (join_if si lin (node_range h) (own_opt si lin t) (own_opt si lin f)) fs"
  shows "covers (own_node si lin (ExprNode (IfExpr h nm li c t f))) (es @ fs)"
proof (rule covers_own_node [OF covers_comp [OF assms growsD(1) [OF nodes_grow] join_if_step(1) [OF opt_grows opt_grows]]])
  show "own_node si lin (ExprNode (IfExpr h nm li c t f)) st
      = join_if si lin (node_range h) (own_opt si lin t) (own_opt si lin f) (own_nodes si lin (cond_nodes c li) st)" for st
    by (simp add: own_if_node)
qed

lemma value_errs: "errs st \<le> errs (case v of None \<Rightarrow> st | Some e \<Rightarrow> consume_place si e site (own_expr si lin e st))"
  by (rule own_value_grows(1) [OF nodes_grow])

lemma covers_binding:
  assumes "covers (own_nodes si lin (opt_node v)) es"
  shows "covers (\<lambda>st. register_linear_binding si lin s
      (case v of None \<Rightarrow> st | Some e \<Rightarrow> consume_place si e (expr_range e) (own_expr si lin e st)))
     (es @ opt_move_events si v @ revive_events (binding_symbol (tables si) s))"
proof (cases v)
  case None
  from covers_comp [OF assms covers_register growsD(1) [OF nodes_grow] eq_refl [OF register_step(1) [symmetric]]]
  show ?thesis by (simp add: None opt_move_events_def)
next
  case (Some e)
  then have "covers (own_expr si lin e) es" using assms by simp
  from covers_comp [OF covers_comp [OF this covers_consume growsD(1) [OF expr_grows] consume_place_step(1)] covers_register
      order_trans [OF growsD(1) [OF expr_grows] consume_place_step(1)] eq_refl [OF register_step(1) [symmetric]]]
  show ?thesis by (simp add: Some opt_move_events_def)
qed

text \<open>The main induction: the checker covers every run of regular code.\<close>

definition runs_covered :: "'v sema_info \<Rightarrow> nat set \<Rightarrow> node list \<Rightarrow> event list \<Rightarrow> bool" where
  "runs_covered si lin ns es \<longleftrightarrow>
     (\<forall>ms. subseq ns ms \<longrightarrow> everywhere regular ms \<longrightarrow> ms = ns \<or> everywhere still ms \<longrightarrow> covers (own_nodes si lin ms) es)"

lemma runs_coveredD:
  "runs_covered si lin ns es \<Longrightarrow> everywhere regular ns \<Longrightarrow> covers (own_nodes si lin ns) es"
  unfolding runs_covered_def by (metis list_emb_refl)

lemma run_covers:
  "run si n es \<Longrightarrow> everywhere regular [n] \<longrightarrow> covers (own_node si lin n) es"
  "runs si ns es \<Longrightarrow> runs_covered si lin ns es"
  "run_args si c i as es \<Longrightarrow> everywhere regular (map (\<lambda>a. ExprNode (arg_value a)) as) \<longrightarrow> covers (own_args si lin c i as) es"
proof (induction rule: run_runs_run_args.inducts)
  case runs_Nil
  then show ?case by (auto simp: runs_covered_def covers_still simp del: own_nodes_fun)
next
  case (runs_Cons n es ns fs)
  show ?case unfolding runs_covered_def
  proof (intro allI impI)
    fix ms assume ms: "subseq (n # ns) ms" "everywhere regular ms" "ms = n # ns \<or> everywhere still ms"
    have "n \<in> set ms" using subseq_set [OF ms(1)] by simp
    then have "everywhere regular [n]" using ms(2) everywhere_subset [of "[n]" ms regular] by simp
    then have n: "covers (own_node si lin n) es" using runs_Cons by blast
    show "covers (own_nodes si lin ms) (es @ fs)"
      by (rule covers_runs_Cons [OF n _ ms]) (use runs_Cons in \<open>auto simp: runs_covered_def\<close>)
  qed
next
  case (args_Nil c i)
  then show ?case by (simp add: covers_def)
next
  case (args_Cons e es c i as fs l io)
  show ?case
  proof (rule impI)
    assume "everywhere regular (map (\<lambda>a. ExprNode (arg_value a)) (Arg l io e # as))"
    with args_Cons have 1: "covers (own_expr si lin e) es" and 2: "covers (own_args si lin c (Suc i) as) fs" by simp_all
    from covers_comp [OF covers_comp [OF 1 covers_arg_end growsD(1) [OF expr_grows] arg_end_step(1)] 2
        order_trans [OF growsD(1) [OF expr_grows] arg_end_step(1)] own_args_grow]
    show "covers (own_args si lin c i (Arg l io e # as)) (es @ (if own_arg_mode c i io = Sink then move_events si e else []) @ fs)"
      unfolding own_args.simps append_assoc .
  qed
next
  case (run_plain n es)
  then show ?case using runs_coveredD [of si lin "direct n" es]
    by (auto intro!: covers_own_node own_plain)
next
  case (run_ident h x)
  then show ?case by (simp add: own_expr.simps covers_use)
next
  case (run_skip op a es h b)
  show ?case
  proof (rule impI)
    assume r: "everywhere regular [ExprNode (BinaryExpr h op a b)]"
    then have "covers (own_expr si lin a) es" using run_skip by simp
    moreover have "covers (own_expr si lin b) []"
      using covers_still [of "[ExprNode b]" si lin] r run_skip(1) by (simp add: regular_def)
    ultimately have "covers (\<lambda>st. own_expr si lin b (own_expr si lin a st)) (es @ [])"
      by (rule covers_comp) (rule growsD(1) [OF expr_grows])+
    then show "covers (own_node si lin (ExprNode (BinaryExpr h op a b))) es" by (simp add: own_expr.simps)
  qed
next
  case (run_call f es as fs h ts)
  show ?case
  proof (rule impI)
    assume "everywhere regular [ExprNode (CallExpr h f ts as)]"
    then have "covers (own_expr si lin f) es" "covers (own_args si lin (own_callee si f) 0 as) fs"
      using run_call by simp_all
    from covers_comp [OF this growsD(1) [OF expr_grows] own_args_grow]
    show "covers (own_node si lin (ExprNode (CallExpr h f ts as))) (es @ fs)" by (simp add: own_expr.simps)
  qed
next
  case (run_then c li es t fs h nm f)
  show ?case
  proof (rule impI)
    assume "everywhere regular [ExprNode (IfExpr h nm li c t f)]"
    then have 1: "covers (own_nodes si lin (cond_nodes c li)) es" "covers (own_nodes si lin (opt_node t)) fs"
      using run_then by (auto simp: cond_nodes_def intro!: runs_coveredD)
    have "covers (own_opt si lin t) fs" using 1(2) by (simp add: covers_def own_lists_nodes)
    from covers_if [OF 1(1) covers_branch(1) [OF this opt_grows opt_grows]]
    show "covers (own_node si lin (ExprNode (IfExpr h nm li c t f))) (es @ fs)" .
  qed
next
  case (run_else c li es f fs h nm t)
  show ?case
  proof (rule impI)
    assume "everywhere regular [ExprNode (IfExpr h nm li c t f)]"
    then have 1: "covers (own_nodes si lin (cond_nodes c li)) es" "covers (own_nodes si lin (opt_node f)) fs"
      using run_else by (auto simp: cond_nodes_def intro!: runs_coveredD)
    have "covers (own_opt si lin f) fs" using 1(2) by (simp add: covers_def own_lists_nodes)
    from covers_if [OF 1(1) covers_branch(2) [OF this opt_grows opt_grows]]
    show "covers (own_node si lin (ExprNode (IfExpr h nm li c t f))) (es @ fs)" .
  qed
next
  case (run_match s es arm arms gs fs ks h)
  show ?case
  proof (rule impI)
    assume r: "everywhere regular [ExprNode (MatchExpr h s arms)]"
    then have arms: "everywhere regular (guard_nodes arms)" "everywhere regular (opt_node (arm_body arm))"
      using \<open>arm \<in> set arms\<close> by (auto simp: everywhere_arms)
    have "everywhere still (guard_nodes arms)" using r by (simp add: regular_def)
    with arms have g: "covers (own_nodes si lin (guard_nodes arms)) fs"
      using run_match by (simp add: runs_covered_def)
    have b: "covers (own_nodes si lin (opt_node (arm_body arm))) ks"
      using run_match arms by (intro runs_coveredD)
    have "covers (own_expr si lin s) es" using run_match r by simp
    from covers_comp [OF covers_comp [OF this g growsD(1) [OF expr_grows] growsD(1) [OF nodes_grow]]
        covers_arm [where site = "node_range h", OF arms_grow \<open>arm \<in> set arms\<close> b]
        order_trans [OF growsD(1) [OF expr_grows] growsD(1) [OF nodes_grow]] join_match_step(1) [OF arms_grow]]
    show "covers (own_node si lin (ExprNode (MatchExpr h s arms))) (es @ fs @ ks)"
      by (simp add: own_expr.simps own_lists_nodes)
  qed
next
  case (run_do b es h nm t g c)
  show ?case
  proof (rule impI)
    assume r: "everywhere regular [ExprNode (DoCatchExpr h b nm t g c)]"
    then have 1: "covers (own_expr si lin b) es" using run_do by simp
    have "covers (own_expr si lin c) []"
      using covers_still [of "[ExprNode c]" si lin] r by (simp add: regular_def)
    from covers_comp [OF 1 this growsD(1) [OF expr_grows] growsD(1) [OF expr_grows]]
    show "covers (own_node si lin (ExprNode (DoCatchExpr h b nm t g c))) es" by (simp add: own_expr.simps)
  qed
next
  case (run_catch b es rest g c fs h nm t)
  show ?case
  proof (rule impI)
    assume r: "everywhere regular [ExprNode (DoCatchExpr h b nm t g c)]"
    then have g: "g = None" and s: "everywhere still [ExprNode b]" by (simp_all add: regular_def)
    have "covers (own_expr si lin b) (es @ rest)" using run_catch r by simp
    from covers_prefix [OF this run_still(1) [OF run_catch(1) s]] have 1: "covers (own_expr si lin b) es" .
    have "covers (own_nodes si lin (opt_node g @ [ExprNode c])) fs" using run_catch r by (intro runs_coveredD) (simp_all add: g)
    then have "covers (own_expr si lin c) fs" by (simp add: g)
    from covers_comp [OF 1 this growsD(1) [OF expr_grows] growsD(1) [OF expr_grows]]
    show "covers (own_node si lin (ExprNode (DoCatchExpr h b nm t g c))) (es @ fs)" by (simp add: own_expr.simps)
  qed
next
  case (run_let v es h p t)
  show ?case
  proof (rule impI)
    assume "everywhere regular [StmtNode (LetStmt h p t v)]"
    then have "covers (own_nodes si lin (opt_node v)) es" using run_let by (intro runs_coveredD) simp_all
    from covers_binding [OF this]
    show "covers (own_node si lin (StmtNode (LetStmt h p t v)))
        (es @ opt_move_events si v @ revive_events (binding_symbol (tables si) (LetStmt h p t v)))"
      by (simp add: own_stmt.simps)
  qed
next
  case (run_var v es h p t)
  show ?case
  proof (rule impI)
    assume "everywhere regular [StmtNode (VarStmt h p t v)]"
    then have "covers (own_nodes si lin (opt_node v)) es" using run_var by (intro runs_coveredD) simp_all
    from covers_binding [OF this]
    show "covers (own_node si lin (StmtNode (VarStmt h p t v)))
        (es @ opt_move_events si v @ revive_events (binding_symbol (tables si) (VarStmt h p t v)))"
      by (simp add: own_stmt.simps)
  qed
next
  case (run_return v es h)
  show ?case
  proof (rule impI)
    assume "everywhere regular [StmtNode (ReturnStmt h v)]"
    then have "covers (own_nodes si lin (opt_node v)) es" using run_return by (intro runs_coveredD) simp_all
    from covers_value [OF this]
    show "covers (own_node si lin (StmtNode (ReturnStmt h v))) (es @ opt_move_events si v)" by (simp add: own_stmt.simps)
  qed
next
  case (run_assign v es t h op)
  show ?case
  proof (rule impI)
    assume r: "everywhere regular [StmtNode (AssignStmt h op (Some t) v)]"
    then have "covers (own_expr si lin v) es" using run_assign by simp
    from covers_comp [OF this covers_revive growsD(1) [OF expr_grows] eq_refl [OF revive_step(1) [symmetric]]]
    show "covers (own_node si lin (StmtNode (AssignStmt h op (Some t) v)))
        (es @ (if op = Assign then [] else use_events si t) @ revive_events (symbol_of (tables si) t))"
      using run_assign r by (simp add: own_stmt.simps regular_def)
  qed
next
  case (run_assign_place v es t fs h op)
  show ?case
  proof (rule impI)
    assume "everywhere regular [StmtNode (AssignStmt h op (Some t) v)]"
    then have "covers (own_expr si lin v) es" "covers (own_expr si lin t) fs" using run_assign_place by simp_all
    from covers_comp [OF this growsD(1) [OF expr_grows] growsD(1) [OF expr_grows]]
    show "covers (own_node si lin (StmtNode (AssignStmt h op (Some t) v))) (es @ fs)"
      using run_assign_place by (simp add: own_stmt.simps)
  qed
next
  case (run_assign_none v es h op)
  then show ?case by (simp add: own_stmt.simps)
next
  case (run_while k c b es h l)
  then show ?case by (simp add: regular_def)
next
  case (run_for it k b es h l p)
  then show ?case by (simp add: regular_def)
qed

section \<open>Functions and the unit\<close>

lemma leaks_errs:
  "errs (report_leaks si lin bs st) =
     errs st + length (filter (\<lambda>(a, i). bi_state i = Live \<and> is_linear_type lin (sym_type (symbol_at si a))) bs)"
  by (induction si lin bs st rule: report_leaks.induct) auto

lemma own_func_errs: "errs st \<le> errs (own_func si lin body st)"
proof (cases body)
  case (Some b)
  have "errs (st\<lparr>own_bindings := []\<rparr>) \<le> errs (own_expr si lin b (st\<lparr>own_bindings := []\<rparr>))"
    by (rule growsD(1) [OF expr_grows])
  then show ?thesis by (simp add: Some own_func_def Let_def leaks_errs)
qed (simp add: own_func_def)

lemma own_func_silent:
  assumes "errs (own_func si lin (Some b) st) = errs st"
  shows "errs (own_expr si lin b (st\<lparr>own_bindings := []\<rparr>)) = errs (st\<lparr>own_bindings := []\<rparr>)"
    "\<forall>(a, i) \<in> set (own_bindings (own_expr si lin b (st\<lparr>own_bindings := []\<rparr>))).
       is_linear_type lin (sym_type (symbol_at si a)) \<longrightarrow> bi_state i = Consumed"
proof -
  define st1 where "st1 = own_expr si lin b (st\<lparr>own_bindings := []\<rparr>)"
  have "errs (st\<lparr>own_bindings := []\<rparr>) \<le> errs st1" unfolding st1_def by (rule growsD(1) [OF expr_grows])
  moreover have "errs (report_leaks si lin (own_bindings st1) st1) = errs st"
    using assms by (simp add: own_func_def Let_def st1_def)
  ultimately have "errs st1 = errs st" "length (filter (\<lambda>(a, i). bi_state i = Live \<and> is_linear_type lin (sym_type (symbol_at si a))) (own_bindings st1)) = 0"
    unfolding leaks_errs errs_bindings by linarith+
  then show "errs (own_expr si lin b (st\<lparr>own_bindings := []\<rparr>)) = errs (st\<lparr>own_bindings := []\<rparr>)"
    by (simp add: st1_def)
  have "bi_state i = Consumed" if "bi_state i \<noteq> Live" for i using that by (cases "bi_state i") simp_all
  with \<open>length _ = 0\<close> show "\<forall>(a, i) \<in> set (own_bindings (own_expr si lin b (st\<lparr>own_bindings := []\<rparr>))).
       is_linear_type lin (sym_type (symbol_at si a)) \<longrightarrow> bi_state i = Consumed"
    unfolding st1_def [symmetric] by (auto simp: filter_empty_conv)
qed

lemma silent_run_safe:
  assumes "everywhere regular [ExprNode b]" "errs (own_func si lin (Some b) st) = errs st" "run si (ExprNode b) es"
  shows "safe {} es"
proof -
  have "covers (own_expr si lin b) es" using run_covers(1) [OF assms(3), of lin] assms(1) by simp
  from coversD [OF this _ own_func_silent(1) [OF assms(2)], of "{}"] show ?thesis by simp
qed

text \<open>Each body of the unit is checked from some state.\<close>

lemma own_decls_bodies:
  "errs st \<le> errs (own_decl si lin d st) \<and> (errs (own_decl si lin d st) = errs st \<longrightarrow> declared_in [d] f \<longrightarrow> body_of f = Some b \<longrightarrow>
     (\<exists>v. errs (own_func si lin (Some b) v) = errs v))"
  "errs st \<le> errs (own_decls si lin ds st) \<and> (errs (own_decls si lin ds st) = errs st \<longrightarrow> declared_in ds f \<longrightarrow> body_of f = Some b \<longrightarrow>
     (\<exists>v. errs (own_func si lin (Some b) v) = errs v))"
proof (induction si lin d and si lin ds arbitrary: st and st rule: own_decl_own_decls.induct)
  case (1 si lin d)
  show ?case
  proof (cases d)
    case (FuncDecl h attrs vis is_async ct recv nm ns gens ps eff res body)
    then show ?thesis using own_func_errs [of st si lin body]
      by (subst declared_in_iff) (auto simp: own_decl.simps members_def body_of_def)
  next
    case (StructDecl h attrs vis l nm gens fs ms deinit)
    from "1.IH"(1) [OF StructDecl, of st] show ?thesis
      by (subst declared_in_iff) (auto simp: StructDecl own_decl.simps members_def body_of_def)
  next
    case (EnumDecl h attrs vis nm gens cs ms)
    from "1.IH"(2) [OF EnumDecl, of st] show ?thesis
      by (subst declared_in_iff) (auto simp: EnumDecl own_decl.simps members_def body_of_def)
  next
    case (ExtensionDecl h attrs vis target confs ms)
    from "1.IH"(3) [OF ExtensionDecl, of st] show ?thesis
      by (subst declared_in_iff) (auto simp: ExtensionDecl own_decl.simps members_def body_of_def)
  qed (subst declared_in_iff; simp add: own_decl.simps members_def body_of_def)+
next
  case (2 si lin)
  then show ?case by simp
next
  case (3 si lin d ds)
  have split: "declared_in (d # ds) f \<longleftrightarrow> declared_in [d] f \<or> declared_in ds f"
    by (subst (1 2 3) declared_in_iff) auto
  have 1: "errs st \<le> errs (own_decl si lin d st)" "errs (own_decl si lin d st) \<le> errs (own_decls si lin ds (own_decl si lin d st))"
    using "3.IH" by blast+
  show ?case
  proof (intro conjI impI)
    show "errs st \<le> errs (own_decls si lin (d # ds) st)" using 1 by simp
    assume q: "errs (own_decls si lin (d # ds) st) = errs st" and f: "declared_in (d # ds) f" "body_of f = Some b"
    then have "errs (own_decl si lin d st) = errs st"
      "errs (own_decls si lin ds (own_decl si lin d st)) = errs (own_decl si lin d st)" using 1 by simp_all
    then show "\<exists>v. errs (own_func si lin (Some b) v) = errs v" using "3.IH" f unfolding split by blast
  qed
qed

end
