(* ===== verification/Ownership_Leaks.thy ===== *)
theory Ownership_Leaks
  imports Ownership_Props
begin

text \<open>
  The other side of the ownership checker: what a silent pass says of a linear binding. On code
  with no skippable part (\<open>unskipped\<close>) the table does not only know every move an execution made,
  every move of the table was made: a join reports the linear bindings that one side moved and
  another did not. So a linear binding declared in the body is moved on every complete run.
\<close>

section \<open>Tables only get new entries\<close>

definition kept_by_update :: "(binding_map \<Rightarrow> bool) \<Rightarrow> bool" where
  "kept_by_update I \<longleftrightarrow> (\<forall>b k i. I b \<longrightarrow> I (AList.update k i b))"

lemma kept_merge: "kept_by_update I \<Longrightarrow> I dst \<Longrightarrow> I (merge_consumed dst br)"
  by (induction dst br rule: merge_consumed.induct) (simp_all add: kept_by_update_def)

lemma kept_steps:
  assumes "kept_by_update I" "I (own_bindings st)"
  shows "I (own_bindings (consume_symbol si a site st))" "I (own_bindings (consume_place si e site st))"
    "I (own_bindings (check_use si e st))" "I (own_bindings (register_linear_binding si lin s st))"
    "I (own_bindings (revive t st))" "I (own_bindings (own_arg_end si c i io e st))"
proof -
  have u: "I (AList.update k i (own_bindings st))" for k i using assms by (simp add: kept_by_update_def)
  show 1: "I (own_bindings (consume_symbol si a site st))" for a site using assms(2) u by (simp add: consume_symbol_def Let_def)
  show 2: "I (own_bindings (consume_place si e site st))" for site
    using assms(2) 1 by (simp add: consume_place_def split: option.split)
  show "I (own_bindings (check_use si e st))"
    using assms(2) by (simp add: check_use_def use_symbol_def split: option.split)
  show "I (own_bindings (register_linear_binding si lin s st))"
    using assms(2) u by (simp add: register_linear_binding_def split: option.split)
  show "I (own_bindings (revive t st))" using assms(2) u by (simp add: revive_def split: option.split)
  show "I (own_bindings (own_arg_end si c i io e st))" using assms(2) 2 by (simp add: own_arg_end_def)
qed

definition table_keeps :: "(binding_map \<Rightarrow> bool) \<Rightarrow> (own_state \<Rightarrow> own_state) \<Rightarrow> bool" where
  "table_keeps I f \<longleftrightarrow> (\<forall>st. I (own_bindings st) \<longrightarrow> I (own_bindings (f st)))"

lemma table_keeps_id [simp]: "table_keeps I (\<lambda>st. st)"
  by (simp add: table_keeps_def)

lemma table_keeps_comp: "table_keeps I f \<Longrightarrow> table_keeps I g \<Longrightarrow> table_keeps I (\<lambda>st. g (f st))"
  by (simp add: table_keeps_def)

lemma table_keeps_nodes:
  "(\<And>n. n \<in> set ns \<Longrightarrow> table_keeps I (own_node si lin n)) \<Longrightarrow> table_keeps I (own_nodes si lin ns)"
  by (induction ns) (simp_all add: table_keeps_comp)

lemma table_keeps_args:
  assumes "kept_by_update I" "\<And>a. a \<in> set as \<Longrightarrow> table_keeps I (own_expr si lin (arg_value a))"
  shows "table_keeps I (own_args si lin c i as)"
  using assms(2)
proof (induction as arbitrary: i)
  case (Cons a as)
  obtain l io e where a: "a = Arg l io e" by (cases a)
  have 1: "table_keeps I (own_expr si lin e)" using Cons.prems [of a] by (simp add: a)
  have 2: "table_keeps I (own_arg_end si c i io e)" unfolding table_keeps_def by (intro allI impI kept_steps(6) [OF assms(1)])
  have 3: "table_keeps I (own_args si lin c (Suc i) as)" using Cons by simp
  from table_keeps_comp [OF table_keeps_comp [OF 1 2] 3] show ?case by (simp add: a)
qed simp

lemma table_keeps_if:
  assumes "kept_by_update I" "table_keeps I g"
  shows "table_keeps I (join_if si lin site f g)"
  unfolding table_keeps_def using assms by (simp add: join_if_def Let_def kept_merge table_keeps_def)

lemma bodies_keep:
  assumes "kept_by_update I" "own_bodies si lin arms pre (m, ss, st) = (m', ss', st')" "I m"
  shows "I m'"
  using assms(2,3)
proof (induction arms arbitrary: m ss st)
  case (Cons arm arms)
  obtain p g b d where arm: "arm = MatchArm p g b d" by (cases arm)
  show ?case using Cons kept_merge [OF assms(1)]
    by (auto simp: arm one_body_def Let_def split: if_splits)
qed simp

lemma table_keeps_match:
  assumes "kept_by_update I"
  shows "table_keeps I (join_match si lin site (own_bodies si lin arms))"
  unfolding table_keeps_def
proof (intro allI impI)
  fix st :: own_state assume I: "I (own_bindings st)"
  obtain m ss st1 where b: "own_bodies si lin arms (own_bindings st) (own_bindings st, [], st) = (m, ss, st1)"
    by (metis prod_cases3)
  show "I (own_bindings (join_match si lin site (own_bodies si lin arms) st))"
    using bodies_keep [OF assms b I] by (simp add: join_match_def Let_def b)
qed

lemma table_keeps_node: "kept_by_update I \<Longrightarrow> table_keeps I (own_node si lin n)"
proof (induction n rule: node_induct)
  case (node n)
  note K = \<open>kept_by_update I\<close>
  have L: "set ns \<subseteq> set (direct n) \<Longrightarrow> table_keeps I (own_nodes si lin ns)" for ns
    using node by (intro table_keeps_nodes) auto
  have E: "ExprNode e \<in> set (direct n) \<Longrightarrow> table_keeps I (own_expr si lin e)" for e
    using node.IH [OF _ K] by force
  have all: "table_keeps I (own_nodes si lin (direct n))" by (rule L) simp
  have O: "set (opt_node x) \<subseteq> set (direct n) \<Longrightarrow> table_keeps I (own_opt si lin x)" for x
    using L [of "opt_node x"] by (simp add: table_keeps_def own_lists_nodes)
  note S = kept_steps [OF K]
  show ?case
  proof (cases n)
    case (ExprNode e)
    show ?thesis
    proof (cases e)
      case (CallExpr h c ts as)
      have "table_keeps I (\<lambda>st. own_args si lin (own_callee si c) 0 as (own_expr si lin c st))"
        by (rule table_keeps_comp [OF E table_keeps_args [OF K E]]) (auto simp: ExprNode CallExpr)
      then show ?thesis by (simp add: ExprNode CallExpr own_expr.simps)
    next
      case (IfExpr h nm li c t f)
      have "table_keeps I (\<lambda>st. join_if si lin (node_range h) (own_opt si lin t) (own_opt si lin f) (own_nodes si lin (cond_nodes c li) st))"
        by (rule table_keeps_comp [OF L table_keeps_if [OF K O]]) (auto simp: ExprNode IfExpr cond_nodes_def)
      then show ?thesis by (simp add: ExprNode IfExpr own_if_node [abs_def])
    next
      case (MatchExpr h s arms)
      have "table_keeps I (\<lambda>st. join_match si lin (node_range h) (own_bodies si lin arms) (own_nodes si lin (ExprNode s # guard_nodes arms) st))"
        by (rule table_keeps_comp [OF L table_keeps_match [OF K]]) (auto simp: ExprNode MatchExpr guard_nodes_def arm_nodes_def)
      then show ?thesis by (simp add: ExprNode MatchExpr own_expr.simps own_lists_nodes)
    next
      case (DoCatchExpr h b nm t g c)
      have "table_keeps I (\<lambda>st. own_expr si lin c (own_expr si lin b st))"
        by (rule table_keeps_comp [OF E E]) (auto simp: ExprNode DoCatchExpr)
      then show ?thesis by (simp add: ExprNode DoCatchExpr own_expr.simps)
    next
      case (IdentExpr h x)
      show ?thesis by (simp add: table_keeps_def ExprNode IdentExpr own_expr.simps S(3))
    qed (use all in \<open>simp_all add: ExprNode own_expr.simps own_lists_nodes [abs_def]\<close>)
  next
    case (StmtNode s)
    have V: "table_keeps I (\<lambda>st. case v of None \<Rightarrow> st | Some e \<Rightarrow> consume_place si e (site e) (own_expr si lin e st))"
      if "set (opt_node v) \<subseteq> set (direct n)" for v site
      using O [OF that] by (cases v) (simp_all add: table_keeps_def S(2))
    show ?thesis
    proof (cases s)
      case (LetStmt h p t v)
      show ?thesis using V [of v expr_range] by (simp add: S(4) table_keeps_def StmtNode LetStmt own_stmt.simps)
    next
      case (VarStmt h p t v)
      show ?thesis using V [of v expr_range] by (simp add: S(4) table_keeps_def StmtNode VarStmt own_stmt.simps)
    next
      case (ReturnStmt h v)
      show ?thesis using V [of v "\<lambda>_. node_range h"] by (simp add: StmtNode ReturnStmt own_stmt.simps)
    next
      case (AssignStmt h op t v)
      have 1: "table_keeps I (own_expr si lin v)" "table_keeps I (own_opt si lin t)"
        by (rule E, simp add: StmtNode AssignStmt) (rule O, auto simp: StmtNode AssignStmt)
      then show ?thesis by (cases t) (simp_all add: S(5) table_keeps_def StmtNode AssignStmt own_stmt.simps Let_def)
    qed (use all in \<open>simp_all add: StmtNode own_stmt.simps own_lists_nodes [abs_def]\<close>)
  qed
qed

section \<open>Joins\<close>

definition entry :: "sym_ref \<Rightarrow> own_state \<Rightarrow> bool" where
  "entry a st \<longleftrightarrow> distinct (map fst (own_bindings st)) \<and> a \<in> dom (map_of (own_bindings st))"

lemma entry_kept: "kept_by_update (\<lambda>b. distinct (map fst b) \<and> a \<in> dom (map_of b))"
  by (simp add: kept_by_update_def distinct_update)

lemma entry_keeps: "table_keeps (\<lambda>b. distinct (map fst b) \<and> a \<in> dom (map_of b)) f \<Longrightarrow> entry a st \<Longrightarrow> entry a (f st)"
  by (simp add: table_keeps_def entry_def)

lemma entry_expr: "entry a st \<Longrightarrow> entry a (own_expr si lin e st)"
  using entry_keeps [OF table_keeps_node [OF entry_kept, where si = si and lin = lin and n = "ExprNode e"]] by simp

lemma entry_nodes: "entry a st \<Longrightarrow> entry a (own_nodes si lin ns st)"
  by (rule entry_keeps [OF table_keeps_nodes]) (rule table_keeps_node [OF entry_kept])

lemma entry_opt: "entry a st \<Longrightarrow> entry a (own_opt si lin x st)"
  by (simp add: own_lists_nodes entry_nodes)

lemma entry_steps:
  assumes "entry a st"
  shows "entry a (consume_place si e site st)" "entry a (own_arg_end si c i io e st)" "entry a (register_linear_binding si lin s st)"
  using assms kept_steps(2,4,6) [OF entry_kept [of a], of st] unfolding entry_def by blast+

lemma divergence_silent:
  "errs (report_linear_divergence si lin pre bs site st) = errs st \<Longrightarrow> (a, info) \<in> set pre \<Longrightarrow>
     bi_state info \<noteq> Consumed \<Longrightarrow> is_linear_type lin (sym_type (symbol_at si a)) \<Longrightarrow> b \<in> set bs \<Longrightarrow> consumed_in b a \<Longrightarrow>
     c \<in> set bs \<Longrightarrow> consumed_in c a"
proof (induction si lin pre bs site st rule: report_linear_divergence.induct)
  case (2 si lin k i pre branches site st)
  define st' where "st' = (if bi_state i = Consumed \<or> \<not> is_linear_type lin (sym_type (symbol_at si k)) then st
        else if (\<exists>b \<in> set branches. consumed_in b k) \<and> \<not> (\<forall>b \<in> set branches. consumed_in b k)
        then own_report (divergence_diag (sym_name (symbol_at si k)) site) st else st)"
  have "errs (report_linear_divergence si lin pre branches site st') = errs st" using "2.prems"(1) by (simp add: st'_def)
  moreover have "errs st \<le> errs st'" by (simp add: st'_def)
  moreover have "errs st' \<le> errs (report_linear_divergence si lin pre branches site st')" by (rule divergence_errs)
  ultimately have q: "errs st' = errs st" "errs (report_linear_divergence si lin pre branches site st') = errs st'" by simp_all
  show ?case
  proof (cases "(a, info) = (k, i)")
    case True
    then show ?thesis using q(1) "2.prems" by (auto simp: st'_def split: if_splits)
  next
    case False
    then show ?thesis using "2.IH" [folded st'_def, OF q(2)] "2.prems" by auto
  qed
qed simp

lemma entry_live: "entry a st \<Longrightarrow> a \<notin> moved st \<Longrightarrow> \<exists>i. (a, i) \<in> set (own_bindings st) \<and> bi_state i \<noteq> Consumed"
  by (auto simp: entry_def moved_def consumed_in_def dest: map_of_SomeD)

text \<open>
  A silent join of two branches from a table with an entry for a linear binding: if the binding
  is moved afterwards it was moved before, or both branches moved it.
\<close>

lemma join_if_must:
  assumes "entry a st" "is_linear_type lin (sym_type (symbol_at si a))"
    and "errs (join_if si lin site (own_opt si lin t) (own_opt si lin f) st) = errs st"
    and "a \<in> moved (join_if si lin site (own_opt si lin t) (own_opt si lin f) st)"
  shows "a \<in> moved st \<or> (a \<in> moved (own_opt si lin t st)
     \<and> a \<in> moved (own_opt si lin f ((own_opt si lin t st)\<lparr>own_bindings := own_bindings st\<rparr>)))"
proof -
  define st1 where "st1 = own_opt si lin t st"
  define v where "v = st1\<lparr>own_bindings := own_bindings st\<rparr>"
  define st2 where "st2 = own_opt si lin f v"
  define bs where "bs = [own_bindings st1, own_bindings st2]"
  define st3 where "st3 = report_linear_divergence si lin (own_bindings st) bs site st2"
  have j: "join_if si lin site (own_opt si lin t) (own_opt si lin f) st
      = st3\<lparr>own_bindings := merge_consumed (own_bindings st2) (own_bindings st1)\<rparr>"
    by (simp add: join_if_def Let_def st1_def v_def st2_def st3_def bs_def)
  have le: "errs st \<le> errs st1" "errs st1 \<le> errs st2" "errs st2 \<le> errs st3"
    using opt_grows [of st si lin t] opt_grows [of v si lin f] divergence_errs by (simp_all add: st1_def st2_def v_def st3_def)
  then have q: "errs st3 = errs st2" using assms(3) by (simp add: j)
  have "entry a st1" using assms(1) by (simp add: st1_def entry_opt)
  then have "consumed_in (own_bindings st2) a \<or> consumed_in (own_bindings st1) a"
    using assms(4) by (simp add: j merge_consumed_map entry_def)
  then obtain b where b: "b \<in> set bs" "consumed_in b a" by (auto simp: bs_def)
  show ?thesis
  proof (cases "a \<in> moved st")
    case False
    from entry_live [OF assms(1) this] obtain i where i: "(a, i) \<in> set (own_bindings st)" "bi_state i \<noteq> Consumed" by blast
    have "consumed_in c a" if "c \<in> set bs" for c
      using divergence_silent [OF q [unfolded st3_def] i assms(2) b that] .
    then show ?thesis by (simp add: bs_def moved_def st1_def [symmetric] v_def [symmetric] st2_def [symmetric])
  qed simp
qed

lemma bodies_states:
  assumes "own_bodies si lin arms pre (m, ss, st) = (m', ss', st')" "distinct (map fst pre)"
  shows "\<exists>new. ss' = ss @ new \<and> (consumed_in m' a \<longrightarrow> consumed_in m a \<or> (\<exists>s \<in> set new. consumed_in s a))
     \<and> (errs st' = errs st \<longrightarrow> (\<forall>arm \<in> set arms. \<forall>b. arm_body arm = Some b \<longrightarrow>
          (\<exists>v. own_bindings v = pre \<and> errs (own_expr si lin b v) = errs v \<and> own_bindings (own_expr si lin b v) \<in> set new)))"
  using assms(1)
proof (induction arms arbitrary: m ss st)
  case (Cons arm arms)
  obtain p g b d where arm: "arm = MatchArm p g b d" by (cases arm)
  show ?case
  proof (cases b)
    case None
    then have "own_bodies si lin arms pre (m, ss, st) = (m', ss', st')" using Cons.prems by (simp add: arm)
    from Cons.IH [OF this] show ?thesis by (simp add: arm None)
  next
    case (Some e)
    define v where "v = st\<lparr>own_bindings := pre\<rparr>"
    define st1 where "st1 = own_expr si lin e v"
    have 1: "own_bodies si lin arms pre (merge_consumed m (own_bindings st1), ss @ [own_bindings st1], st1) = (m', ss', st')"
      using Cons.prems by (simp add: arm Some one_body_def Let_def v_def st1_def)
    have le: "errs st \<le> errs st1" "errs st1 \<le> errs st'"
      using growsD(1) [OF expr_grows, of v si lin e] bodies_step [OF arms_grow 1] by (simp_all add: st1_def v_def)
    have d: "distinct (map fst (own_bindings st1))"
    proof -
      have "kept_by_update (\<lambda>b. distinct (map fst b))" by (simp add: kept_by_update_def distinct_update)
      from table_keeps_node [OF this, where si = si and lin = lin and n = "ExprNode e"] assms(2)
      show ?thesis by (simp add: table_keeps_def st1_def v_def)
    qed
    from Cons.IH [OF 1] obtain new where new: "ss' = (ss @ [own_bindings st1]) @ new"
      "consumed_in m' a \<longrightarrow> consumed_in (merge_consumed m (own_bindings st1)) a \<or> (\<exists>s \<in> set new. consumed_in s a)"
      "errs st' = errs st1 \<longrightarrow> (\<forall>arm \<in> set arms. \<forall>b. arm_body arm = Some b \<longrightarrow>
          (\<exists>v. own_bindings v = pre \<and> errs (own_expr si lin b v) = errs v \<and> own_bindings (own_expr si lin b v) \<in> set new))"
      by blast
    show ?thesis
    proof (intro exI [of _ "own_bindings st1 # new"] conjI impI)
      show "consumed_in m a \<or> (\<exists>s \<in> set (own_bindings st1 # new). consumed_in s a)" if "consumed_in m' a"
        using new(2) that by (auto simp: merge_consumed_map [OF d])
      assume q: "errs st' = errs st"
      then have "own_bindings v = pre \<and> errs (own_expr si lin e v) = errs v \<and> own_bindings (own_expr si lin e v) \<in> set (own_bindings st1 # new)"
        using le by (simp add: st1_def [symmetric]) (simp add: v_def)
      then show "\<forall>arm \<in> set (arm # arms). \<forall>b. arm_body arm = Some b \<longrightarrow>
          (\<exists>v. own_bindings v = pre \<and> errs (own_expr si lin b v) = errs v \<and> own_bindings (own_expr si lin b v) \<in> set (own_bindings st1 # new))"
        using new(3) q le by (auto simp: arm Some)
    qed (simp add: new(1))
  qed
qed simp

lemma join_match_must:
  assumes "entry a st" "is_linear_type lin (sym_type (symbol_at si a))"
    and "errs (join_match si lin site (own_bodies si lin arms) st) = errs st"
    and "a \<in> moved (join_match si lin site (own_bodies si lin arms) st)"
    and "arm \<in> set arms" "arm_body arm = Some b"
  shows "a \<in> moved st \<or> (\<exists>v. entry a v \<and> moved v = moved st \<and> errs (own_expr si lin b v) = errs v \<and> a \<in> moved (own_expr si lin b v))"
proof -
  obtain m ss st1 where b: "own_bodies si lin arms (own_bindings st) (own_bindings st, [], st) = (m, ss, st1)"
    by (metis prod_cases3)
  have d: "distinct (map fst (own_bindings st))" using assms(1) by (simp add: entry_def)
  from bodies_states [OF b d, of a]
  have s: "consumed_in m a \<longrightarrow> consumed_in (own_bindings st) a \<or> (\<exists>s \<in> set ss. consumed_in s a)"
    "errs st1 = errs st \<longrightarrow> (\<forall>arm \<in> set arms. \<forall>b. arm_body arm = Some b \<longrightarrow>
       (\<exists>v. own_bindings v = own_bindings st \<and> errs (own_expr si lin b v) = errs v \<and> own_bindings (own_expr si lin b v) \<in> set ss))"
    by auto
  define st2 where "st2 = (if ss = [] then st1 else report_linear_divergence si lin (own_bindings st) ss site st1)"
  have j: "join_match si lin site (own_bodies si lin arms) st = st2\<lparr>own_bindings := m\<rparr>"
    by (simp add: join_match_def Let_def b st2_def)
  have le: "errs st \<le> errs st1" "errs st1 \<le> errs st2"
    using bodies_step [OF arms_grow b] divergence_errs by (auto simp: st2_def)
  then have q: "errs st1 = errs st" "errs st2 = errs st1" using assms(3) by (simp_all add: j)
  from s(2) q(1) assms(5,6) obtain v where v: "own_bindings v = own_bindings st" "errs (own_expr si lin b v) = errs v"
    "own_bindings (own_expr si lin b v) \<in> set ss" by blast
  show ?thesis
  proof (cases "a \<in> moved st")
    case False
    from entry_live [OF assms(1) this] obtain i where i: "(a, i) \<in> set (own_bindings st)" "bi_state i \<noteq> Consumed" by blast
    have "consumed_in m a" using assms(4) by (simp add: j)
    then obtain s where s: "s \<in> set ss" "consumed_in s a" using s(1) False by (auto simp: moved_def)
    have r: "errs (report_linear_divergence si lin (own_bindings st) ss site st1) = errs st1"
      using q(2) s(1) by (cases "ss = []") (simp_all add: st2_def)
    have "consumed_in (own_bindings (own_expr si lin b v)) a"
      using divergence_silent [OF r i assms(2) s v(3)] .
    then show ?thesis using v assms(1) by (intro disjI2 exI [of _ v]) (simp add: moved_def entry_def)
  qed simp
qed

section \<open>Every move of the table was made\<close>

text \<open>No part of the node may be skipped, and no declaration or assignment of the binding.\<close>

definition unskipped :: "node \<Rightarrow> bool" where
  "unskipped n \<longleftrightarrow> regular n \<and>
     (case n of
        ExprNode e \<Rightarrow>
          (case e of
             BinaryExpr _ op _ _ \<Rightarrow> \<not> short_circuit op
           | MatchExpr _ _ arms \<Rightarrow> (\<forall>arm \<in> set arms. arm_guard arm = None \<and> arm_body arm \<noteq> None)
           | DoCatchExpr _ _ _ _ _ _ \<Rightarrow> False
           | _ \<Rightarrow> True)
      | _ \<Rightarrow> True)"

definition leaves :: "'v sema_info \<Rightarrow> sym_ref \<Rightarrow> node \<Rightarrow> bool" where
  "leaves si a n \<longleftrightarrow>
     (case n of
        StmtNode s \<Rightarrow>
          (case s of
             LetStmt _ _ _ _ \<Rightarrow> binding_symbol (tables si) s \<noteq> Some a
           | VarStmt _ _ _ _ \<Rightarrow> binding_symbol (tables si) s \<noteq> Some a
           | AssignStmt _ _ (Some t) _ \<Rightarrow> \<not> is_ident t \<or> symbol_of (tables si) t \<noteq> Some a
           | _ \<Rightarrow> True)
      | _ \<Rightarrow> True)"

definition moves_made :: "sym_ref \<Rightarrow> (own_state \<Rightarrow> own_state) \<Rightarrow> event list \<Rightarrow> bool" where
  "moves_made a f es \<longleftrightarrow> (\<forall>st. entry a st \<longrightarrow> errs (f st) = errs st \<longrightarrow> a \<in> moved (f st) \<longrightarrow> a \<in> moved st \<or> MoveEv a \<in> set es)"

lemma moves_madeD:
  "moves_made a f es \<Longrightarrow> entry a st \<Longrightarrow> errs (f st) = errs st \<Longrightarrow> a \<in> moved (f st) \<Longrightarrow> a \<in> moved st \<or> MoveEv a \<in> set es"
  by (simp add: moves_made_def)

lemma moves_made_comp:
  assumes "moves_made a f es" "moves_made a g fs" "\<And>st. errs st \<le> errs (f st)" "\<And>st. errs st \<le> errs (g st)"
    and "\<And>st. entry a st \<Longrightarrow> entry a (f st)"
  shows "moves_made a (\<lambda>st. g (f st)) (es @ fs)"
  unfolding moves_made_def
proof (intro allI impI)
  fix st assume e: "entry a st" and q: "errs (g (f st)) = errs st" and m: "a \<in> moved (g (f st))"
  from q assms(3) [of st] assms(4) [of "f st"] have 1: "errs (f st) = errs st" and 2: "errs (g (f st)) = errs (f st)" by simp_all
  from moves_madeD [OF assms(1) e 1] moves_madeD [OF assms(2) assms(5) [OF e] 2 m]
  show "a \<in> moved st \<or> MoveEv a \<in> set (es @ fs)" by auto
qed

lemma made_consume: "moves_made a (consume_place si e site) (move_events si e)"
  unfolding moves_made_def using consume_place_step(3) [of si e site] by (auto simp: move_events_def split: option.splits)

lemma made_use: "moves_made a (check_use si e) es"
  by (simp add: moves_made_def check_use_step(2))

lemma made_arg_end: "moves_made a (own_arg_end si c i io e) (if own_arg_mode c i io = Sink then move_events si e else [])"
  using made_consume [of a si e "expr_range e"] by (simp add: moves_made_def own_arg_end_def)

lemma made_revive: "s \<noteq> Some a \<Longrightarrow> moves_made a (revive s) es"
  by (auto simp: moves_made_def revive_step(2) revive_events_def split: option.splits)

lemma made_register: "moves_made a (register_linear_binding si lin s) es"
  by (auto simp: moves_made_def register_linear_binding_def moved_def consumed_update slot_def consumed_in_def fresh_info_def split: option.splits)

lemma made_value:
  assumes "moves_made a (own_nodes si lin (opt_node v)) es"
  shows "moves_made a (\<lambda>st. case v of None \<Rightarrow> st | Some e \<Rightarrow> consume_place si e (site e) (own_expr si lin e st)) (es @ opt_move_events si v)"
proof (cases v)
  case None
  with assms show ?thesis by (simp add: opt_move_events_def)
next
  case (Some e)
  with assms have "moves_made a (own_expr si lin e) es" by simp
  from moves_made_comp [OF this made_consume growsD(1) [OF expr_grows] consume_place_step(1) entry_expr] show ?thesis
    by (simp add: Some opt_move_events_def)
qed

lemma made_if:
  assumes "is_linear_type lin (sym_type (symbol_at si a))"
    and "moves_made a (own_nodes si lin (opt_node t)) es \<or> moves_made a (own_nodes si lin (opt_node f)) es"
  shows "moves_made a (join_if si lin site (own_opt si lin t) (own_opt si lin f)) es"
  unfolding moves_made_def
proof (intro allI impI)
  fix st assume e: "entry a st" and q: "errs (join_if si lin site (own_opt si lin t) (own_opt si lin f) st) = errs st"
    and m: "a \<in> moved (join_if si lin site (own_opt si lin t) (own_opt si lin f) st)"
  define v where "v = (own_opt si lin t st)\<lparr>own_bindings := own_bindings st\<rparr>"
  note j = join_if_step(4) [where f = "own_opt si lin t" and g = "own_opt si lin f", OF opt_grows opt_grows q, folded v_def]
  have v: "entry a v" "moved v = moved st" using e by (simp_all add: v_def entry_def moved_def)
  from join_if_must [OF e assms(1) q m, folded v_def] assms(2) j e v show "a \<in> moved st \<or> MoveEv a \<in> set es"
    unfolding own_lists_nodes by (metis moves_madeD)
qed

lemma made_match:
  assumes "is_linear_type lin (sym_type (symbol_at si a))" "arm \<in> set arms" "arm_body arm = Some b"
    and "moves_made a (own_expr si lin b) es"
  shows "moves_made a (join_match si lin site (own_bodies si lin arms)) es"
  unfolding moves_made_def
proof (intro allI impI)
  fix st assume e: "entry a st" and q: "errs (join_match si lin site (own_bodies si lin arms) st) = errs st"
    and m: "a \<in> moved (join_match si lin site (own_bodies si lin arms) st)"
  from join_match_must [OF e assms(1) q m assms(2,3)] moves_madeD [OF assms(4)]
  show "a \<in> moved st \<or> MoveEv a \<in> set es" by blast
qed

lemma unskipped_guards: "unskipped (ExprNode (MatchExpr h s arms)) \<Longrightarrow> guard_nodes arms = []"
  by (auto simp: unskipped_def guard_nodes_def)

lemma entry_args: "entry a st \<Longrightarrow> entry a (own_args si lin c i as st)"
  by (rule entry_keeps [OF table_keeps_args [OF entry_kept]])
     (use table_keeps_node [OF entry_kept, where n = "ExprNode _"] in \<open>simp_all\<close>)

lemma unskipped_regular: "everywhere unskipped ns \<Longrightarrow> everywhere regular ns"
  by (auto simp: everywhere_def unskipped_def)

lemma made_cond:
  assumes "moves_made a (own_nodes si lin (cond_nodes c li)) es"
    "moves_made a (join_if si lin (node_range h) (own_opt si lin t) (own_opt si lin f)) fs"
  shows "moves_made a (own_node si lin (ExprNode (IfExpr h nm li c t f))) (es @ fs)"
  using moves_made_comp [OF assms growsD(1) [OF nodes_grow] join_if_step(1) [OF opt_grows opt_grows] entry_nodes]
  by (simp add: own_if_node [abs_def])

lemma made_binding:
  assumes "moves_made a (own_nodes si lin (opt_node v)) es"
  shows "moves_made a (\<lambda>st. register_linear_binding si lin s
      (case v of None \<Rightarrow> st | Some e \<Rightarrow> consume_place si e (site e) (own_expr si lin e st)))
     (es @ opt_move_events si v @ ks)"
proof -
  have le: "errs st \<le> errs (case v of None \<Rightarrow> st | Some e \<Rightarrow> consume_place si e (site e) (own_expr si lin e st))" for st
    by (cases v) (auto intro: order_trans [OF growsD(1) [OF expr_grows] consume_place_step(1)])
  have en: "entry a (case v of None \<Rightarrow> st | Some e \<Rightarrow> consume_place si e (site e) (own_expr si lin e st))" if "entry a st" for st
    using that by (cases v) (simp_all add: entry_expr entry_steps)
  from moves_made_comp [OF made_value [OF assms] made_register [of a si lin s ks] le eq_refl [OF register_step(1) [symmetric]] en]
  show ?thesis by simp
qed

text \<open>The main induction.\<close>

definition cl :: "'v sema_info \<Rightarrow> sym_ref \<Rightarrow> node list \<Rightarrow> bool" where
  "cl si a ns \<longleftrightarrow> everywhere unskipped ns \<and> everywhere (leaves si a) ns"

lemma cl_simps [simp]:
  "cl si a []" "cl si a (n # ns) \<longleftrightarrow> unskipped n \<and> leaves si a n \<and> cl si a (direct n) \<and> cl si a ns"
  "cl si a (ns @ ms) \<longleftrightarrow> cl si a ns \<and> cl si a ms"
  "cl si a (concat nss) \<longleftrightarrow> (\<forall>ns \<in> set nss. cl si a ns)"
  by (auto simp: cl_def everywhere_concat)

lemma run_moves_made:
  assumes lin: "is_linear_type lin (sym_type (symbol_at si a))"
  shows "run si n es \<Longrightarrow> cl si a [n] \<longrightarrow> moves_made a (own_node si lin n) es"
    "runs si ns es \<Longrightarrow> cl si a ns \<longrightarrow> moves_made a (own_nodes si lin ns) es"
    "run_args si c i as es \<Longrightarrow> cl si a (map (\<lambda>x. ExprNode (arg_value x)) as) \<longrightarrow> moves_made a (own_args si lin c i as) es"
proof (induction rule: run_runs_run_args.inducts)
  case runs_Nil
  then show ?case by (simp add: moves_made_def)
next
  case (runs_Cons n es ns fs)
  then have "cl si a (n # ns) \<Longrightarrow> moves_made a (own_node si lin n) es" "cl si a (n # ns) \<Longrightarrow> moves_made a (own_nodes si lin ns) fs"
    by simp_all
  from moves_made_comp [OF this growsD(1) [OF own_grows] growsD(1) [OF nodes_grow]]
    entry_nodes [of a _ si lin "[n]"] show ?case by simp
next
  case (args_Nil c i)
  then show ?case by (simp add: moves_made_def)
next
  case (args_Cons e es c i as fs l io)
  show ?case
  proof (rule impI)
    assume "cl si a (map (\<lambda>x. ExprNode (arg_value x)) (Arg l io e # as))"
    with args_Cons have 1: "moves_made a (own_expr si lin e) es" and 2: "moves_made a (own_args si lin c (Suc i) as) fs" by simp_all
    have en: "entry a (own_arg_end si c i io e st)" if "entry a st" for st
      using that by (rule entry_steps)
    from moves_made_comp [OF moves_made_comp [OF 1 made_arg_end growsD(1) [OF expr_grows] arg_end_step(1) entry_expr] 2
        order_trans [OF growsD(1) [OF expr_grows] arg_end_step(1)] own_args_grow en [OF entry_expr]]
    show "moves_made a (own_args si lin c i (Arg l io e # as)) (es @ (if own_arg_mode c i io = Sink then move_events si e else []) @ fs)"
      unfolding own_args.simps append_assoc .
  qed
next
  case (run_plain n es)
  then show ?case using own_plain [of n si lin] by (auto simp: unskipped_def moves_made_def)
next
  case (run_ident h x)
  then show ?case by (simp add: own_expr.simps made_use)
next
  case (run_skip op e es h b)
  then show ?case by (simp add: unskipped_def)
next
  case (run_call f es as fs h ts)
  show ?case
  proof (rule impI)
    assume "cl si a [ExprNode (CallExpr h f ts as)]"
    then have "moves_made a (own_expr si lin f) es" "moves_made a (own_args si lin (own_callee si f) 0 as) fs"
      using run_call by simp_all
    from moves_made_comp [OF this growsD(1) [OF expr_grows] own_args_grow entry_expr]
    show "moves_made a (own_node si lin (ExprNode (CallExpr h f ts as))) (es @ fs)" by (simp add: own_expr.simps)
  qed
next
  case (run_then c li es t fs h nm f)
  show ?case
  proof (rule impI)
    assume "cl si a [ExprNode (IfExpr h nm li c t f)]"
    then have 1: "moves_made a (own_nodes si lin (cond_nodes c li)) es" "moves_made a (own_nodes si lin (opt_node t)) fs"
      using run_then by (auto simp: cond_nodes_def)
    from made_cond [OF 1(1) made_if [OF lin disjI1 [OF 1(2)]]]
    show "moves_made a (own_node si lin (ExprNode (IfExpr h nm li c t f))) (es @ fs)" .
  qed
next
  case (run_else c li es f fs h nm t)
  show ?case
  proof (rule impI)
    assume "cl si a [ExprNode (IfExpr h nm li c t f)]"
    then have 1: "moves_made a (own_nodes si lin (cond_nodes c li)) es" "moves_made a (own_nodes si lin (opt_node f)) fs"
      using run_else by (auto simp: cond_nodes_def)
    from made_cond [OF 1(1) made_if [OF lin disjI2 [OF 1(2)]]]
    show "moves_made a (own_node si lin (ExprNode (IfExpr h nm li c t f))) (es @ fs)" .
  qed
next
  case (run_match s es arm arms gs fs ks h)
  show ?case
  proof (rule impI)
    assume r: "cl si a [ExprNode (MatchExpr h s arms)]"
    then have g: "guard_nodes arms = []" by (intro unskipped_guards [of h s]) simp
    have "gs = []" using \<open>subseq gs (guard_nodes arms)\<close> by (simp add: g)
    then have "fs = []" using \<open>runs si gs fs\<close> by (auto elim: runs.cases)
    obtain b where b: "arm_body arm = Some b" using r \<open>arm \<in> set arms\<close> by (auto simp: unskipped_def)
    have "cl si a (opt_node (arm_body arm))" using r \<open>arm \<in> set arms\<close> by (auto simp: arm_nodes_def)
    then have k: "moves_made a (own_expr si lin b) ks" using run_match by (simp add: b)
    have "moves_made a (own_expr si lin s) es" using run_match r by simp
    from moves_made_comp [OF this made_match [OF lin \<open>arm \<in> set arms\<close> b k] growsD(1) [OF expr_grows] join_match_step(1) [OF arms_grow] entry_expr]
    show "moves_made a (own_node si lin (ExprNode (MatchExpr h s arms))) (es @ fs @ ks)"
      by (simp add: own_expr.simps own_lists_nodes g \<open>fs = []\<close>)
  qed
next
  case (run_do b es h nm t g c)
  then show ?case by (simp add: unskipped_def)
next
  case (run_catch b es rest g c fs h nm t)
  then show ?case by (simp add: unskipped_def)
next
  case (run_let v es h p t)
  show ?case
  proof (rule impI)
    assume "cl si a [StmtNode (LetStmt h p t v)]"
    then have "moves_made a (own_nodes si lin (opt_node v)) es" using run_let by simp
    from made_binding [OF this, where site = expr_range]
    show "moves_made a (own_node si lin (StmtNode (LetStmt h p t v)))
        (es @ opt_move_events si v @ revive_events (binding_symbol (tables si) (LetStmt h p t v)))"
      by (simp add: own_stmt.simps)
  qed
next
  case (run_var v es h p t)
  show ?case
  proof (rule impI)
    assume "cl si a [StmtNode (VarStmt h p t v)]"
    then have "moves_made a (own_nodes si lin (opt_node v)) es" using run_var by simp
    from made_binding [OF this, where site = expr_range]
    show "moves_made a (own_node si lin (StmtNode (VarStmt h p t v)))
        (es @ opt_move_events si v @ revive_events (binding_symbol (tables si) (VarStmt h p t v)))"
      by (simp add: own_stmt.simps)
  qed
next
  case (run_return v es h)
  show ?case
  proof (rule impI)
    assume "cl si a [StmtNode (ReturnStmt h v)]"
    then have "moves_made a (own_nodes si lin (opt_node v)) es" using run_return by simp
    from made_value [OF this, where site = "\<lambda>_. node_range h"]
    show "moves_made a (own_node si lin (StmtNode (ReturnStmt h v))) (es @ opt_move_events si v)" by (simp add: own_stmt.simps)
  qed
next
  case (run_assign v es t h op)
  show ?case
  proof (rule impI)
    assume r: "cl si a [StmtNode (AssignStmt h op (Some t) v)]"
    then have v: "moves_made a (own_expr si lin v) es" and t: "symbol_of (tables si) t \<noteq> Some a"
      using run_assign by (simp_all add: leaves_def)
    from moves_made_comp [OF v made_revive [OF t] growsD(1) [OF expr_grows] eq_refl [OF revive_step(1) [symmetric]] entry_expr]
    show "moves_made a (own_node si lin (StmtNode (AssignStmt h op (Some t) v)))
        (es @ (if op = Assign then [] else use_events si t) @ revive_events (symbol_of (tables si) t))"
      using run_assign by (simp add: own_stmt.simps)
  qed
next
  case (run_assign_place v es t fs h op)
  show ?case
  proof (rule impI)
    assume "cl si a [StmtNode (AssignStmt h op (Some t) v)]"
    then have "moves_made a (own_expr si lin v) es" "moves_made a (own_expr si lin t) fs" using run_assign_place by simp_all
    from moves_made_comp [OF this growsD(1) [OF expr_grows] growsD(1) [OF expr_grows] entry_expr]
    show "moves_made a (own_node si lin (StmtNode (AssignStmt h op (Some t) v))) (es @ fs)"
      using run_assign_place by (simp add: own_stmt.simps)
  qed
next
  case (run_assign_none v es h op)
  then show ?case by (simp add: own_stmt.simps)
next
  case (run_while k c b es h l)
  then show ?case by (simp add: unskipped_def regular_def)
next
  case (run_for it k b es h l p)
  then show ?case by (simp add: unskipped_def regular_def)
qed

text \<open>Nothing leaves the body before its end either: a part that is neither skipped nor left early.\<close>

definition exits :: "node \<Rightarrow> bool" where
  "exits n \<longleftrightarrow>
     (case n of
        ExprNode e \<Rightarrow> (case e of ThrowExpr _ _ \<Rightarrow> True | TryExpr _ _ _ \<Rightarrow> True | _ \<Rightarrow> False)
      | StmtNode s \<Rightarrow>
          (case s of ReturnStmt _ _ \<Rightarrow> True | BreakStmt _ _ \<Rightarrow> True | ContinueStmt _ _ \<Rightarrow> True | _ \<Rightarrow> False))"

definition certain :: "node \<Rightarrow> bool" where
  "certain n \<longleftrightarrow> unskipped n \<and> \<not> exits n"

text \<open>
  The statements run to their end on every path: none is skipped or left, but the last one may be a
  return.
\<close>

definition completes :: "stmt list \<Rightarrow> bool" where
  "completes ss \<longleftrightarrow>
     (case rev ss of
        ReturnStmt _ v # rs \<Rightarrow> everywhere certain (map StmtNode (rev rs) @ opt_node v)
      | _ \<Rightarrow> everywhere certain (map StmtNode ss))"

lemma certain_unskipped: "everywhere certain ns \<Longrightarrow> everywhere unskipped ns"
  by (auto simp: everywhere_def certain_def)

lemma completes_unskipped: "completes ss \<Longrightarrow> everywhere unskipped (map StmtNode ss)"
proof (cases ss rule: rev_cases)
  case (snoc rs s)
  assume c: "completes ss"
  show ?thesis
  proof (cases s)
    case (ReturnStmt h v)
    with c snoc have "everywhere certain (map StmtNode rs)" "everywhere certain (opt_node v)"
      by (simp_all add: completes_def)
    with ReturnStmt snoc certain_unskipped show ?thesis by (auto simp: unskipped_def regular_def)
  qed (use c snoc certain_unskipped in \<open>auto simp: completes_def certain_def\<close>)
qed simp

section \<open>A linear binding of the body\<close>

lemma leaves_no_revive:
  "run si n es \<Longrightarrow> everywhere (leaves si a) [n] \<longrightarrow> ReviveEv a \<notin> set es"
  "runs si ns es \<Longrightarrow> everywhere (leaves si a) ns \<longrightarrow> ReviveEv a \<notin> set es"
  "run_args si c i as es \<Longrightarrow> everywhere (leaves si a) (map (\<lambda>x. ExprNode (arg_value x)) as) \<longrightarrow> ReviveEv a \<notin> set es"
proof (induction rule: run_runs_run_args.inducts)
  case (run_match s es arm arms gs fs ks h)
  then show ?case using everywhere_subset [OF subseq_set [OF \<open>subseq gs (guard_nodes arms)\<close>]]
    by (auto simp: everywhere_arms)
qed (auto simp: leaves_def cond_nodes_def everywhere_replicate use_events_def move_events_def opt_move_events_def
      revive_events_def split: if_splits option.splits)

lemma moved_after_move: "MoveEv a \<in> set es \<Longrightarrow> ReviveEv a \<notin> set es \<Longrightarrow> a \<in> moved_after m es"
proof (induction m es rule: safe.induct)
  case (3 m b es)
  have keep: "a \<in> k \<Longrightarrow> ReviveEv a \<notin> set fs \<Longrightarrow> a \<in> moved_after k fs" for k fs
    by (induction k fs rule: safe.induct) auto
  from 3 keep [of "insert b m" es] show ?case by auto
qed auto

lemma runs_append:
  "runs si (ns @ ms) es \<Longrightarrow> \<exists>es1 es2. es = es1 @ es2 \<and> runs si ns es1 \<and> runs si ms es2"
proof (induction ns arbitrary: es)
  case (Cons n ns)
  from Cons.prems obtain e1 e2 where e: "es = e1 @ e2" "run si n e1" "runs si (ns @ ms) e2"
    by (auto elim: runs.cases)
  from Cons.IH [OF e(3)] obtain e3 e4 where "e2 = e3 @ e4" "runs si ns e3" "runs si ms e4" by blast
  then show ?case using e runs_Cons by (intro exI [of _ "e1 @ e3"] exI [of _ e4]) simp
qed (auto intro: runs_Nil)

lemma silent_linear_moved:
  assumes silent: "errs (own_func si lin (Some (BlockExpr h (ss1 @ s # ss2))) st) = errs st"
    and decl: "(\<exists>g p t v. s = LetStmt g p t v \<or> s = VarStmt g p t v)" "binding_symbol (tables si) s = Some a"
      "is_linear_type lin (sym_type (symbol_at si a))"
    and rest: "cl si a (map StmtNode ss2)"
    and run: "run si (ExprNode (BlockExpr h (ss1 @ s # ss2))) es"
  shows "a \<in> moved_after {} es"
proof -
  define st0 where "st0 = own_nodes si lin (map StmtNode ss1) (st\<lparr>own_bindings := []\<rparr>)"
  define st1 where "st1 = own_stmt si lin s st0"
  define st2 where "st2 = own_nodes si lin (map StmtNode ss2) st1"
  have body: "own_expr si lin (BlockExpr h (ss1 @ s # ss2)) (st\<lparr>own_bindings := []\<rparr>) = st2"
    by (simp add: own_expr.simps own_lists_nodes st0_def st1_def st2_def)
  note q = own_func_silent [OF silent, unfolded body]
  have le: "errs (st\<lparr>own_bindings := []\<rparr>) \<le> errs st0" "errs st0 \<le> errs st1" "errs st1 \<le> errs st2"
    unfolding st0_def st1_def st2_def
    by (rule growsD(1) [OF nodes_grow] growsD(1) [OF own_grows [of "StmtNode s"], unfolded own_node_simps])+
  then have q2: "errs st2 = errs st1" using q(1) by simp
  have k: "kept_by_update (\<lambda>b. distinct (map fst b))" by (simp add: kept_by_update_def distinct_update)
  have d0: "distinct (map fst (own_bindings st0))"
    using table_keeps_nodes [OF table_keeps_node [OF k], where si = si and lin = lin and ns = "map StmtNode ss1"]
    by (simp add: table_keeps_def st0_def)
  have d1: "distinct (map fst (own_bindings st1))"
    using table_keeps_node [OF k, where si = si and lin = lin and n = "StmtNode s"] d0
    by (simp add: table_keeps_def st1_def)
  obtain v where v: "st1 = register_linear_binding si lin s v"
    using decl(1) unfolding st1_def by (auto simp: own_stmt.simps)
  have e1: "entry a st1" "a \<notin> moved st1"
    using d1 decl(2,3) by (simp_all add: v register_linear_binding_def entry_def moved_def consumed_update)
  have "entry a st2" unfolding st2_def by (rule entry_nodes [OF e1(1)])
  then obtain i where i: "(a, i) \<in> set (own_bindings st2)" "map_of (own_bindings st2) a = Some i"
    by (auto simp: entry_def dest: map_of_SomeD)
  then have "a \<in> moved st2" using q(2) decl(3) by (auto simp: moved_def consumed_in_def)
  from run have "runs si (map StmtNode ss1 @ map StmtNode (s # ss2)) es"
    by (auto elim: run.cases)
  then obtain es1 es2 where es: "es = es1 @ es2" "runs si (map StmtNode (s # ss2)) es2" using runs_append by blast
  then obtain e f where f: "es2 = e @ f" "runs si (map StmtNode ss2) f" by (auto elim: runs.cases)
  have "moves_made a (own_nodes si lin (map StmtNode ss2)) f"
    using run_moves_made(2) [OF decl(3) f(2)] rest by blast
  from moves_madeD [OF this e1(1)] q2 \<open>a \<in> moved st2\<close> e1(2) have "MoveEv a \<in> set f" by (simp add: st2_def)
  moreover have "ReviveEv a \<notin> set f" using leaves_no_revive(2) [OF f(2), of a] rest by (simp add: cl_def)
  ultimately show ?thesis by (simp add: es(1) f(1) moved_after_move)
qed

end
