(* ===== verification/Ownership_Laws.thy ===== *)
theory Ownership_Laws
  imports Ownership_Leaks
begin

text \<open>
  The properties of the ownership checker, each applied to a concrete program where it has
  hypotheses, and the programs that show where its guarantee ends.
\<close>

section \<open>Concrete programs\<close>

text \<open>
  Three names: the identifiers below 10 are a binding of the linear struct \<^verbatim>\<open>Conn\<close>, those from
  10 to 19 the constructor \<^verbatim>\<open>Wrap\<close>, which takes what it is given, those above have no symbol.
\<close>

definition conn_type :: type_ptr where
  "conn_type = Some (Ty 40 KStruct None 0 [] None (Some \<lparr>decl_addr = 40, decl_kind = NominalStruct, decl_name = ''Conn''\<rparr>) [])"

definition conn_info :: "unit sema_info" where
  "conn_info = \<lparr>tables = empty_resolution
       \<lparr>expr_symbols := (\<lambda>a. if a < 10 then Some (Some 0) else if a < 20 then Some (Some 1) else None),
        binding_symbols := [50 \<mapsto> Some 0]\<rparr>,
     symbol_at = (\<lambda>k. if k = 0 then (local_symbol ''c'')\<lparr>sym_type := conn_type\<rparr>
                      else (local_symbol ''Wrap'')\<lparr>sym_kind := SymStruct\<rparr>)\<rparr>"

definition conn :: "nat \<Rightarrow> expr" where
  "conn n = IdentExpr (here n) ''c''"

definition wrap :: "expr \<Rightarrow> expr" where
  "wrap e = CallExpr (here 20) (IdentExpr (here 10) ''Wrap'') [] [Arg [] False e]"

definition block :: "stmt list \<Rightarrow> expr" where
  "block ss = BlockExpr (here 21) ss"

definition let_conn :: stmt where
  "let_conn = LetStmt (here 50) None None (Some (NilLit (here 22)))"

definition start :: own_state where
  "start = \<lparr>own_bindings = [], own_reporter = \<lparr>error_cap = 0, diagnostics = [], error_count = 0, warning_count = 0\<rparr>\<rparr>"

lemma tracked_conn [simp]:
  "n < 10 \<Longrightarrow> tracked_symbol conn_info (conn n) = Some 0"
  "n < 10 \<Longrightarrow> place_symbol conn_info (conn n) = Some 0"
  by (simp_all add: conn_def tracked_symbol_def symbol_of_def conn_info_def empty_resolution_def here_def expr_hdr_def
      local_symbol_def conn_type_def is_trackable_kind_def is_trivial_def)

lemma wrap_steps [simp]:
  assumes "n < 10"
  shows "own_expr conn_info lin (wrap (conn n)) st
    = consume_symbol conn_info 0 (expr_range (conn n)) (use_symbol conn_info 0 (expr_range (conn n)) st)"
proof -
  have callee: "own_callee conn_info (IdentExpr (here 10) ''Wrap'') = (None, True)"
    "tracked_symbol conn_info (IdentExpr (here 10) ''Wrap'') = None"
    by (simp_all add: own_callee_def tracked_symbol_def symbol_of_def conn_info_def here_def expr_hdr_def local_symbol_def
        is_trackable_kind_def)
  have "own_expr conn_info lin (conn n) = check_use conn_info (conn n)"
    by (simp add: conn_def own_expr.simps)
  then show ?thesis using assms
    by (simp add: wrap_def own_expr.simps [of _ _ "CallExpr _ _ _ _"] own_expr.simps [of _ _ "IdentExpr _ ''Wrap''"]
        callee own_arg_end_def own_arg_mode_def check_use_def consume_place_def)
qed

lemma wrap_run [simp]: "n < 10 \<Longrightarrow> run conn_info (ExprNode (wrap (conn n))) [UseEv 0, MoveEv 0]"
proof -
  assume n: "n < 10"
  have f: "run conn_info (ExprNode (IdentExpr (here 10) ''Wrap'')) []"
    using run_ident [of conn_info "here 10" "''Wrap''"]
    by (simp add: use_events_def tracked_symbol_def symbol_of_def conn_info_def here_def expr_hdr_def local_symbol_def is_trackable_kind_def)
  have c: "own_callee conn_info (IdentExpr (here 10) ''Wrap'') = (None, True)"
    by (simp add: own_callee_def symbol_of_def conn_info_def here_def expr_hdr_def local_symbol_def)
  have "run conn_info (ExprNode (conn n)) [UseEv 0]"
    using run_ident [of conn_info "here n" "''c''"] n unfolding conn_def [symmetric] by (simp add: use_events_def)
  from run_call [OF f, of "[Arg [] False (conn n)]" "[UseEv 0, MoveEv 0]" "here 20" "[]"]
    args_Cons [OF this args_Nil, of "(None, True)" 0 "[]" False] n
  show ?thesis by (simp add: c own_arg_mode_def move_events_def wrap_def)
qed

lemma let_conn_step [simp]:
  "own_stmt conn_info lin let_conn st = register_linear_binding conn_info lin let_conn st"
  "binding_symbol (tables conn_info) let_conn = Some 0"
  "is_linear_type lin (sym_type (symbol_at conn_info 0)) \<longleftrightarrow> 40 \<in> lin"
  "sym_name (symbol_at conn_info 0) = ''c''"
  by (simp_all add: let_conn_def own_stmt.simps consume_place_def own_expr.simps binding_symbol_def conn_info_def
      here_def stmt_hdr_def is_linear_type_def conn_type_def local_symbol_def)

lemma let_conn_run [simp]: "run conn_info (StmtNode let_conn) [ReviveEv 0]"
proof -
  have "run conn_info (ExprNode (NilLit (here 22))) []"
    by (rule run_plain) (simp_all add: plain_def runs_Nil)
  from run_let [OF runs_Cons [OF this runs_Nil, folded opt_node_simps], of "here 50" None None]
  show ?thesis using let_conn_step(2) unfolding let_conn_def
    by (simp add: opt_move_events_def move_events_def revive_events_def)
qed

lemma regular_conn [simp]:
  "everywhere regular [ExprNode (wrap (conn n))]" "everywhere regular [StmtNode let_conn]"
  by (simp_all add: wrap_def conn_def let_conn_def regular_def)

lemma own_block [simp]: "own_expr si lin (block ss) st = own_stmts si lin ss st"
  by (simp add: block_def own_expr.simps)

lemma own_stmt_simps [simp]:
  "own_stmt si lin (ExprStmt h e) st = own_expr si lin e st"
  "own_stmt si lin (WhileStmt h l (BoolLit g v) (Some b)) st = own_expr si lin b st"
  by (simp_all add: own_stmt.simps own_expr.simps [of _ _ "BoolLit _ _"])

lemma stmts_run: "list_all2 (\<lambda>s es. run si (StmtNode s) es) ss ess \<Longrightarrow> runs si (map StmtNode ss) (concat ess)"
  by (induction ss ess rule: list_all2_induct) (auto intro: runs_Nil runs_Cons)

lemma block_run: "list_all2 (\<lambda>s es. run si (StmtNode s) es) ss ess \<Longrightarrow> run si (ExprNode (block ss)) (concat ess)"
  by (rule run_plain) (simp_all add: plain_def block_def stmts_run)

lemma expr_run [simp]: "run si (ExprNode e) es \<Longrightarrow> run si (StmtNode (ExprStmt h e)) es"
  using run_plain [of "StmtNode (ExprStmt h e)" si es] runs_Cons [of si "ExprNode e" es "[]" "[]"]
  by (simp add: plain_def runs_Nil)

lemma check_body:
  "ownership_check si (unit_of b) r = own_reporter (own_func si {} (Some b) \<lparr>own_bindings = [], own_reporter = r\<rparr>)"
proof -
  have "linear_loop [func_of b] {} = {}"
    by (subst linear_loop.simps) (simp add: func_of_def)
  then show ?thesis
    by (simp add: ownership_check_def compute_linear_decls_def unit_of_def own_decl.simps) (simp add: func_of_def)
qed

lemmas own_eval = own_func_def Let_def consume_symbol_def use_symbol_def slot_def fresh_info_def
  register_linear_binding_def own_report_def report_def

section \<open>Properties\<close>

text \<open>
  C8: The checker is sound against moves: when the pass over a unit adds no error, then in
  every function with a regular body, methods included, no execution of the body uses or moves
  a binding that it moved before and did not assign again. This is over all choices of
  branches, match arms, guards, short-circuits and of the point where a \<^verbatim>\<open>do\<close> body throws.
\<close>

theorem ownership_sound:
  assumes "error_count (ownership_check si u r) = error_count r"
    and "declared_in (unit_decls u) f" "body_of f = Some b"
    and "everywhere regular [ExprNode b]"
    and "run si (ExprNode b) es"
  shows "safe {} es"
proof -
  define st where "st = \<lparr>own_bindings = [], own_reporter = r\<rparr>"
  have "errs (own_decls si (compute_linear_decls u) (unit_decls u) st) = errs st"
    using assms(1) by (simp add: ownership_check_def st_def errs_def)
  with own_decls_bodies(2) [of st si "compute_linear_decls u" "unit_decls u" f b] assms(2,3)
  obtain v where "errs (own_func si (compute_linear_decls u) (Some b) v) = errs v" by blast
  from silent_run_safe [OF assms(4) this assms(5)] show ?thesis .
qed

text \<open>The bodies \<^verbatim>\<open>{ Wrap(c) }\<close> and \<^verbatim>\<open>{ Wrap(c); Wrap(c) }\<close>.\<close>

definition move_once :: expr where
  "move_once = block [ExprStmt (here 30) (wrap (conn 1))]"

definition move_twice :: expr where
  "move_twice = block [ExprStmt (here 30) (wrap (conn 1)), ExprStmt (here 31) (wrap (conn 2))]"

lemma moves_regular: "everywhere regular [ExprNode move_once]" "everywhere regular [ExprNode move_twice]"
  using regular_conn(1) [of 1] regular_conn(1) [of 2] by (simp_all add: move_once_def move_twice_def block_def regular_def)

lemma moves_run:
  "run conn_info (ExprNode move_once) [UseEv 0, MoveEv 0]"
  "run conn_info (ExprNode move_twice) [UseEv 0, MoveEv 0, UseEv 0, MoveEv 0]"
  using block_run [of conn_info "[ExprStmt (here 30) (wrap (conn 1))]" "[[UseEv 0, MoveEv 0]]"]
    block_run [of conn_info "[ExprStmt (here 30) (wrap (conn 1)), ExprStmt (here 31) (wrap (conn 2))]"
      "[[UseEv 0, MoveEv 0], [UseEv 0, MoveEv 0]]"]
  by (simp_all add: move_once_def move_twice_def)

theorem ownership_sound_witness:
  "safe {} [UseEv 0, MoveEv 0]
   \<and> error_count (ownership_check conn_info (unit_of move_twice) (own_reporter start)) \<noteq> error_count (own_reporter start)"
proof -
  define r where "r = own_reporter start"
  have "error_count (ownership_check conn_info (unit_of move_once) r) = error_count r"
    by (simp add: check_body move_once_def own_eval)
  moreover have "declared_in (unit_decls (unit_of b)) (func_of b)" "body_of (func_of b) = Some b" for b
    by (simp_all add: declared_unit) (simp add: func_of_def body_of_def)
  ultimately show ?thesis
    using ownership_sound [OF _ _ _ moves_regular(1) moves_run(1), of "unit_of move_once" r "func_of move_once"]
      ownership_sound [OF _ _ _ moves_regular(2) moves_run(2), of "unit_of move_twice" r "func_of move_twice"]
    unfolding r_def [symmetric] by auto
qed

text \<open>
  C9: A linear value declared in a function body cannot be forgotten where the rest of the body runs to
  its end on every path: when the pass adds no error, no part of the rest may be skipped by a
  short-circuit operator, a guard, a loop or a \<^verbatim>\<open>do\<close>, nothing in it leaves early by \<^verbatim>\<open>return\<close> before the
  last statement, \<^verbatim>\<open>throw\<close>, \<^verbatim>\<open>try\<close>, \<^verbatim>\<open>break\<close> or \<^verbatim>\<open>continue\<close>, and the binding is not declared or assigned
  again, then every execution of the body has moved the binding at its end. Branches and match arms
  are joins: a silent pass means that every one of them moves it or none does.
\<close>

theorem linear_value_consumed:
  assumes "error_count (ownership_check si u r) = error_count r"
    and "declared_in (unit_decls u) f" "body_of f = Some (BlockExpr h (ss1 @ s # ss2))"
    and "s = LetStmt g p t v \<or> s = VarStmt g p t v" "binding_symbol (tables si) s = Some a"
    and "is_linear_type (compute_linear_decls u) (sym_type (symbol_at si a))"
    and "completes ss2" "everywhere (leaves si a) (map StmtNode ss2)"
    and "run si (ExprNode (BlockExpr h (ss1 @ s # ss2))) es"
  shows "a \<in> moved_after {} es"
proof -
  have "errs (own_decls si (compute_linear_decls u) (unit_decls u) \<lparr>own_bindings = [], own_reporter = r\<rparr>)
      = errs \<lparr>own_bindings = [], own_reporter = r\<rparr>"
    using assms(1) by (simp add: ownership_check_def errs_def)
  with own_decls_bodies(2) [of "\<lparr>own_bindings = [], own_reporter = r\<rparr>" si "compute_linear_decls u" "unit_decls u" f] assms(2,3)
  obtain w where "errs (own_func si (compute_linear_decls u) (Some (BlockExpr h (ss1 @ s # ss2))) w) = errs w" by blast
  then show ?thesis
    by (rule silent_linear_moved) (use assms completes_unskipped in \<open>auto simp: cl_def\<close>)
qed

text \<open>
  The struct \<^verbatim>\<open>Conn\<close> is declared linear, and the body is
  \<^verbatim>\<open>{ let c = nil; if true { Wrap(c) } else { Wrap(c) } }\<close>.
\<close>

definition conn_unit :: "expr \<Rightarrow> compilation_unit" where
  "conn_unit b = \<lparr>unit_module = None, unit_imports = [],
     unit_decls = [StructDecl (here 40) [] Internal True ''Conn'' [] [] [] None, func_of b]\<rparr>"

definition both_branches :: stmt where
  "both_branches = ExprStmt (here 60) (IfExpr (here 61) [] None (Some (BoolLit (here 62) True)) (Some (wrap (conn 1))) (Some (wrap (conn 2))))"

lemma conn_unit_linear: "compute_linear_decls (conn_unit b) = {40}"
proof -
  have "linear_loop (unit_decls (conn_unit b)) {40} = {40}"
    by (subst linear_loop.simps) (simp add: conn_unit_def func_of_def here_def)
  then show ?thesis by (simp add: compute_linear_decls_def) (simp add: conn_unit_def func_of_def here_def)
qed

lemma conn_unit_check:
  "ownership_check conn_info (conn_unit b) r = own_reporter (own_func conn_info {40} (Some b) \<lparr>own_bindings = [], own_reporter = r\<rparr>)"
  unfolding ownership_check_def conn_unit_linear
  by (simp add: conn_unit_def own_decl.simps) (simp add: func_of_def)

lemma both_branches_silent:
  "error_count (ownership_check conn_info (conn_unit (BlockExpr (here 21) ([] @ let_conn # [both_branches]))) r) = error_count r"
proof -
  have "own_stmt conn_info lin both_branches st = join_if conn_info lin (node_range (here 61))
      (own_opt conn_info lin (Some (wrap (conn 1)))) (own_opt conn_info lin (Some (wrap (conn 2)))) st" for lin st
    by (simp add: both_branches_def own_stmt.simps own_if_node cond_nodes_def own_expr.simps [of _ _ "BoolLit _ _"])
  then show ?thesis
    by (simp add: conn_unit_check own_eval own_expr.simps [of _ _ "BlockExpr _ _"] join_if_def consumed_in_def del: own_opt.simps)
       (simp add: own_eval consumed_in_def)
qed

lemma both_branches_run:
  "run conn_info (ExprNode (BlockExpr (here 21) ([] @ let_conn # [both_branches]))) [ReviveEv 0, UseEv 0, MoveEv 0]"
proof -
  have "run conn_info (ExprNode (BoolLit (here 62) True)) []" by (rule run_plain) (simp_all add: plain_def runs_Nil)
  from run_then [of conn_info "Some (BoolLit (here 62) True)" None "[]" "Some (wrap (conn 1))" "[UseEv 0, MoveEv 0]"]
    runs_Cons [OF this runs_Nil] runs_Cons [OF wrap_run [of 1] runs_Nil]
  have "run conn_info (StmtNode both_branches) [UseEv 0, MoveEv 0]"
    unfolding both_branches_def by (intro expr_run) (simp add: cond_nodes_def)
  then show ?thesis
    using block_run [of conn_info "[let_conn, both_branches]" "[[ReviveEv 0], [UseEv 0, MoveEv 0]]"] by (simp add: block_def)
qed

theorem linear_value_consumed_witness:
  "0 \<in> moved_after {} [ReviveEv 0, UseEv 0, MoveEv 0]"
proof (rule linear_value_consumed [OF both_branches_silent _ _ _ _ _ _ _ both_branches_run])
  show "declared_in (unit_decls (conn_unit (BlockExpr (here 21) ([] @ let_conn # [both_branches])))) (func_of (BlockExpr (here 21) ([] @ let_conn # [both_branches])))"
    by (rule declared_in.top) (simp add: conn_unit_def)
  show "body_of (func_of (BlockExpr (here 21) ([] @ let_conn # [both_branches]))) = Some (BlockExpr (here 21) ([] @ let_conn # [both_branches]))"
    by (simp add: body_of_def func_of_def)
  show "let_conn = LetStmt (here 50) None None (Some (NilLit (here 22))) \<or> let_conn = VarStmt (here 50) None None (Some (NilLit (here 22)))"
    by (simp add: let_conn_def)
  show "completes [both_branches]" "everywhere (leaves conn_info 0) (map StmtNode [both_branches])"
    by (simp_all add: both_branches_def wrap_def conn_def completes_def certain_def exits_def unskipped_def regular_def leaves_def)
qed (simp_all add: conn_unit_linear)

text \<open>
  C10: The set of linear structs is the least one that holds the structs declared linear and
  every struct of the unit with a field whose type names, by its last component, a struct of
  the set. The worklist stops, whatever the declarations are, cyclic ones included.
\<close>

theorem linear_decls_least:
  "a \<in> compute_linear_decls u \<longleftrightarrow> linear_struct (unit_decls u) a"
  unfolding compute_linear_decls_def
  by (rule linear_loop_exact) (auto simp: declared_linear_iff intro: linear_struct.declared)

text \<open>
  C11: After a join a binding is consumed exactly when it was consumed on one of the two sides.
\<close>

theorem merge_is_union:
  assumes "distinct (map fst br)"
  shows "consumed_in (merge_consumed dst br) a \<longleftrightarrow> consumed_in dst a \<or> consumed_in br a"
  using assms by (rule merge_consumed_map)

theorem merge_is_union_witness:
  "consumed_in (merge_consumed [(2, fresh_info)] [(1, \<lparr>bi_state = Consumed, bi_consume_site = no_range\<rparr>), (2, fresh_info)]) 1"
  using merge_is_union [of "[(1, \<lparr>bi_state = Consumed, bi_consume_site = no_range\<rparr>), (2, fresh_info)]" "[(2, fresh_info)]" 1]
  by (simp add: consumed_in_def)

text \<open>The body \<^verbatim>\<open>{ let c = nil; true && Wrap(c) }\<close>.\<close>

definition skipped_move :: expr where
  "skipped_move = block [let_conn, ExprStmt (here 27) (BinaryExpr (here 28) AndOp (BoolLit (here 24) True) (wrap (conn 1)))]"

lemma skipped_move_silent: "error_count (ownership_check conn_info (conn_unit skipped_move) r) = error_count r"
proof -
  have "own_stmt conn_info lin (ExprStmt (here 27) (BinaryExpr (here 28) AndOp (BoolLit (here 24) True) (wrap (conn 1)))) st
      = own_expr conn_info lin (wrap (conn 1)) st" for lin st
    by (simp add: own_expr.simps [of _ _ "BinaryExpr _ _ _ _"] own_expr.simps [of _ _ "BoolLit _ _"])
  then show ?thesis by (simp add: conn_unit_check skipped_move_def own_eval del: own_stmt_simps)
qed

lemma skipped_move_run: "run conn_info (ExprNode skipped_move) [ReviveEv 0]"
proof -
  have "run conn_info (ExprNode (BoolLit (here 24) True)) []" by (rule run_plain) (simp_all add: plain_def runs_Nil)
  then have "run conn_info (ExprNode (BinaryExpr (here 28) AndOp (BoolLit (here 24) True) (wrap (conn 1)))) []"
    by (rule run_skip [rotated]) (simp add: short_circuit_def)
  then show ?thesis
    using block_run [of conn_info "[let_conn, ExprStmt (here 27) (BinaryExpr (here 28) AndOp (BoolLit (here 24) True) (wrap (conn 1)))]"
        "[[ReviveEv 0], []]"] by (simp add: skipped_move_def)
qed

text \<open>
  C36: Where soundness ends. A loop body is checked once, so a body that moves a binding declared
  outside the loop is accepted although its second round moves it again; and the target of a
  compound assignment counts as assigned, not as used, so \<^verbatim>\<open>c += ...\<close> on a moved binding is
  accepted. Both executions are unsafe. And the right side of a short-circuit operator counts as run, so
  a linear value that only it moves is accepted, although the execution that skips it ends without
  the move.
\<close>

theorem loops_and_compound_assignment_unchecked:
  "error_count (ownership_check conn_info (unit_of (block [let_conn, WhileStmt (here 23) [] (BoolLit (here 24) True) (Some (wrap (conn 1)))])) r) = error_count r
   \<and> run conn_info (ExprNode (block [let_conn, WhileStmt (here 23) [] (BoolLit (here 24) True) (Some (wrap (conn 1)))]))
       [ReviveEv 0, UseEv 0, MoveEv 0, UseEv 0, MoveEv 0]
   \<and> error_count (ownership_check conn_info (unit_of (block [let_conn, ExprStmt (here 23) (wrap (conn 1)), AssignStmt (here 25) AddAssign (Some (conn 2)) (NilLit (here 26))])) r) = error_count r
   \<and> run conn_info (ExprNode (block [let_conn, ExprStmt (here 23) (wrap (conn 1)), AssignStmt (here 25) AddAssign (Some (conn 2)) (NilLit (here 26))]))
       [ReviveEv 0, UseEv 0, MoveEv 0, UseEv 0, ReviveEv 0]
   \<and> \<not> safe {} [ReviveEv 0, UseEv 0, MoveEv 0, UseEv 0, MoveEv 0]
   \<and> \<not> safe {} [ReviveEv 0, UseEv 0, MoveEv 0, UseEv 0, ReviveEv 0]
   \<and> error_count (ownership_check conn_info (conn_unit skipped_move) r) = error_count r
   \<and> is_linear_type (compute_linear_decls (conn_unit skipped_move)) (sym_type (symbol_at conn_info 0))
   \<and> run conn_info (ExprNode skipped_move) [ReviveEv 0] \<and> 0 \<notin> moved_after {} [ReviveEv 0]"
proof (intro conjI)
  have lit: "run conn_info (ExprNode (BoolLit (here 24) True)) []" "run conn_info (ExprNode (NilLit (here 26))) []"
    by (rule run_plain; simp add: plain_def runs_Nil)+
  have loop: "run conn_info (StmtNode (WhileStmt (here 23) [] (BoolLit (here 24) True) (Some (wrap (conn 1))))) [UseEv 0, MoveEv 0, UseEv 0, MoveEv 0]"
    using run_while [of conn_info 2 "BoolLit (here 24) True" "Some (wrap (conn 1))" "[UseEv 0, MoveEv 0, UseEv 0, MoveEv 0]"]
      runs_Cons [OF lit(1) runs_Cons [OF wrap_run runs_Cons [OF lit(1) runs_Cons [OF wrap_run runs_Cons [OF lit(1) runs_Nil]]]], of 1 1]
    by (simp add: numeral_2_eq_2)
  show "run conn_info (ExprNode (block [let_conn, WhileStmt (here 23) [] (BoolLit (here 24) True) (Some (wrap (conn 1)))]))
       [ReviveEv 0, UseEv 0, MoveEv 0, UseEv 0, MoveEv 0]"
    using block_run [of conn_info "[let_conn, WhileStmt (here 23) [] (BoolLit (here 24) True) (Some (wrap (conn 1)))]"
        "[[ReviveEv 0], [UseEv 0, MoveEv 0, UseEv 0, MoveEv 0]]"] loop by simp
  have asg: "run conn_info (StmtNode (AssignStmt (here 25) AddAssign (Some (conn 2)) (NilLit (here 26)))) [UseEv 0, ReviveEv 0]"
    using run_assign [OF lit(2), of "conn 2" "here 25" AddAssign]
    by (simp add: use_events_def) (simp add: conn_def is_ident_def symbol_of_def conn_info_def here_def expr_hdr_def revive_events_def)
  show "run conn_info (ExprNode (block [let_conn, ExprStmt (here 23) (wrap (conn 1)), AssignStmt (here 25) AddAssign (Some (conn 2)) (NilLit (here 26))]))
       [ReviveEv 0, UseEv 0, MoveEv 0, UseEv 0, ReviveEv 0]"
    using block_run [of conn_info "[let_conn, ExprStmt (here 23) (wrap (conn 1)), AssignStmt (here 25) AddAssign (Some (conn 2)) (NilLit (here 26))]"
        "[[ReviveEv 0], [UseEv 0, MoveEv 0], [UseEv 0, ReviveEv 0]]"] asg by simp
  show "error_count (ownership_check conn_info (unit_of (block [let_conn, WhileStmt (here 23) [] (BoolLit (here 24) True) (Some (wrap (conn 1)))])) r) = error_count r"
    by (simp add: check_body own_eval)
  have revive: "own_stmt conn_info lin (AssignStmt (here 25) AddAssign (Some (conn 2)) (NilLit (here 26))) st = revive (Some 0) st" for lin st
    by (simp add: own_stmt.simps own_expr.simps conn_def is_ident_def symbol_of_def conn_info_def here_def expr_hdr_def)
  show "error_count (ownership_check conn_info (unit_of (block [let_conn, ExprStmt (here 23) (wrap (conn 1)), AssignStmt (here 25) AddAssign (Some (conn 2)) (NilLit (here 26))])) r) = error_count r"
    by (simp add: check_body own_eval revive revive_def)
  show "error_count (ownership_check conn_info (conn_unit skipped_move) r) = error_count r" by (rule skipped_move_silent)
  show "run conn_info (ExprNode skipped_move) [ReviveEv 0]" by (rule skipped_move_run)
qed (simp_all add: conn_unit_linear)

text \<open>The bindings of a table that are live: the ones the end of a function reports, if they are linear.\<close>

definition live_in :: "binding_map \<Rightarrow> sym_ref set" where
  "live_in m = {a. \<exists>i. (a, i) \<in> set m \<and> bi_state i = Live}"

lemma live_in_update: "bi_state i = Consumed \<Longrightarrow> live_in (AList.update a i m) \<subseteq> live_in m"
  by (induction m) (auto simp: live_in_def split: if_splits)

lemma live_in_merge: "live_in (merge_consumed dst br) \<subseteq> live_in dst"
proof (induction dst br rule: merge_consumed.induct)
  case (2 dst a info branch)
  then show ?case
    using live_in_update [of "\<lparr>bi_state = Consumed, bi_consume_site = bi_consume_site info\<rparr>" a dst] by (auto split: if_splits)
qed simp

lemma live_in_bodies:
  "live_in (fst (own_bodies si lin arms pre q)) \<subseteq> live_in (fst q)"
proof (induction arms arbitrary: q)
  case (Cons arm arms)
  obtain m ss st where q: "q = (m, ss, st)" by (cases q)
  obtain p g b d where arm: "arm = MatchArm p g b d" by (cases arm)
  show ?case
    using Cons.IH [of "one_body (own_expr si lin (the b)) pre q"] Cons.IH [of q] live_in_merge [of m]
    by (cases b) (auto simp: arm q one_body_def Let_def dest!: subsetD)
qed simp


end
