(* ===== verification/Capability.thy ===== *)
theory Capability
  imports Resolution
begin

text \<open>
  The capability checker, \<^verbatim>\<open>include/vestra/sema/capability.hpp\<close> and
  \<^verbatim>\<open>src/sema/capability.cpp\<close>. The stack of scopes is pushed at a function and at a \<^verbatim>\<open>with\<close>
  statement and popped at its end, so it is an argument here: a push is an argument with one
  more scope. A scope is the set of the names it adds.
\<close>

section \<open>Capabilities in scope\<close>

type_synonym cap_scopes = "string set list"

definition in_scope :: "string \<Rightarrow> cap_scopes \<Rightarrow> bool" where
  "in_scope cap scopes \<longleftrightarrow> (\<exists>s \<in> set scopes. cap \<in> s)"

definition async_cap :: string where
  "async_cap = ''Async''"

definition cap_name :: "tyx \<Rightarrow> string" where
  "cap_name t = (case t of NamedType h path targs assoc consts gen \<Rightarrow> (if path = [] then [] else hd path) | _ \<Rightarrow> [])"

text \<open>The names of a row; a type that names no capability is left out.\<close>

fun cap_names :: "tyx list \<Rightarrow> string list" where
  "cap_names [] = []"
| "cap_names (t # ts) = (if cap_name t \<noteq> [] then cap_name t # cap_names ts else cap_names ts)"

definition required_caps :: "decl \<Rightarrow> string list" where
  "required_caps d =
     (case d of
        FuncDecl h attrs vis is_async ct recv nm ns gens ps eff res body \<Rightarrow>
          cap_names (using_caps eff) @ (if is_async then [async_cap] else [])
      | _ \<Rightarrow> [])"

definition missing_diag :: "string \<Rightarrow> source_range \<Rightarrow> diagnostic" where
  "missing_diag cap site =
     diag_at site (diag_error (''missing capability '' @ quoted cap @ '' '' @ em_dash
       @ '' declare it in the function'' @ [chr_squote] @ ''s `using` row or open a `with '' @ cap @ '' = ...`''))"

definition missing_capability :: "string \<Rightarrow> source_range \<Rightarrow> reporter \<Rightarrow> reporter" where
  "missing_capability cap site r = report (missing_diag cap site) r"

text \<open>A list of gates: each is a capability and whether the construct asks for it.\<close>

fun run_gates :: "(string \<times> bool) list \<Rightarrow> source_range \<Rightarrow> cap_scopes \<Rightarrow> reporter \<Rightarrow> reporter" where
  "run_gates [] site scopes r = r"
| "run_gates ((cap, asked) # gs) site scopes r =
     run_gates gs site scopes (if asked \<and> \<not> in_scope cap scopes then missing_capability cap site r else r)"

section \<open>Gates of a call\<close>

definition is_ident_named :: "expr \<Rightarrow> string \<Rightarrow> bool" where
  "is_ident_named e x \<longleftrightarrow> (case e of IdentExpr h nm \<Rightarrow> nm = x | _ \<Rightarrow> False)"

definition is_numeric :: "type_kind \<Rightarrow> bool" where
  "is_numeric k \<longleftrightarrow> is_integer k \<or> is_float k"

definition base_kind_in :: "'v sema_info \<Rightarrow> expr \<Rightarrow> (type_kind \<Rightarrow> bool) \<Rightarrow> bool" where
  "base_kind_in si base p \<longleftrightarrow> (case type_of_expr (tables si) base of None \<Rightarrow> False | Some t \<Rightarrow> p (ty_kind t))"

definition member_gates :: "'v sema_info \<Rightarrow> expr \<Rightarrow> string \<Rightarrow> nat \<Rightarrow> (string \<times> bool) list" where
  "member_gates si base member nargs =
     [(''Alloc'', is_ident_named base ''Box'' \<and> member = ''new''),
      (''Alloc'', is_ident_named base ''PerCpu'' \<and> member = ''new''),
      (''Alloc'', is_ident_named base ''Vec'' \<and> member = ''new''),
      (''Alloc'', is_ident_named base ''String'' \<and> member = ''new''),
      (''Alloc'', is_ident_named base ''HashMap'' \<and> member = ''new''),
      (''Alloc'', is_ident_named base ''Soa'' \<and> member = ''new''),
      (''Alloc'', member = ''toString'' \<and> nargs = 0 \<and> base_kind_in si base is_numeric),
      (''Alloc'', member = ''split'' \<and> nargs = 1 \<and> base_kind_in si base (\<lambda>k. k = KString \<or> k = KStr \<or> k = KStrConst)),
      (''Alloc'', member = ''chars'' \<and> nargs = 0 \<and> base_kind_in si base (\<lambda>k. k = KString \<or> k = KStr \<or> k = KStrConst)),
      (''Alloc'', (member = ''keys'' \<or> member = ''values'' \<or> member = ''entries'') \<and> nargs = 0
         \<and> base_kind_in si base (\<lambda>k. k = KHashMap)),
      (''RawMemory'', member = ''slot'' \<and> nargs = 1 \<and> base_kind_in si base (\<lambda>k. k = KPerCpu)),
      (''Asm'', (member = ''read'' \<or> member = ''write'')
         \<and> base_kind_in si base (\<lambda>k. k = KSysregHandle \<or> k = KSysregHandleRO \<or> k = KSysregHandleWO)),
      (''RawMemory'', ((is_ident_named base ''Ptr'' \<or> is_ident_named base ''MutPtr'') \<and> member = ''unchecked'')
         \<or> ((is_ident_named base ''Span'' \<or> is_ident_named base ''MutSpan'') \<and> member = ''raw'')),
      (''Mmio'', (is_ident_named base ''MmioView'' \<or> is_ident_named base ''MmioRegion'' \<or> is_ident_named base ''MmioWireView'')
         \<and> member = ''at'')]"

definition raw_memory_builtins :: "string list" where
  "raw_memory_builtins =
     [''cleanData'', ''invalidateData'', ''cleanInvalidateData'', ''zeroData'', ''publishInstructions'',
      ''memcpy'', ''memset'', ''memmove'']"

text \<open>A symbol without a declaration is a builtin.\<close>

definition is_builtin_symbol :: "'v sema_info \<Rightarrow> expr \<Rightarrow> bool" where
  "is_builtin_symbol si callee \<longleftrightarrow>
     (case symbol_of (tables si) callee of None \<Rightarrow> False | Some a \<Rightarrow> sym_decl (symbol_at si a) = None)"

definition ident_gates :: "'v sema_info \<Rightarrow> expr \<Rightarrow> string \<Rightarrow> (string \<times> bool) list" where
  "ident_gates si callee nm =
     [(''RawMemory'', nm \<in> set raw_memory_builtins),
      (async_cap, nm = ''parallel'' \<and> symbol_of (tables si) callee = None),
      (''Log'', (nm = ''print'' \<or> nm = ''println'' \<or> nm = ''eprint'' \<or> nm = ''eprintln'') \<and> is_builtin_symbol si callee),
      (''Fs'', (nm = ''readFile'' \<or> nm = ''writeFile'') \<and> is_builtin_symbol si callee),
      (''Alloc'', nm = ''args'' \<and> is_builtin_symbol si callee)]"

definition call_gates :: "'v sema_info \<Rightarrow> expr \<Rightarrow> nat \<Rightarrow> (string \<times> bool) list" where
  "call_gates si callee nargs =
     (case callee of
        MemberExpr h base member sp chain \<Rightarrow> member_gates si base member nargs
      | IdentExpr h nm \<Rightarrow> ident_gates si callee nm
      | _ \<Rightarrow> [])"

text \<open>Calls that may not happen where interrupts are masked.\<close>

definition deadlock_diag :: "string \<Rightarrow> source_range \<Rightarrow> diagnostic" where
  "deadlock_diag nm site =
     diag_at site (diag_error (''`'' @ nm @ ''` inside `with InterruptsOff` is a deadlock '' @ em_dash
       @ '' the wake depends on the asynchronous exception the region masks ('' @ section_sign @ ''14.13 rule 5)''))"

definition check_deadlock :: "expr \<Rightarrow> source_range \<Rightarrow> cap_scopes \<Rightarrow> reporter \<Rightarrow> reporter" where
  "check_deadlock callee site scopes r =
     (case callee of
        IdentExpr h nm \<Rightarrow>
          (if in_scope ''InterruptsOff'' scopes \<and> (nm = ''waitForInterrupt'' \<or> nm = ''waitForEvent'')
           then report (deadlock_diag nm site) r else r)
      | _ \<Rightarrow> r)"

definition row_diag :: "string \<Rightarrow> source_range \<Rightarrow> diagnostic" where
  "row_diag cap site =
     diag_at site (diag_error (''call to a function with `using '' @ cap @ ''` inside `with InterruptsOff` (''
       @ section_sign @ ''14.13 rule 3)''))"

text \<open>The row of a callee that is known.\<close>

definition callee_row :: "'v sema_info \<Rightarrow> expr \<Rightarrow> string list" where
  "callee_row si callee =
     (case symbol_of (tables si) callee of
        None \<Rightarrow> []
      | Some a \<Rightarrow>
          (case sym_decl (symbol_at si a) of
             None \<Rightarrow> []
           | Some d \<Rightarrow> if is_func_decl d then required_caps d else []))"

fun check_row :: "string list \<Rightarrow> source_range \<Rightarrow> cap_scopes \<Rightarrow> reporter \<Rightarrow> reporter" where
  "check_row [] site scopes r = r"
| "check_row (cap # caps) site scopes r =
     (let r1 = (if \<not> in_scope cap scopes then missing_capability cap site r else r);
          r2 = (if in_scope ''InterruptsOff'' scopes \<and> (cap = ''Alloc'' \<or> cap = async_cap)
                then report (row_diag cap site) r1 else r1)
      in check_row caps site scopes r2)"

section \<open>Suspension\<close>

definition await_diag :: "source_range \<Rightarrow> diagnostic" where
  "await_diag site =
     diag_at site (diag_error (''`await` inside `with InterruptsOff` resolves through an ISR that is now masked (''
       @ section_sign @ ''14.13 rule 2)''))"

definition spawn_diag :: "source_range \<Rightarrow> diagnostic" where
  "spawn_diag site =
     diag_at site (diag_error (''`spawn` inside `with InterruptsOff` '' @ em_dash
       @ '' the spawned task can'' @ [chr_squote] @ ''t synchronise with the masked region ('' @ section_sign @ ''14.13 rule 4)''))"

text \<open>The end of \<^verbatim>\<open>await\<close> and \<^verbatim>\<open>spawn\<close>: both need the async runtime and no masked interrupts.\<close>

definition check_async :: "diagnostic \<Rightarrow> source_range \<Rightarrow> cap_scopes \<Rightarrow> reporter \<Rightarrow> reporter" where
  "check_async masked site scopes r =
     (let r1 = (if \<not> in_scope async_cap scopes then missing_capability async_cap site r else r)
      in if in_scope ''InterruptsOff'' scopes then report masked r1 else r1)"

definition is_receive :: "expr \<Rightarrow> bool" where
  "is_receive e \<longleftrightarrow>
     (case e of
        CallExpr h callee targs args \<Rightarrow> (case callee of MemberExpr h2 base member sp chain \<Rightarrow> member = ''receive'' | _ \<Rightarrow> False)
      | _ \<Rightarrow> False)"

definition any_channel :: "(pattern, expr) select_arm list \<Rightarrow> bool" where
  "any_channel arms \<longleftrightarrow> (\<exists>a \<in> set arms. case sel_event a of None \<Rightarrow> False | Some e \<Rightarrow> is_receive e)"

definition select_blocks :: "(pattern, expr) select_arm list \<Rightarrow> expr option \<Rightarrow> expr option \<Rightarrow> bool" where
  "select_blocks arms dflt timeout \<longleftrightarrow> dflt = None \<and> (any_channel arms \<or> timeout \<noteq> None)"

section \<open>The traversal\<close>

text \<open>The names a \<^verbatim>\<open>with\<close> statement brings into scope for its body.\<close>

definition with_caps :: "(tyx, expr) with_binding list \<Rightarrow> string set" where
  "with_caps bs = {cap_name t | t b. b \<in> set bs \<and> wb_cap_type b = Some t \<and> cap_name t \<noteq> []}"

function (sequential)
      cap_expr :: "'v sema_info \<Rightarrow> expr \<Rightarrow> cap_scopes \<Rightarrow> reporter \<Rightarrow> reporter"
  and cap_opt :: "'v sema_info \<Rightarrow> expr option \<Rightarrow> cap_scopes \<Rightarrow> reporter \<Rightarrow> reporter"
  and cap_exprs :: "'v sema_info \<Rightarrow> expr list \<Rightarrow> cap_scopes \<Rightarrow> reporter \<Rightarrow> reporter"
  and cap_args :: "'v sema_info \<Rightarrow> expr call_arg list \<Rightarrow> cap_scopes \<Rightarrow> reporter \<Rightarrow> reporter"
  and cap_arms :: "'v sema_info \<Rightarrow> (pattern, expr) match_arm list \<Rightarrow> cap_scopes \<Rightarrow> reporter \<Rightarrow> reporter"
  and cap_select :: "'v sema_info \<Rightarrow> (pattern, expr) select_arm list \<Rightarrow> cap_scopes \<Rightarrow> reporter \<Rightarrow> reporter"
  and cap_bindings :: "'v sema_info \<Rightarrow> (tyx, expr) with_binding list \<Rightarrow> cap_scopes \<Rightarrow> reporter \<Rightarrow> reporter"
  and cap_stmt :: "'v sema_info \<Rightarrow> stmt \<Rightarrow> cap_scopes \<Rightarrow> reporter \<Rightarrow> reporter"
  and cap_stmts :: "'v sema_info \<Rightarrow> stmt list \<Rightarrow> cap_scopes \<Rightarrow> reporter \<Rightarrow> reporter"
where
  "cap_expr si e =
     (case e of
        CallExpr h callee targs args \<Rightarrow>
          (\<lambda>sc r. check_row (callee_row si callee) (node_range h) sc
                   (cap_args si args sc (cap_expr si callee sc
                     (check_deadlock callee (node_range h) sc
                       (run_gates (call_gates si callee (length args)) (node_range h) sc r)))))
      | AwaitExpr h inner \<Rightarrow> (\<lambda>sc r. check_async (await_diag (node_range h)) (node_range h) sc (cap_expr si inner sc r))
      | SpawnExpr h inner \<Rightarrow> (\<lambda>sc r. check_async (spawn_diag (node_range h)) (node_range h) sc (cap_expr si inner sc r))
      | ParenExpr h inner \<Rightarrow> cap_expr si inner
      | UnaryExpr h op operand \<Rightarrow> cap_expr si operand
      | BinaryExpr h op a b \<Rightarrow> (\<lambda>sc r. cap_expr si b sc (cap_expr si a sc r))
      | MemberExpr h base member sp chain \<Rightarrow> cap_expr si base
      | IndexExpr h base indices targs \<Rightarrow> (\<lambda>sc r. cap_exprs si indices sc (cap_expr si base sc r))
      | IfExpr h nm let_init cond then_b else_b \<Rightarrow>
          (\<lambda>sc r. cap_opt si else_b sc (cap_opt si then_b sc
                   (if cond \<noteq> None then cap_opt si cond sc r else cap_opt si let_init sc r)))
      | MatchExpr h scrutinee arms \<Rightarrow> (\<lambda>sc r. cap_arms si arms sc (cap_expr si scrutinee sc r))
      | SelectExpr h arms dflt delay timeout \<Rightarrow>
          (\<lambda>sc r. run_gates [(async_cap, select_blocks arms dflt timeout)] (node_range h) sc
                   (cap_opt si timeout sc (cap_opt si delay sc (cap_opt si dflt sc (cap_select si arms sc r)))))
      | BlockExpr h stmts \<Rightarrow> cap_stmts si stmts
      | CopyExpr h inner \<Rightarrow> cap_expr si inner
      | ThrowExpr h inner \<Rightarrow> cap_expr si inner
      | TryExpr h form inner \<Rightarrow> cap_expr si inner
      | DoCatchExpr h do_body nm err guard catch_body \<Rightarrow>
          (\<lambda>sc r. cap_expr si catch_body sc (cap_expr si do_body sc r))
      | AsExpr h v target opt \<Rightarrow> cap_expr si v
      | VectorLitExpr h elements \<Rightarrow> cap_exprs si elements
      | _ \<Rightarrow> (\<lambda>sc r. r))"
| "cap_opt si None = (\<lambda>sc r. r)"
| "cap_opt si (Some e) = cap_expr si e"
| "cap_exprs si [] = (\<lambda>sc r. r)"
| "cap_exprs si (e # es) = (\<lambda>sc r. cap_exprs si es sc (cap_expr si e sc r))"
| "cap_args si [] = (\<lambda>sc r. r)"
| "cap_args si (Arg l io e # as) = (\<lambda>sc r. cap_args si as sc (cap_expr si e sc r))"
| "cap_arms si [] = (\<lambda>sc r. r)"
| "cap_arms si (MatchArm p g b d # arms) = (\<lambda>sc r. cap_arms si arms sc (cap_opt si b sc (cap_opt si g sc r)))"
| "cap_select si [] = (\<lambda>sc r. r)"
| "cap_select si (SelectArm p e b # arms) = (\<lambda>sc r. cap_select si arms sc (cap_opt si b sc (cap_opt si e sc r)))"
| "cap_bindings si [] = (\<lambda>sc r. r)"
| "cap_bindings si (WithBinding nm ct ta v # bs) = (\<lambda>sc r. cap_bindings si bs sc (cap_opt si v sc r))"
| "cap_stmt si s =
     (case s of
        LetStmt h pat t v \<Rightarrow> cap_opt si v
      | VarStmt h pat t v \<Rightarrow> cap_opt si v
      | ExprStmt h e \<Rightarrow> cap_expr si e
      | ReturnStmt h v \<Rightarrow> cap_opt si v
      | AssignStmt h op target v \<Rightarrow> (\<lambda>sc r. cap_expr si v sc (cap_opt si target sc r))
      | WhileStmt h l cond body \<Rightarrow> (\<lambda>sc r. cap_opt si body sc (cap_expr si cond sc r))
      | ForStmt h l pat iter body \<Rightarrow> (\<lambda>sc r. cap_opt si body sc (cap_expr si iter sc r))
      | WithStmt h bindings body \<Rightarrow>
          (\<lambda>sc r. cap_opt si body (sc @ [with_caps bindings]) (cap_bindings si bindings sc r))
      | _ \<Rightarrow> (\<lambda>sc r. r))"
| "cap_stmts si [] = (\<lambda>sc r. r)"
| "cap_stmts si (s # ss) = (\<lambda>sc r. cap_stmts si ss sc (cap_stmt si s sc r))"
  by pat_completeness auto
termination
  by (relation "measure (case_sum
       (case_sum (case_sum (\<lambda>(_, e). size e) (\<lambda>(_, x). size_option size x))
                 (case_sum (\<lambda>(_, es). size_list size es) (\<lambda>(_, as). size_list (size_call_arg size) as)))
       (case_sum (case_sum (\<lambda>(_, arms). size_list (size_match_arm size size) arms)
                           (\<lambda>(_, arms). size_list (size_select_arm size size) arms))
                 (case_sum (\<lambda>(_, bs). size_list (size_with_binding size size) bs)
                    (case_sum (\<lambda>(_, s). size s) (\<lambda>(_, ss). size_list size ss)))))") auto

declare cap_expr.simps [simp del] cap_stmt.simps [simp del]

section \<open>Functions and the unit\<close>

definition cap_func :: "'v sema_info \<Rightarrow> decl \<Rightarrow> expr option \<Rightarrow> cap_scopes \<Rightarrow> reporter \<Rightarrow> reporter" where
  "cap_func si d body sc r =
     (case body of None \<Rightarrow> r | Some b \<Rightarrow> cap_expr si b (sc @ [set (required_caps d)]) r)"

function (sequential)
      cap_decl :: "'v sema_info \<Rightarrow> decl \<Rightarrow> cap_scopes \<Rightarrow> reporter \<Rightarrow> reporter"
  and cap_decls :: "'v sema_info \<Rightarrow> decl list \<Rightarrow> cap_scopes \<Rightarrow> reporter \<Rightarrow> reporter"
where
  "cap_decl si d =
     (case d of
        FuncDecl h attrs vis is_async ct recv nm ns gens ps eff res body \<Rightarrow> cap_func si d body
      | StructDecl h attrs vis lin nm gens fs methods deinit \<Rightarrow> cap_decls si methods
      | EnumDecl h attrs vis nm gens cases methods \<Rightarrow> cap_decls si methods
      | ExtensionDecl h attrs vis target confs members \<Rightarrow> cap_decls si members
      | _ \<Rightarrow> (\<lambda>sc r. r))"
| "cap_decls si [] = (\<lambda>sc r. r)"
| "cap_decls si (d # ds) = (\<lambda>sc r. cap_decls si ds sc (cap_decl si d sc r))"
  by pat_completeness auto
termination
  by (relation "measure (case_sum (\<lambda>(_, d). size d) (\<lambda>(_, ds). size_list size ds))") auto

declare cap_decl.simps [simp del]

definition capability_check :: "'v sema_info \<Rightarrow> compilation_unit \<Rightarrow> reporter \<Rightarrow> reporter" where
  "capability_check si u r = cap_decls si (unit_decls u) [] r"

end
