(* ===== verification/Capability_Props.thy ===== *)
theory Capability_Props
  imports Capability Verdicts
begin

text \<open>
  What the capability checker guarantees. \<open>runs_under C n D m\<close> says that the node \<open>m\<close> inside \<open>n\<close>
  runs with the capabilities \<open>D\<close> when \<open>n\<close> runs with \<open>C\<close>: only the body of a \<^verbatim>\<open>with\<close> has more. On
  the constructs it walks the pass is silent exactly when every construct has the capabilities
  it needs and none that it may not have. So a capability that is needed anywhere down a chain
  of calls is in the row of the first function.
\<close>

section \<open>The capabilities a node runs with\<close>

definition parts :: "node \<Rightarrow> (string set \<times> node) list" where
  "parts n =
     (case n of
        StmtNode (WithStmt h bs b) \<Rightarrow>
          map (Pair {}) (concat (map (\<lambda>x. opt_node (wb_value x)) bs)) @ map (Pair (with_caps bs)) (opt_node b)
      | _ \<Rightarrow> map (Pair {}) (direct n))"

lemma parts_simps [simp]:
  "parts (ExprNode e) = map (Pair {}) (direct_expr e)"
  "parts (StmtNode (WithStmt h bs b)) =
     map (Pair {}) (concat (map (\<lambda>x. opt_node (wb_value x)) bs)) @ map (Pair (with_caps bs)) (opt_node b)"
  by (simp_all add: parts_def)

lemma parts_other: "\<nexists>h bs b. s = WithStmt h bs b \<Longrightarrow> parts (StmtNode s) = map (Pair {}) (direct_stmt s)"
  by (cases s) (simp_all add: parts_def)

lemma parts_direct: "map snd (parts n) = direct n"
  by (cases n; (rename_tac x, case_tac x)?) (simp_all add: parts_def comp_def)

inductive runs_under :: "string set \<Rightarrow> node \<Rightarrow> string set \<Rightarrow> node \<Rightarrow> bool" where
  self: "runs_under C n C n"
| part: "(A, d) \<in> set (parts n) \<Longrightarrow> runs_under (C \<union> A) d D m \<Longrightarrow> runs_under C n D m"

definition all_under :: "(string set \<Rightarrow> node \<Rightarrow> bool) \<Rightarrow> string set \<Rightarrow> node list \<Rightarrow> bool" where
  "all_under P C ns \<longleftrightarrow> (\<forall>n \<in> set ns. \<forall>D m. runs_under C n D m \<longrightarrow> P D m)"

lemma runs_under_unfold: "runs_under C n D m \<longleftrightarrow> (D = C \<and> m = n) \<or> (\<exists>(A, d) \<in> set (parts n). runs_under (C \<union> A) d D m)"
  by (subst runs_under.simps) auto

lemma all_under_Nil [simp]: "all_under P C []"
  by (simp add: all_under_def)

lemma all_under_append [simp]: "all_under P C (ns @ ms) \<longleftrightarrow> all_under P C ns \<and> all_under P C ms"
  by (auto simp: all_under_def)

lemma all_under_concat [simp]: "all_under P C (concat nss) \<longleftrightarrow> (\<forall>ns \<in> set nss. all_under P C ns)"
  by (auto simp: all_under_def)

lemma all_under_node: "all_under P C [n] \<longleftrightarrow> P C n \<and> (\<forall>(A, d) \<in> set (parts n). all_under P (C \<union> A) [d])"
proof -
  have "all_under P C [n] \<longleftrightarrow> (\<forall>D m. (D = C \<and> m = n) \<or> (\<exists>(A, d) \<in> set (parts n). runs_under (C \<union> A) d D m) \<longrightarrow> P D m)"
    unfolding all_under_def by (subst runs_under_unfold) simp
  then show ?thesis unfolding all_under_def by (auto intro: runs_under.part)
qed

lemma all_under_Cons: "all_under P C (n # ns) \<longleftrightarrow> all_under P C [n] \<and> all_under P C ns"
  by (auto simp: all_under_def)

lemma all_under_list: "all_under P C ns \<longleftrightarrow> (\<forall>n \<in> set ns. all_under P C [n])"
  by (auto simp: all_under_def)

lemma all_under_plain:
  "parts n = map (Pair {}) (direct n) \<Longrightarrow> all_under P C [n] \<longleftrightarrow> P C n \<and> all_under P C (direct n)"
  by (subst all_under_node, subst (2) all_under_list) auto

lemma all_under_expr: "all_under P C [ExprNode e] \<longleftrightarrow> P C (ExprNode e) \<and> all_under P C (direct_expr e)"
  using all_under_plain [of "ExprNode e" P C] by simp

lemma all_under_with:
  "all_under P C [StmtNode (WithStmt h bs b)] \<longleftrightarrow> P C (StmtNode (WithStmt h bs b))
     \<and> all_under P C (concat (map (\<lambda>x. opt_node (wb_value x)) bs)) \<and> all_under P (C \<union> with_caps bs) (opt_node b)"
proof -
  have "(\<forall>(A, d) \<in> set (map (Pair {}) vs @ map (Pair B) ws). all_under P (C \<union> A) [d])
      \<longleftrightarrow> (\<forall>d \<in> set vs. all_under P C [d]) \<and> (\<forall>d \<in> set ws. all_under P (C \<union> B) [d])" for vs B ws
    by (simp add: ball_Un)
  then show ?thesis
    unfolding all_under_node [of P C "StmtNode (WithStmt h bs b)"] parts_simps
    by (simp only: all_under_list [symmetric])
qed

section \<open>What a construct needs\<close>

definition masked :: "string set \<Rightarrow> bool" where
  "masked C \<longleftrightarrow> ''InterruptsOff'' \<in> C"

definition call_lawful :: "'v sema_info \<Rightarrow> string set \<Rightarrow> expr \<Rightarrow> nat \<Rightarrow> bool" where
  "call_lawful si C callee nargs \<longleftrightarrow>
     (\<forall>(cap, asked) \<in> set (call_gates si callee nargs). asked \<longrightarrow> cap \<in> C)
     \<and> set (callee_row si callee) \<subseteq> C
     \<and> (masked C \<longrightarrow> \<not> is_ident_named callee ''waitForInterrupt'' \<and> \<not> is_ident_named callee ''waitForEvent''
          \<and> ''Alloc'' \<notin> set (callee_row si callee) \<and> async_cap \<notin> set (callee_row si callee))"

definition cap_lawful :: "'v sema_info \<Rightarrow> string set \<Rightarrow> node \<Rightarrow> bool" where
  "cap_lawful si C n \<longleftrightarrow>
     (case n of
        ExprNode e \<Rightarrow>
          (case e of
             CallExpr h callee ts args \<Rightarrow> call_lawful si C callee (length args)
           | AwaitExpr h a \<Rightarrow> async_cap \<in> C \<and> \<not> masked C
           | SpawnExpr h a \<Rightarrow> async_cap \<in> C \<and> \<not> masked C
           | SelectExpr h arms d td tb \<Rightarrow> select_blocks arms d tb \<longrightarrow> async_cap \<in> C
           | _ \<Rightarrow> True)
      | StmtNode s \<Rightarrow> True)"

text \<open>The constructs all of whose parts the checker walks.\<close>

definition cap_handles :: "node \<Rightarrow> bool" where
  "cap_handles n \<longleftrightarrow>
     (case n of
        ExprNode e \<Rightarrow>
          (case e of
             ClosureExpr _ _ _ \<Rightarrow> direct_expr e = []
           | ComptimeExpr _ _ \<Rightarrow> False
           | InterpStringExpr _ _ \<Rightarrow> direct_expr e = []
           | MacroCallExpr _ _ _ _ \<Rightarrow> direct_expr e = []
           | AddressOfExpr _ _ \<Rightarrow> False
           | DoCatchExpr _ _ _ _ g _ \<Rightarrow> g = None
           | TupleLitExpr _ _ \<Rightarrow> direct_expr e = []
           | _ \<Rightarrow> True)
      | StmtNode s \<Rightarrow> True)"

section \<open>Verdicts of the parts\<close>

definition caps_of :: "cap_scopes \<Rightarrow> string set" where
  "caps_of sc = \<Union> (set sc)"

lemma in_scope_caps [simp]: "in_scope cap sc \<longleftrightarrow> cap \<in> caps_of sc"
  by (auto simp: in_scope_def caps_of_def)

lemma caps_of_push [simp]: "caps_of (sc @ [s]) = caps_of sc \<union> s"
  by (auto simp: caps_of_def)

lemma cap_diags [simp]:
  "diag_severity (missing_diag cap site) = Error" "diag_severity (deadlock_diag nm site) = Error"
  "diag_severity (row_diag cap site) = Error" "diag_severity (await_diag site) = Error" "diag_severity (spawn_diag site) = Error"
  by (simp_all add: missing_diag_def deadlock_diag_def row_diag_def await_diag_def spawn_diag_def diag_at_def diag_error_def)

lemma missing_verdict: "verdict (\<not> (asked \<and> cap \<notin> C)) (\<lambda>r. if asked \<and> cap \<notin> C then missing_capability cap site r else r)"
  unfolding missing_capability_def by (rule verdict_report) simp

lemma gates_verdict: "verdict (\<forall>(cap, asked) \<in> set gs. asked \<longrightarrow> cap \<in> caps_of sc) (run_gates gs site sc)"
proof (induction gs)
  case (Cons g gs)
  obtain cap asked where g: "g = (cap, asked)" by fastforce
  from verdict_comp [OF missing_verdict Cons.IH, of asked cap "caps_of sc" site]
  show ?case by (rule verdict_eq) (auto simp: g fun_eq_iff)
qed (simp add: verdict_def)

lemma deadlock_verdict:
  "verdict (\<not> (masked (caps_of sc) \<and> (is_ident_named callee ''waitForInterrupt'' \<or> is_ident_named callee ''waitForEvent'')))
     (check_deadlock callee site sc)"
  by (cases callee) (auto simp: check_deadlock_def is_ident_named_def masked_def verdict_def report_def)

lemma row_verdict:
  "verdict (set caps \<subseteq> caps_of sc \<and> \<not> (masked (caps_of sc) \<and> (''Alloc'' \<in> set caps \<or> async_cap \<in> set caps)))
     (check_row caps site sc)"
proof (induction caps)
  case (Cons cap caps)
  define P where "P \<longleftrightarrow> masked (caps_of sc) \<and> (cap = ''Alloc'' \<or> cap = async_cap)"
  have "verdict (\<not> P) (\<lambda>r. if P then report (row_diag cap site) r else r)"
    by (rule verdict_report) simp
  from verdict_comp [OF verdict_comp [OF missing_verdict [of True cap "caps_of sc" site] this] Cons.IH]
  show ?case by (rule verdict_eq) (auto simp: P_def masked_def Let_def fun_eq_iff)
qed (simp add: verdict_def)

lemma check_async_verdict:
  assumes "diag_severity d = Error"
  shows "verdict (async_cap \<in> caps_of sc \<and> \<not> masked (caps_of sc)) (check_async d site sc)"
proof -
  have "verdict (\<not> masked (caps_of sc)) (\<lambda>r. if masked (caps_of sc) then report d r else r)"
    by (rule verdict_report [OF assms])
  from verdict_comp [OF missing_verdict [of True async_cap "caps_of sc" site] this]
  show ?thesis by (rule verdict_eq) (auto simp: check_async_def masked_def Let_def fun_eq_iff)
qed

section \<open>Exactness\<close>

definition cap_node :: "'v sema_info \<Rightarrow> node \<Rightarrow> cap_scopes \<Rightarrow> reporter \<Rightarrow> reporter" where
  "cap_node si n = (case n of ExprNode e \<Rightarrow> cap_expr si e | StmtNode s \<Rightarrow> cap_stmt si s)"

lemma cap_node_simps [simp]:
  "cap_node si (ExprNode e) = cap_expr si e"
  "cap_node si (StmtNode s) = cap_stmt si s"
  by (simp_all add: cap_node_def)

text \<open>On covered nodes a pass delivers the verdict of the law, whatever is in scope.\<close>

definition cap_exact :: "'v sema_info \<Rightarrow> node list \<Rightarrow> (cap_scopes \<Rightarrow> reporter \<Rightarrow> reporter) \<Rightarrow> bool" where
  "cap_exact si ns f \<longleftrightarrow>
     (everywhere cap_handles ns \<longrightarrow> (\<forall>sc. verdict (all_under (cap_lawful si) (caps_of sc) ns) (f sc)))"

lemma cap_exact_Nil [simp]: "cap_exact si [] (\<lambda>sc r. r)"
  by (simp add: cap_exact_def)

lemma cap_exact_append: "cap_exact si ns f \<Longrightarrow> cap_exact si ms g \<Longrightarrow> cap_exact si (ns @ ms) (\<lambda>sc r. g sc (f sc r))"
  unfolding cap_exact_def by (auto intro: verdict_comp)

lemma cap_exact_Cons: "cap_exact si [n] f \<Longrightarrow> cap_exact si ns g \<Longrightarrow> cap_exact si (n # ns) (\<lambda>sc r. g sc (f sc r))"
  using cap_exact_append [of si "[n]" f ns g] by simp

lemma cap_exact_opt: "(\<And>d. d \<in> set (opt_node x) \<Longrightarrow> cap_exact si [d] (cap_node si d)) \<Longrightarrow> cap_exact si (opt_node x) (cap_opt si x)"
  by (cases x) auto

lemma cap_exact_exprs:
  "(\<And>e. e \<in> set es \<Longrightarrow> cap_exact si [ExprNode e] (cap_expr si e)) \<Longrightarrow> cap_exact si (map ExprNode es) (cap_exprs si es)"
proof (induction es)
  case (Cons e es)
  from cap_exact_Cons [OF Cons.prems Cons.IH] show ?case using Cons.prems by simp
qed simp

lemma cap_exact_stmts:
  "(\<And>e. e \<in> set es \<Longrightarrow> cap_exact si [StmtNode e] (cap_stmt si e)) \<Longrightarrow> cap_exact si (map StmtNode es) (cap_stmts si es)"
proof (induction es)
  case (Cons e es)
  from cap_exact_Cons [OF Cons.prems Cons.IH] show ?case using Cons.prems by simp
qed simp

lemma cap_exact_args:
  "(\<And>a. a \<in> set as \<Longrightarrow> cap_exact si [ExprNode (arg_value a)] (cap_expr si (arg_value a))) \<Longrightarrow>
     cap_exact si (map (\<lambda>a. ExprNode (arg_value a)) as) (cap_args si as)"
proof (induction as)
  case (Cons a as)
  from cap_exact_Cons [OF Cons.prems [of a] Cons.IH] Cons.prems show ?case by (cases a) simp
qed simp

lemma cap_exact_arms:
  "(\<And>d. d \<in> set (concat (map arm_nodes arms)) \<Longrightarrow> cap_exact si [d] (cap_node si d)) \<Longrightarrow>
     cap_exact si (concat (map arm_nodes arms)) (cap_arms si arms)"
proof (induction arms)
  case (Cons a arms)
  obtain p g b d where a: "a = MatchArm p g b d" by (cases a)
  have "cap_exact si (opt_node g) (cap_opt si g)" "cap_exact si (opt_node b) (cap_opt si b)"
    using Cons.prems by (auto intro!: cap_exact_opt simp: a arm_nodes_def)
  from cap_exact_append [OF cap_exact_append [OF this] Cons.IH] Cons.prems
  show ?case by (simp add: a arm_nodes_def)
qed simp

lemma cap_exact_select:
  "(\<And>d. d \<in> set (concat (map select_nodes arms)) \<Longrightarrow> cap_exact si [d] (cap_node si d)) \<Longrightarrow>
     cap_exact si (concat (map select_nodes arms)) (cap_select si arms)"
proof (induction arms)
  case (Cons a arms)
  obtain p e b where a: "a = SelectArm p e b" by (cases a)
  have "cap_exact si (opt_node e) (cap_opt si e)" "cap_exact si (opt_node b) (cap_opt si b)"
    using Cons.prems by (auto intro!: cap_exact_opt simp: a select_nodes_def)
  from cap_exact_append [OF cap_exact_append [OF this] Cons.IH] Cons.prems
  show ?case by (simp add: a select_nodes_def)
qed simp

lemma cap_exact_bindings:
  "(\<And>d. d \<in> set (concat (map (\<lambda>x. opt_node (wb_value x)) bs)) \<Longrightarrow> cap_exact si [d] (cap_node si d)) \<Longrightarrow>
     cap_exact si (concat (map (\<lambda>x. opt_node (wb_value x)) bs)) (cap_bindings si bs)"
proof (induction bs)
  case (Cons a bs)
  obtain nm ct ta v where a: "a = WithBinding nm ct ta v" by (cases a)
  have "cap_exact si (opt_node v) (cap_opt si v)"
    using Cons.prems by (auto intro!: cap_exact_opt simp: a)
  from cap_exact_append [OF this Cons.IH] Cons.prems
  show ?case by (simp add: a)
qed simp

text \<open>A node whose own law is checked after, before or around its parts.\<close>

lemma cap_exact_node:
  assumes "cap_exact si (direct (ExprNode e)) f"
    and "\<And>sc. verdict (cap_lawful si (caps_of sc) (ExprNode e)) (before sc)"
    and "\<not> cap_handles (ExprNode e) \<or> (\<forall>sc r. cap_expr si e sc r = f sc (before sc r))"
  shows "cap_exact si [ExprNode e] (cap_expr si e)"
  unfolding cap_exact_def
proof (intro impI allI)
  fix sc
  assume h: "everywhere cap_handles [ExprNode e]"
  then have "verdict (all_under (cap_lawful si) (caps_of sc) (direct_expr e)) (f sc)"
    using assms(1) by (simp add: cap_exact_def)
  from verdict_comp [OF assms(2) [of sc] this] show "verdict (all_under (cap_lawful si) (caps_of sc) [ExprNode e]) (cap_expr si e sc)"
    by (rule verdict_eq) (use h assms(3) in \<open>auto simp: all_under_expr fun_eq_iff\<close>)
qed

lemma cap_exact_node_after:
  assumes "cap_exact si (direct (ExprNode e)) f"
    and "\<And>sc. verdict (cap_lawful si (caps_of sc) (ExprNode e)) (after sc)"
    and "\<And>sc r. cap_expr si e sc r = after sc (f sc r)"
  shows "cap_exact si [ExprNode e] (cap_expr si e)"
  unfolding cap_exact_def
proof (intro impI allI)
  fix sc
  assume h: "everywhere cap_handles [ExprNode e]"
  then have "verdict (all_under (cap_lawful si) (caps_of sc) (direct_expr e)) (f sc)"
    using assms(1) by (simp add: cap_exact_def)
  from verdict_comp [OF this assms(2) [of sc]] show "verdict (all_under (cap_lawful si) (caps_of sc) [ExprNode e]) (cap_expr si e sc)"
    by (rule verdict_eq) (auto simp: all_under_expr fun_eq_iff assms(3))
qed

lemma cap_exact_plain:
  assumes "cap_exact si (direct (ExprNode e)) f" "\<And>C. cap_lawful si C (ExprNode e)"
    and "\<not> cap_handles (ExprNode e) \<or> cap_expr si e = f"
  shows "cap_exact si [ExprNode e] (cap_expr si e)"
  by (rule cap_exact_node [OF assms(1), of "\<lambda>sc r. r"]) (use assms(2,3) in auto)

lemma cap_exact_stmt:
  assumes "cap_exact si (direct (StmtNode s)) f" "parts (StmtNode s) = map (Pair {}) (direct_stmt s)" "cap_stmt si s = f"
  shows "cap_exact si [StmtNode s] (cap_stmt si s)"
  using assms all_under_plain [of "StmtNode s"] by (simp add: cap_exact_def cap_lawful_def)

lemma cap_exact_call:
  assumes "cap_exact si (ExprNode callee # map (\<lambda>a. ExprNode (arg_value a)) args) f"
  shows "cap_exact si [ExprNode (CallExpr h callee ts args)] (\<lambda>sc r. check_row (callee_row si callee) (node_range h) sc
     (f sc (check_deadlock callee (node_range h) sc (run_gates (call_gates si callee (length args)) (node_range h) sc r))))"
  unfolding cap_exact_def
proof (intro impI allI)
  fix sc
  assume "everywhere cap_handles [ExprNode (CallExpr h callee ts args)]"
  then have p: "verdict (all_under (cap_lawful si) (caps_of sc) (direct_expr (CallExpr h callee ts args))) (f sc)"
    using assms by (simp add: cap_exact_def)
  from verdict_comp [OF verdict_comp [OF verdict_comp [OF gates_verdict deadlock_verdict] p] row_verdict]
  show "verdict (all_under (cap_lawful si) (caps_of sc) [ExprNode (CallExpr h callee ts args)])
     (\<lambda>r. check_row (callee_row si callee) (node_range h) sc (f sc (check_deadlock callee (node_range h) sc
        (run_gates (call_gates si callee (length args)) (node_range h) sc r))))"
    by (rule verdict_cong) (auto simp: all_under_expr cap_lawful_def call_lawful_def)
qed

lemma cap_expr_exact: "cap_exact si [n] (cap_node si n)"
proof (induction n rule: node_induct)
  case (node n)
  note IH = node
  have E: "cap_exact si [ExprNode e] (cap_expr si e)" if "ExprNode e \<in> set (direct n)" for e
    using IH [OF that] by simp
  have S: "cap_exact si [StmtNode s] (cap_stmt si s)" if "StmtNode s \<in> set (direct n)" for s
    using IH [OF that] by simp
  have O: "cap_exact si (opt_node x) (cap_opt si x)" if "set (opt_node x) \<subseteq> set (direct n)" for x
    using IH that by (intro cap_exact_opt) auto
  show ?case
  proof (cases n)
    case (ExprNode e)
    have sub: "cap_exact si [ExprNode e] (cap_expr si e)" if "direct_expr e = [ExprNode x]" "\<And>C. cap_lawful si C (ExprNode e)"
      "cap_expr si e = cap_expr si x" for x
      using that E [of x] by (intro cap_exact_plain [of si e "cap_expr si x"]) (simp_all add: ExprNode)
    have "cap_exact si [ExprNode e] (cap_expr si e)"
    proof (cases e)
      case (CallExpr h c ts as)
      have "cap_exact si [ExprNode c] (cap_expr si c)" "cap_exact si (map (\<lambda>a. ExprNode (arg_value a)) as) (cap_args si as)"
        using E by (auto simp: ExprNode CallExpr intro!: cap_exact_args)
      from cap_exact_call [OF cap_exact_Cons [OF this]] show ?thesis
        by (simp add: CallExpr cap_expr.simps)
    next
      case (AwaitExpr h a)
      have "cap_exact si (direct (ExprNode e)) (cap_expr si a)" using E by (simp add: ExprNode AwaitExpr)
      then show ?thesis
        by (rule cap_exact_node_after [where after = "check_async (await_diag (node_range h)) (node_range h)"])
           (simp_all add: AwaitExpr cap_lawful_def cap_expr.simps check_async_verdict)
    next
      case (SpawnExpr h a)
      have "cap_exact si (direct (ExprNode e)) (cap_expr si a)" using E by (simp add: ExprNode SpawnExpr)
      then show ?thesis
        by (rule cap_exact_node_after [where after = "check_async (spawn_diag (node_range h)) (node_range h)"])
           (simp_all add: SpawnExpr cap_lawful_def cap_expr.simps check_async_verdict)
    next
      case (SelectExpr h arms d td tb)
      have "cap_exact si (concat (map select_nodes arms)) (cap_select si arms)"
        using IH by (intro cap_exact_select) (auto simp: ExprNode SelectExpr)
      moreover have "cap_exact si (opt_node d) (cap_opt si d)" "cap_exact si (opt_node td) (cap_opt si td)" "cap_exact si (opt_node tb) (cap_opt si tb)"
        by (rule O; auto simp: ExprNode SelectExpr)+
      ultimately have p: "cap_exact si (direct (ExprNode e)) (\<lambda>sc r. cap_opt si tb sc (cap_opt si td sc (cap_opt si d sc (cap_select si arms sc r))))"
        using cap_exact_append [OF cap_exact_append [OF cap_exact_append]] by (simp add: SelectExpr)
      show ?thesis
      proof (rule cap_exact_node_after [OF p])
        show "verdict (cap_lawful si (caps_of sc) (ExprNode e)) (run_gates [(async_cap, select_blocks arms d tb)] (node_range h) sc)" for sc
          using gates_verdict [of "[(async_cap, select_blocks arms d tb)]"] by (simp add: SelectExpr cap_lawful_def)
      qed (simp add: SelectExpr cap_expr.simps)
    next
      case (IfExpr h nm li c t f)
      define x where "x = (if c \<noteq> None then c else li)"
      have "cap_exact si (direct (ExprNode e)) (\<lambda>sc r. cap_opt si f sc (cap_opt si t sc (cap_opt si x sc r)))"
      proof -
        have "cap_exact si (opt_node x) (cap_opt si x)" "cap_exact si (opt_node t) (cap_opt si t)" "cap_exact si (opt_node f) (cap_opt si f)"
          by (rule O; auto simp: ExprNode IfExpr x_def)+
        from cap_exact_append [OF cap_exact_append [OF this(1,2)] this(3)] show ?thesis by (auto simp: IfExpr x_def)
      qed
      then show ?thesis
        by (rule cap_exact_plain) (auto simp: IfExpr cap_lawful_def cap_expr.simps x_def fun_eq_iff)
    next
      case (MatchExpr h s arms)
      have "cap_exact si (direct (ExprNode e)) (\<lambda>sc r. cap_arms si arms sc (cap_expr si s sc r))"
        using cap_exact_Cons [OF E cap_exact_arms, of s arms] IH by (simp add: ExprNode MatchExpr)
      then show ?thesis by (rule cap_exact_plain) (simp_all add: MatchExpr cap_lawful_def cap_expr.simps)
    next
      case (BinaryExpr h op a b)
      have "cap_exact si (direct (ExprNode e)) (\<lambda>sc r. cap_expr si b sc (cap_expr si a sc r))"
        using cap_exact_Cons [OF E E, of a b] by (simp add: ExprNode BinaryExpr)
      then show ?thesis by (rule cap_exact_plain) (simp_all add: BinaryExpr cap_lawful_def cap_expr.simps)
    next
      case (IndexExpr h b ixs t)
      have "cap_exact si (direct (ExprNode e)) (\<lambda>sc r. cap_exprs si ixs sc (cap_expr si b sc r))"
        using cap_exact_Cons [OF E cap_exact_exprs, of b ixs] E by (simp add: ExprNode IndexExpr)
      then show ?thesis by (rule cap_exact_plain) (simp_all add: IndexExpr cap_lawful_def cap_expr.simps)
    next
      case (DoCatchExpr h b nm t g c)
      show ?thesis
      proof (cases g)
        case None
        have "cap_exact si (direct (ExprNode e)) (\<lambda>sc r. cap_expr si c sc (cap_expr si b sc r))"
          using cap_exact_Cons [OF E E, of b c] by (simp add: ExprNode DoCatchExpr None)
        then show ?thesis by (rule cap_exact_plain) (simp_all add: DoCatchExpr cap_lawful_def cap_expr.simps)
      next
        case (Some x)
        then show ?thesis by (simp add: DoCatchExpr cap_exact_def cap_handles_def)
      qed
    next
      case (BlockExpr h ss)
      have "cap_exact si (direct (ExprNode e)) (cap_stmts si ss)"
        using S by (auto simp: ExprNode BlockExpr intro!: cap_exact_stmts)
      then show ?thesis by (rule cap_exact_plain) (simp_all add: BlockExpr cap_lawful_def cap_expr.simps)
    next
      case (VectorLitExpr h es)
      have "cap_exact si (direct (ExprNode e)) (cap_exprs si es)"
        using E by (auto simp: ExprNode VectorLitExpr intro!: cap_exact_exprs)
      then show ?thesis by (rule cap_exact_plain) (simp_all add: VectorLitExpr cap_lawful_def cap_expr.simps)
    qed (use sub in \<open>auto simp: cap_handles_def cap_lawful_def cap_expr.simps cap_exact_def all_under_expr\<close>)
    then show ?thesis by (simp add: ExprNode)
  next
    case (StmtNode s)
    have plain: "cap_exact si [StmtNode s] (cap_stmt si s)" if "cap_exact si (direct_stmt s) f" "\<nexists>h bs b. s = WithStmt h bs b"
      "cap_stmt si s = f" for f
      by (rule cap_exact_stmt [of si s f]) (use that parts_other [of s] in simp_all)
    have "cap_exact si [StmtNode s] (cap_stmt si s)"
    proof (cases s)
      case (AssignStmt h op t v)
      show ?thesis
        by (rule plain [of "\<lambda>sc r. cap_expr si v sc (cap_opt si t sc r)"])
           (use cap_exact_append [OF O E, of t v] in \<open>auto simp: StmtNode AssignStmt cap_stmt.simps\<close>)
    next
      case (ForStmt h l p it b)
      show ?thesis
        by (rule plain [of "\<lambda>sc r. cap_opt si b sc (cap_expr si it sc r)"])
           (use cap_exact_Cons [OF E O, of it b] in \<open>auto simp: StmtNode ForStmt cap_stmt.simps\<close>)
    next
      case (WhileStmt h l c b)
      show ?thesis
        by (rule plain [of "\<lambda>sc r. cap_opt si b sc (cap_expr si c sc r)"])
           (use cap_exact_Cons [OF E O, of c b] in \<open>auto simp: StmtNode WhileStmt cap_stmt.simps\<close>)
    next
      case (WithStmt h bs b)
      define vs where "vs = concat (map (\<lambda>x. opt_node (wb_value x)) bs)"
      have v: "cap_exact si vs (cap_bindings si bs)" and b: "cap_exact si (opt_node b) (cap_opt si b)"
        using IH O [of b] by (auto simp: StmtNode WithStmt vs_def intro!: cap_exact_bindings)
      show ?thesis unfolding cap_exact_def
      proof (intro impI allI)
        fix sc assume "everywhere cap_handles [StmtNode s]"
        then have "verdict (all_under (cap_lawful si) (caps_of sc) vs) (cap_bindings si bs sc)"
          "verdict (all_under (cap_lawful si) (caps_of (sc @ [with_caps bs])) (opt_node b)) (cap_opt si b (sc @ [with_caps bs]))"
          using v b unfolding cap_exact_def by (simp_all add: WithStmt vs_def del: caps_of_push)
        from verdict_comp [OF this]
        show "verdict (all_under (cap_lawful si) (caps_of sc) [StmtNode s]) (cap_stmt si s sc)"
          by (rule verdict_eq) (simp_all add: WithStmt all_under_with cap_stmt.simps cap_lawful_def vs_def fun_eq_iff)
      qed
    qed (use plain E O in \<open>auto simp: StmtNode cap_stmt.simps\<close>)
    then show ?thesis by (simp add: StmtNode)
  qed
qed

section \<open>Functions and the unit\<close>

definition body_lawful :: "'v sema_info \<Rightarrow> decl \<Rightarrow> bool" where
  "body_lawful si d \<longleftrightarrow>
     (\<forall>b. body_of d = Some b \<longrightarrow> (\<forall>D m. runs_under (set (required_caps d)) (ExprNode b) D m \<longrightarrow> cap_lawful si D m))"

definition body_covered :: "decl \<Rightarrow> bool" where
  "body_covered d \<longleftrightarrow> (\<forall>b. body_of d = Some b \<longrightarrow> (\<forall>m. inside (ExprNode b) m \<longrightarrow> cap_handles m))"

lemma cap_func_verdict:
  assumes "body_covered d" "body_of d = body"
  shows "verdict (body_lawful si d) (cap_func si d body [])"
proof (cases body)
  case None
  then show ?thesis using assms(2) by (simp add: body_lawful_def cap_func_def verdict_def)
next
  case (Some b)
  have "everywhere cap_handles [ExprNode b]" unfolding everywhere_inside using assms by (simp add: body_covered_def Some)
  then have "verdict (all_under (cap_lawful si) (caps_of [set (required_caps d)]) [ExprNode b]) (cap_expr si b [set (required_caps d)])"
    using cap_expr_exact [of si "ExprNode b"] by (simp add: cap_exact_def)
  then show ?thesis
    by (rule verdict_eq) (use assms(2) in \<open>auto simp: body_lawful_def cap_func_def Some all_under_def caps_of_def fun_eq_iff\<close>)
qed

interpretation capability: unit_walk "\<lambda>d. cap_decl si d []" "\<lambda>ds. cap_decls si ds []" "body_lawful si" body_covered
proof
  show "cap_decl si d [] = cap_decls si (members d) []" if "\<not> is_func_decl d" for d
    using that by (cases d) (simp_all add: cap_decl.simps members_def is_func_decl_def)
  show "verdict (body_lawful si d) (cap_decl si d [])" if "is_func_decl d" "body_covered d" for d
    using that cap_func_verdict [OF that(2) refl, where si = si] by (cases d) (simp_all add: cap_decl.simps is_func_decl_def body_of_def)
  show "body_lawful si d" if "\<not> is_func_decl d" for d
    using that by (cases d) (simp_all add: body_lawful_def is_func_decl_def body_of_def)
qed simp_all

text \<open>
  One function calls another outside every \<^verbatim>\<open>with\<close> that adds a capability, through a callee whose
  symbol is the declaration of the other.
\<close>

definition calls :: "'v sema_info \<Rightarrow> decl \<Rightarrow> decl \<Rightarrow> bool" where
  "calls si f g \<longleftrightarrow>
     (\<exists>b h callee ts args a. body_of f = Some b
        \<and> runs_under (set (required_caps f)) (ExprNode b) (set (required_caps f)) (ExprNode (CallExpr h callee ts args))
        \<and> symbol_of (tables si) callee = Some a \<and> sym_decl (symbol_at si a) = Some g \<and> is_func_decl g)"

lemma calls_row: "body_lawful si f \<Longrightarrow> calls si f g \<Longrightarrow> set (required_caps g) \<subseteq> set (required_caps f)"
  by (fastforce simp: body_lawful_def calls_def cap_lawful_def call_lawful_def callee_row_def)

section \<open>Concrete programs\<close>

text \<open>
  The identifiers below 10 are the builtin \<^verbatim>\<open>println\<close>, those from 10 to 19 the function \<^verbatim>\<open>logs\<close>
  with the row \<^verbatim>\<open>using Log\<close>, whose body is \<^verbatim>\<open>println()\<close>.
\<close>

definition println_call :: expr where
  "println_call = CallExpr (here 20) (IdentExpr (here 2) ''println'') [] []"

definition logs_call :: expr where
  "logs_call = CallExpr (here 21) (IdentExpr (here 10) ''logs'') [] []"

definition with_row :: "string list \<Rightarrow> expr \<Rightarrow> decl" where
  "with_row caps b = FuncDecl (here 30) [] Internal False False RecvNone ''logs'' None [] []
     (Effects (map (\<lambda>c. NamedType (here 31) [c] [] [] [] False) caps) None) None (Some b)"

definition log_info :: "unit sema_info" where
  "log_info = \<lparr>tables = empty_resolution
       \<lparr>expr_symbols := (\<lambda>a. if a < 10 then Some (Some 0) else if a < 20 then Some (Some 1) else None)\<rparr>,
     symbol_at = (\<lambda>k. if k = 0 then (local_symbol ''println'')\<lparr>sym_kind := SymFunc\<rparr>
                      else (local_symbol ''logs'')\<lparr>sym_kind := SymFunc, sym_decl := Some (with_row [''Log''] println_call)\<rparr>)\<rparr>"

definition unit_with :: "decl list \<Rightarrow> compilation_unit" where
  "unit_with ds = \<lparr>unit_module = None, unit_imports = [], unit_decls = ds\<rparr>"

definition with_log :: "expr \<Rightarrow> expr" where
  "with_log b = BlockExpr (here 40) [WithStmt (here 41) [WithBinding [] (Some (NamedType (here 42) [''Log''] [] [] [] False)) None None] (Some b)]"

lemma row_simps [simp]: "required_caps (with_row [] b) = []" "required_caps (with_row [''Log''] b) = [''Log'']"
  "is_func_decl (with_row caps b)" "body_of (with_row caps b) = Some b" "members (with_row caps b) = []"
  by (simp_all add: required_caps_def with_row_def cap_name_def is_func_decl_def body_of_def members_def)

lemma declared_with: "declared_in (unit_decls (unit_with ds)) f \<longleftrightarrow> (\<exists>d \<in> set ds. f = d \<or> declared_in (members d) f)"
  unfolding unit_with_def by (subst declared_in_iff) simp

lemma call_simps:
  "call_gates log_info (IdentExpr (here 2) ''println'') 0 = [(''RawMemory'', False), (async_cap, False), (''Log'', True), (''Fs'', False), (''Alloc'', False)]"
  "callee_row log_info (IdentExpr (here 2) ''println'') = []"
  "call_gates log_info (IdentExpr (here 10) ''logs'') 0 = [(''RawMemory'', False), (async_cap, False), (''Log'', False), (''Fs'', False), (''Alloc'', False)]"
  "callee_row log_info (IdentExpr (here 10) ''logs'') = [''Log'']"
  by (simp_all add: call_gates_def ident_gates_def raw_memory_builtins_def is_builtin_symbol_def symbol_of_def log_info_def
      here_def expr_hdr_def local_symbol_def callee_row_def)

lemma println_check:
  "cap_expr log_info println_call sc r = (if ''Log'' \<in> caps_of sc then r else missing_capability ''Log'' (node_range (here 20)) r)"
  by (simp add: println_call_def cap_expr.simps call_simps check_deadlock_def)

lemma logs_check:
  "''InterruptsOff'' \<notin> caps_of sc \<Longrightarrow>
     cap_expr log_info logs_call sc r = (if ''Log'' \<in> caps_of sc then r else missing_capability ''Log'' (node_range (here 21)) r)"
  by (simp add: logs_call_def cap_expr.simps call_simps check_deadlock_def Let_def)

lemma check_units:
  "capability_check log_info (unit_with [with_row [] println_call]) r = missing_capability ''Log'' (node_range (here 20)) r"
  "capability_check log_info (unit_with [with_row [] (with_log println_call)]) r = r"
  "capability_check log_info (unit_with [with_row [''Log''] logs_call, with_row [''Log''] println_call]) r = r"
  by (simp_all add: capability_check_def unit_with_def cap_decl.simps with_row_def cap_func_def required_caps_def cap_name_def
      println_check logs_check with_log_def cap_expr.simps [of _ "BlockExpr _ _"] cap_stmt.simps with_caps_def caps_of_def)

lemma calls_handled:
  "everywhere cap_handles [ExprNode println_call]" "everywhere cap_handles [ExprNode logs_call]"
  "everywhere cap_handles [ExprNode (with_log println_call)]"
  by (simp_all add: println_call_def logs_call_def with_log_def cap_handles_def)

lemma rows_covered [simp]:
  "body_covered (with_row caps println_call)" "body_covered (with_row caps logs_call)"
  "body_covered (with_row caps (with_log println_call))"
  using calls_handled unfolding everywhere_inside by (simp_all add: body_covered_def)

section \<open>Properties\<close>

text \<open>
  C13: The capability checker is exact on the code it covers: for a unit whose bodies hold only
  constructs it walks, it adds no error exactly when every construct inside every function body
  has what it needs among the row of the function and the capabilities of the \<^verbatim>\<open>with\<close> bodies
  around it: the gates of a builtin call, the row of the callee, the async runtime for
  \<^verbatim>\<open>await\<close>, \<^verbatim>\<open>spawn\<close> and a blocking \<^verbatim>\<open>select\<close>; and nothing forbidden is inside a region with
  interrupts off.
\<close>

theorem capability_exact:
  assumes "\<forall>f. declared_in (unit_decls u) f \<longrightarrow> body_covered f"
  shows "error_count (capability_check si u r) = error_count r
     \<longleftrightarrow> (\<forall>f. declared_in (unit_decls u) f \<longrightarrow> body_lawful si f)"
  unfolding capability_check_def by (rule verdict_silent [OF capability.walks_verdict]) (use assms in blast)

theorem capability_exact_witness:
  "\<not> body_lawful log_info (with_row [] println_call) \<and> body_lawful log_info (with_row [] (with_log println_call))"
  using capability_exact [of "unit_with [with_row [] println_call]" log_info "\<lparr>error_cap = 0, diagnostics = [], error_count = 0, warning_count = 0\<rparr>"]
    capability_exact [of "unit_with [with_row [] (with_log println_call)]" log_info "\<lparr>error_cap = 0, diagnostics = [], error_count = 0, warning_count = 0\<rparr>"]
  by (simp add: declared_with check_units missing_capability_def report_def)

text \<open>
  C14: No capability appears out of nowhere: when the pass is silent on a unit whose bodies hold
  only constructs it walks, what a function at the end of a chain of calls requires is in the
  row of the function the chain starts with, as long as no call of the chain is inside a
  \<^verbatim>\<open>with\<close> that adds a capability.
\<close>

theorem capabilities_flow_from_the_caller:
  assumes "\<forall>f. declared_in (unit_decls u) f \<longrightarrow> body_covered f"
    and "error_count (capability_check si u r) = error_count r"
    and "(\<lambda>f g. declared_in (unit_decls u) f \<and> calls si f g)\<^sup>*\<^sup>* f g"
  shows "set (required_caps g) \<subseteq> set (required_caps f)"
  using assms(3)
proof (induction rule: rtranclp_induct)
  case (step g h)
  have "\<forall>f. declared_in (unit_decls u) f \<longrightarrow> body_lawful si f"
    using verdict_silent [OF capability.walks_verdict] assms(1,2) unfolding capability_check_def by blast
  then show ?case using step calls_row by blast
qed simp

theorem capabilities_flow_from_the_caller_witness:
  "''Log'' \<in> set (required_caps (with_row [''Log''] logs_call))"
proof -
  define f where "f = with_row [''Log''] logs_call"
  define g where "g = with_row [''Log''] println_call"
  define u where "u = unit_with [f, g]"
  have "symbol_of (tables log_info) (IdentExpr (here 10) ''logs'') = Some 1" "sym_decl (symbol_at log_info 1) = Some g"
    by (simp_all add: g_def symbol_of_def log_info_def here_def expr_hdr_def)
  moreover have "runs_under (set (required_caps f)) (ExprNode logs_call) (set (required_caps f)) (ExprNode logs_call)"
    by (rule runs_under.self)
  ultimately have "calls log_info f g"
    unfolding calls_def logs_call_def by (fastforce simp: f_def g_def logs_call_def)
  moreover have "declared_in (unit_decls u) f" by (simp add: u_def declared_with)
  ultimately have "(\<lambda>f g. declared_in (unit_decls u) f \<and> calls log_info f g)\<^sup>*\<^sup>* f g" by blast
  moreover have "\<forall>f. declared_in (unit_decls u) f \<longrightarrow> body_covered f" by (simp add: u_def declared_with f_def g_def)
  moreover have "error_count (capability_check log_info u r) = error_count r" for r
    by (simp add: u_def f_def g_def check_units)
  ultimately show ?thesis using capabilities_flow_from_the_caller [of u log_info _ f g] by (simp add: f_def g_def)
qed

end
