(* ===== verification/Parser_Core.thy ===== *)
theory Parser_Core
  imports Tokens Ast
begin

text \<open>
  The state of the parser, class \<^verbatim>\<open>Parser\<close> of \<^verbatim>\<open>include/vestra/parse/parser.hpp\<close>, its cursor
  over the tokens (\<^verbatim>\<open>src/parse/parser.cpp\<close>), the range helper of
  \<^verbatim>\<open>src/parse/parser_internal.hpp\<close>, and the combinators that the productions are written with.

  A production is a function from the state to a reply: the value and the state it leaves, or an
  exception that leaves the parser. It is \<open>None\<close> when the code does not return. A loop of the code
  is \<open>loop\<close>, whose value is \<open>None\<close> when the loop goes on forever.
\<close>

section \<open>State\<close>

text \<open>
  The members of the class, and the next free address: the nodes of the tree are heap objects, and
  \<open>make_node\<close> stands for each \<^verbatim>\<open>make_unique\<close>.
\<close>

record pstate =
  ps_tokens :: "token list"
  ps_pos :: nat
  ps_reporter :: reporter
  ps_next :: nat

definition new_parser :: "token list \<Rightarrow> reporter \<Rightarrow> nat \<Rightarrow> pstate" where
  "new_parser ts rep next = \<lparr>ps_tokens = ts, ps_pos = 0, ps_reporter = rep, ps_next = next\<rparr>"

datatype 'a reply = Reply 'a pstate | Uncaught string

type_synonym 'a parser = "pstate \<Rightarrow> 'a reply option"

section \<open>Sequencing\<close>

definition produce :: "'a \<Rightarrow> 'a parser" where
  "produce x = (\<lambda>s. Some (Reply x s))"

definition throw :: "string \<Rightarrow> 'a parser" where
  "throw e = (\<lambda>s. Some (Uncaught e))"

definition seq :: "'a parser \<Rightarrow> ('a \<Rightarrow> 'b parser) \<Rightarrow> 'b parser" where
  "seq m k = (\<lambda>s.
     case m s of
       None \<Rightarrow> None
     | Some (Uncaught e) \<Rightarrow> Some (Uncaught e)
     | Some (Reply x s') \<Rightarrow> k x s')"

definition query :: "(pstate \<Rightarrow> 'a) \<Rightarrow> 'a parser" where
  "query f = (\<lambda>s. Some (Reply (f s) s))"

definition if_state :: "(pstate \<Rightarrow> bool) \<Rightarrow> 'a parser \<Rightarrow> 'a parser \<Rightarrow> 'a parser" where
  "if_state P m1 m2 = (\<lambda>s. if P s then m1 s else m2 s)"

text \<open>A loop: its condition reads the variables that the body changes, and the state.\<close>

datatype 'a signal = Again 'a | Break 'a

partial_function (option) loop ::
  "('a \<Rightarrow> pstate \<Rightarrow> bool) \<Rightarrow> ('a \<Rightarrow> 'a signal parser) \<Rightarrow> 'a \<Rightarrow> 'a parser"
where
  "loop c body a s =
     (if c a s then
        Option.bind (body a s) (\<lambda>r.
          case r of
            Uncaught e \<Rightarrow> Some (Uncaught e)
          | Reply g s' \<Rightarrow>
              (case g of
                 Again a' \<Rightarrow> loop c body a' s'
               | Break a' \<Rightarrow> Some (Reply a' s')))
      else Some (Reply a s))"

declare loop.simps [code]

section \<open>The cursor\<close>

text \<open>The vector of tokens is never empty: the lexer always ends it with an end-of-file token.\<close>

definition peek_ahead :: "pstate \<Rightarrow> nat \<Rightarrow> token" where
  "peek_ahead s k =
     (if length (ps_tokens s) \<le> ps_pos s + k then last (ps_tokens s)
      else ps_tokens s ! (ps_pos s + k))"

definition kind_ahead :: "pstate \<Rightarrow> nat \<Rightarrow> token_kind" where
  "kind_ahead s k = tok_kind (peek_ahead s k)"

definition next_lexeme :: "pstate \<Rightarrow> string" where
  "next_lexeme s = tok_lexeme (peek_ahead s 0)"

definition move_on :: "pstate \<Rightarrow> pstate" where
  "move_on s = (if ps_pos s + 1 < length (ps_tokens s) then s\<lparr>ps_pos := ps_pos s + 1\<rparr> else s)"

definition advance_token :: "token parser" where
  "advance_token = (\<lambda>s. Some (Reply (ps_tokens s ! ps_pos s) (move_on s)))"

definition check_kind :: "token_kind \<Rightarrow> pstate \<Rightarrow> bool" where
  "check_kind k s \<longleftrightarrow> kind_ahead s 0 = k"

definition at_eof :: "pstate \<Rightarrow> bool" where
  "at_eof s \<longleftrightarrow> kind_ahead s 0 = TkEof"

definition match_kind :: "token_kind \<Rightarrow> bool parser" where
  "match_kind k = (\<lambda>s. Some (if check_kind k s then Reply True (move_on s) else Reply False s))"

definition this_range :: "source_range parser" where
  "this_range = query (\<lambda>s. tok_range (peek_ahead s 0))"

definition last_range :: "pstate \<Rightarrow> source_range" where
  "last_range s =
     (if ps_pos s = 0 then tok_range (hd (ps_tokens s)) else tok_range (ps_tokens s ! (ps_pos s - 1)))"

definition emit_error :: "source_range \<Rightarrow> string \<Rightarrow> unit parser" where
  "emit_error r msg = (\<lambda>s.
     Some (Reply () (s\<lparr>ps_reporter := report (diag_at r (diag_error msg)) (ps_reporter s)\<rparr>)))"

text \<open>An error at the next token.\<close>

definition error_here :: "string \<Rightarrow> unit parser" where
  "error_here msg = (seq this_range (\<lambda>r. emit_error r msg))"

definition expect_kind :: "token_kind \<Rightarrow> string \<Rightarrow> bool parser" where
  "expect_kind k what = (
     seq (match_kind k) (\<lambda>ok.
     if ok then produce True
     else (
       seq (query (\<lambda>s. kind_ahead s 0)) (\<lambda>got.
       seq (error_here (''expected '' @ what @ '' ('' @ spelling k @ ''), got '' @ spelling got)) (\<lambda>_.
       produce False)))))"

definition at_newline :: "pstate \<Rightarrow> bool" where
  "at_newline s \<longleftrightarrow> check_kind TkNewline s \<or> check_kind TkSemicolon s"

definition skip_newlines :: "unit parser" where
  "skip_newlines = loop (\<lambda>_. at_newline) (\<lambda>_. (seq advance_token (\<lambda>_. produce (Again ())))) ()"

text \<open>The tokens at which error recovery stops without consuming them.\<close>

definition starts_decl :: "token_kind \<Rightarrow> bool" where
  "starts_decl k \<longleftrightarrow>
     k \<in> {TkKw KwFunc, TkKw KwStruct, TkKw KwEnum, TkKw KwProtocol, TkKw KwExtension, TkKw KwOpaque,
          TkKw KwConst, TkKw KwStatic, TkKw KwImport, TkKw KwModule, TkKw KwDerive, TkAt,
          TkKw KwPublic, TkKw KwPrivate, TkKw KwPackage, TkKw KwInternal, TkEof}"

definition sync_to_decl :: "unit parser" where
  "sync_to_decl = loop (\<lambda>_ s. \<not> at_eof s) (\<lambda>_. (
     seq (query (\<lambda>s. kind_ahead s 0)) (\<lambda>k.
     if k = TkNewline then (seq advance_token (\<lambda>_. produce (Break ())))
     else if starts_decl k then produce (Break ())
     else (seq advance_token (\<lambda>_. produce (Again ())))))) ()"

section \<open>Ranges and nodes\<close>

text \<open>
  The smallest range over two ranges. The lengths are of type \<^verbatim>\<open>size_t\<close>, so the subtraction
  wraps around when the second range ends before the first begins.
\<close>

definition merge_ranges :: "source_range \<Rightarrow> source_range \<Rightarrow> source_range" where
  "merge_ranges a b =
     (if \<not> range_is_valid a then b
      else if \<not> range_is_valid b then a
      else \<lparr>range_begin = range_begin a,
            range_length = nat ((int (loc_offset (range_begin b) + range_length b)
                                 - int (loc_offset (range_begin a))) mod 2 ^ 64)\<rparr>)"

definition make_node :: "nat parser" where
  "make_node = (\<lambda>s. Some (Reply (ps_next s) (s\<lparr>ps_next := ps_next s + 1\<rparr>)))"

definition span_from :: "source_range \<Rightarrow> source_range parser" where
  "span_from start = query (\<lambda>s. merge_ranges start (last_range s))"

abbreviation hdr_of :: "nat \<Rightarrow> source_range \<Rightarrow> hdr" where
  "hdr_of a r \<equiv> \<lparr>node_addr = a, node_range = r\<rparr>"

text \<open>The end of most productions: the node gets the range from its first token to the last one.\<close>

definition close_node :: "nat \<Rightarrow> source_range \<Rightarrow> (hdr \<Rightarrow> 'a) \<Rightarrow> 'a parser" where
  "close_node a start f = (seq (span_from start) (\<lambda>r. produce (f (hdr_of a r))))"

section \<open>Idioms of the productions\<close>

abbreviation if_check :: "token_kind \<Rightarrow> 'a parser \<Rightarrow> 'a parser \<Rightarrow> 'a parser" where
  "if_check k \<equiv> if_state (check_kind k)"

definition if_match :: "token_kind \<Rightarrow> 'a parser \<Rightarrow> 'a parser \<Rightarrow> 'a parser" where
  "if_match k m1 m2 = (seq (match_kind k) (\<lambda>ok. if ok then m1 else m2))"

text \<open>A chain of tests of the next token, or a switch on it.\<close>

primrec dispatch :: "(token_kind \<times> 'a parser) list \<Rightarrow> 'a parser \<Rightarrow> 'a parser" where
  "dispatch [] other = other"
| "dispatch (e # es) other = if_check (fst e) (snd e) (dispatch es other)"

definition lexeme_here :: "string parser" where
  "lexeme_here = (seq advance_token (\<lambda>t. produce (tok_lexeme t)))"

text \<open>A name, which stays empty if the next token is not an identifier.\<close>

definition ident_or :: "string \<Rightarrow> string parser" where
  "ident_or msg = if_check TkIdentifier lexeme_here (seq (error_here msg) (\<lambda>_. produce []))"

text \<open>The loop \<^verbatim>\<open>while (match(k)) { out.push_back(p()); }\<close>, and it with a first element.\<close>

definition while_matched :: "token_kind \<Rightarrow> 'a parser \<Rightarrow> 'a list parser" where
  "while_matched k p =
     loop (\<lambda>_. check_kind k) (\<lambda>xs. (seq advance_token (\<lambda>_. seq p (\<lambda>x. produce (Again (xs @ [x])))))) []"

definition sep_by :: "token_kind \<Rightarrow> 'a parser \<Rightarrow> 'a list parser" where
  "sep_by k p = (seq p (\<lambda>x. seq (while_matched k p) (\<lambda>xs. produce (x # xs))))"

definition some_of :: "'a parser \<Rightarrow> 'a option parser" where
  "some_of p = (seq p (\<lambda>x. produce (Some x)))"

definition opt_after :: "token_kind \<Rightarrow> 'a parser \<Rightarrow> 'a option parser" where
  "opt_after k p = if_match k (some_of p) (produce None)"

text \<open>The names of a path after its first one, or of a list; a missing name ends it.\<close>

definition names_after :: "token_kind \<Rightarrow> string \<Rightarrow> string list \<Rightarrow> string list parser" where
  "names_after k msg = loop (\<lambda>_. check_kind k) (\<lambda>xs. (
     seq advance_token (\<lambda>_.
     if_check TkIdentifier
       (seq lexeme_here (\<lambda>x. produce (Again (xs @ [x]))))
       (seq (error_here msg) (\<lambda>_. produce (Break xs))))))"

text \<open>The text of a string literal without its first and last character.\<close>

definition strip_quotes :: "string \<Rightarrow> string" where
  "strip_quotes x = substr x 1 (length x - 2)"

section \<open>Numbers\<close>

definition decimal_digit :: "char \<Rightarrow> bool" where
  "decimal_digit c \<longleftrightarrow> CHR ''0'' \<le> c \<and> c \<le> CHR ''9''"

definition decimal_value :: "string \<Rightarrow> int" where
  "decimal_value ds = foldl (\<lambda>n c. 10 * n + (int (of_char c) - 48)) 0 ds"

definition is_space :: "char \<Rightarrow> bool" where
  "is_space c \<longleftrightarrow> c \<in> {CHR '' '', chr_tab, chr_nl, chr_cr, CHR 0x0B, CHR 0x0C}"

definition strip_sign :: "string \<Rightarrow> bool \<times> string" where
  "strip_sign x =
     (case x of
        [] \<Rightarrow> (False, [])
      | c # r \<Rightarrow> if c = CHR ''-'' then (True, r) else if c = CHR ''+'' then (False, r) else (False, x))"

text \<open>\<^verbatim>\<open>std::stoll\<close> in base ten: it reads the longest prefix that is a number.\<close>

definition stoll :: "string \<Rightarrow> string + int" where
  "stoll x =
     (case strip_sign (dropWhile is_space x) of
        (neg, r) \<Rightarrow>
          (let ds = takeWhile decimal_digit r;
               n = (if neg then - decimal_value ds else decimal_value ds)
           in if ds = [] then Inl ''std::invalid_argument''
              else if n < - (2 ^ 63) \<or> 2 ^ 63 \<le> n then Inl ''std::out_of_range''
              else Inr n))"

definition parse_stoll :: "string \<Rightarrow> int parser" where
  "parse_stoll x = (case stoll x of Inl e \<Rightarrow> throw e | Inr n \<Rightarrow> produce n)"

end
