(* ===== verification/Parser.thy ===== *)
theory Parser
  imports Parser_Core
begin

text \<open>
  The productions of the parser, \<^verbatim>\<open>src/parse/parser.cpp\<close>, \<^verbatim>\<open>parser_types.cpp\<close>,
  \<^verbatim>\<open>parser_patterns.cpp\<close>, \<^verbatim>\<open>parser_exprs.cpp\<close>, \<^verbatim>\<open>parser_stmts.cpp\<close> and
  \<^verbatim>\<open>parser_decls.cpp\<close>: one definition per method, over the productions that it calls
  recursively. Those are the record \<open>productions\<close>, and the last section ties the knot: a production
  with fuel \<open>n + 1\<close> calls the others with fuel \<open>n\<close>, and one without fuel gives no reply.
\<close>

section \<open>The recursive productions\<close>

record productions =
  p_type :: "tyx parser"
  p_pattern :: "pattern parser"
  p_block :: "expr parser"
  p_expr :: "nat \<Rightarrow> expr parser"
  p_prefix :: "expr parser"
  p_primary :: "expr parser"
  p_decl :: "expr attribute list \<Rightarrow> decl option parser"

abbreviation whole_expr :: "productions \<Rightarrow> expr parser" where
  "whole_expr c \<equiv> p_expr c 0"

text \<open>
  A null pointer where the tree has no option. Its address is zero, which no node has: the parser
  starts to allocate at a positive address.
\<close>

definition null_expr :: expr where
  "null_expr = NilLit (hdr_of 0 no_range)"

definition null_decl :: decl where
  "null_decl = SpliceDecl (hdr_of 0 no_range) None"

section \<open>Splices\<close>

text \<open>The UTF-8 bytes of the ellipsis.\<close>

definition ellipsis :: string where
  "ellipsis = [CHR 0xE2, CHR 0x80, CHR 0xA6]"

definition parse_splice :: "productions \<Rightarrow> expr parser" where
  "parse_splice c = (
     seq this_range (\<lambda>start.
     seq advance_token (\<lambda>_.
     seq make_node (\<lambda>a.
     seq (if_match TkLParen
       (seq (whole_expr c) (\<lambda>e.
          seq (expect_kind TkRParen (quoted '')'' @ '' to close '' @ quoted (''$( '' @ ellipsis @ '' )'') @ '' splice'')) (\<lambda>_.
          produce e)))
       (if_check TkIdentifier
          (seq make_node (\<lambda>b. seq advance_token (\<lambda>t.
             produce (IdentExpr (hdr_of b (tok_range t)) (tok_lexeme t)))))
          (seq (error_here (''expected an identifier or '' @ quoted ''('' @ '' after '' @ quoted ''$'')) (\<lambda>_.
             produce null_expr)))) (\<lambda>inner.
     close_node a start (\<lambda>h. SpliceExpr h inner))))))"

section \<open>Attributes, visibility, generics, parameters, effects\<close>

definition attribute_args :: "productions \<Rightarrow> (expr option \<times> expr option list) parser" where
  "attribute_args c = if_match TkLParen
     (seq (if_check TkRParen (produce (None, []))
          (seq (whole_expr c) (\<lambda>p. seq (while_matched TkComma (some_of (whole_expr c))) (\<lambda>xs.
             produce (Some p, xs))))) (\<lambda>args.
        seq (expect_kind TkRParen (''closing '' @ quoted '')'' @ '' of attribute arguments'')) (\<lambda>_.
        produce args)))
     (produce (None, []))"

definition parse_attributes :: "productions \<Rightarrow> expr attribute list parser" where
  "parse_attributes c = loop (\<lambda>_. check_kind TkAt) (\<lambda>out. (
     seq this_range (\<lambda>start.
     seq advance_token (\<lambda>_.
     if_check TkIdentifier
       (seq lexeme_here (\<lambda>nm.
          seq (attribute_args c) (\<lambda>(pred, extra).
          seq (span_from start) (\<lambda>r.
          seq skip_newlines (\<lambda>_.
          produce (Again (out @ [Attribute nm pred extra r])))))))
       (seq (error_here (''expected attribute name after '' @ quoted ''@'')) (\<lambda>_.
          produce (Break out))))))) []"

definition parse_visibility :: "visibility parser" where
  "parse_visibility =
     if_match (TkKw KwPrivate) (produce Private)
       (if_match (TkKw KwInternal) (produce Internal)
         (if_match (TkKw KwPackage) (produce Package)
           (if_match (TkKw KwPublic) (produce Public) (produce Internal))))"

definition parse_generic_param :: "productions \<Rightarrow> tyx generic_param parser" where
  "parse_generic_param c = (
     seq this_range (\<lambda>start.
     if_match (TkKw KwConst)
       (seq (ident_or ''expected name for const generic parameter'') (\<lambda>nm.
          seq (expect_kind TkColon (quoted '':'' @ '' after const generic parameter name'')) (\<lambda>_.
          seq (p_type c) (\<lambda>t.
          seq (span_from start) (\<lambda>r.
          produce (GenericParam nm True (Some t) [] r))))))
       (seq (ident_or ''expected generic parameter name'') (\<lambda>nm.
          seq (if_match TkColon (sep_by (TkOp OpAmp) (p_type c)) (produce [])) (\<lambda>b.
          seq (span_from start) (\<lambda>r.
          produce (GenericParam nm False None b r)))))))"

definition parse_generics_opt :: "productions \<Rightarrow> tyx generic_param list parser" where
  "parse_generics_opt c = if_match TkLBracket
     (seq (sep_by TkComma (parse_generic_param c)) (\<lambda>gs.
        seq (expect_kind TkRBracket (''closing '' @ quoted '']'' @ '' of generic parameter list'')) (\<lambda>_.
        produce gs)))
     (produce [])"

text \<open>The name of a parameter: its label, whether the label is omitted, its name, its pattern.\<close>

definition parse_param_name :: "productions \<Rightarrow> (string \<times> bool \<times> string \<times> pattern option) parser" where
  "parse_param_name c = dispatch
     [(TkLParen, (seq (p_pattern c) (\<lambda>p. produce ([], True, [], Some p)))),
      (TkUnderscore, (seq advance_token (\<lambda>_.
         seq (if_check TkIdentifier lexeme_here (produce [])) (\<lambda>nm.
         produce ([], True, nm, None))))),
      (TkIdentifier, (seq lexeme_here (\<lambda>first.
         seq (if_check TkIdentifier lexeme_here (produce first)) (\<lambda>nm.
         produce (first, False, nm, None)))))]
     (produce ([], False, [], None))"

definition parse_param_mode :: "param_mode parser" where
  "parse_param_mode =
     if_match (TkKw KwInout) (produce Inout)
       (if_match (TkKw KwSink) (produce Sink)
         (if_match (TkKw KwRead) (produce Read) (produce Read)))"

definition parse_param :: "productions \<Rightarrow> (tyx, expr, pattern) param parser" where
  "parse_param c = (
     seq this_range (\<lambda>start.
     seq (parse_param_name c) (\<lambda>(lb, omitted, nm, pat).
     seq (expect_kind TkColon (quoted '':'' @ '' after parameter name'')) (\<lambda>_.
     seq (match_kind (TkKw KwNonescaping)) (\<lambda>ne.
     seq parse_param_mode (\<lambda>md.
     seq (p_type c) (\<lambda>t.
     seq (opt_after (TkOp OpAssign) (whole_expr c)) (\<lambda>d.
     seq (span_from start) (\<lambda>r.
     produce (Param lb omitted nm ne md (Some t) d pat r))))))))))"

definition parse_params :: "productions \<Rightarrow> (tyx, expr, pattern) param list parser" where
  "parse_params c = (
     seq (expect_kind TkLParen (quoted ''('' @ '' to start parameter list'')) (\<lambda>_.
     if_match TkRParen (produce [])
       (seq (sep_by TkComma (parse_param c)) (\<lambda>ps.
          seq (expect_kind TkRParen (''closing '' @ quoted '')'' @ '' of parameter list'')) (\<lambda>_.
          produce ps)))))"

definition parse_effects_opt :: "productions \<Rightarrow> tyx effects parser" where
  "parse_effects_opt c = (
     seq (if_match (TkKw KwUsing) (sep_by TkComma (p_type c)) (produce [])) (\<lambda>caps.
     seq (if_match (TkKw KwThrows)
       (seq (expect_kind TkLParen (quoted ''('' @ '' after '' @ quoted ''throws'')) (\<lambda>_.
          seq (p_type c) (\<lambda>t.
          seq (expect_kind TkRParen (''closing '' @ quoted '')'' @ '' after '' @ quoted ''throws(...)'')) (\<lambda>_.
          produce (Some t)))))
       (produce None)) (\<lambda>th.
     produce (Effects caps th))))"

section \<open>Patterns\<close>

definition is_pattern_literal :: "token_kind \<Rightarrow> bool" where
  "is_pattern_literal k \<longleftrightarrow>
     k \<in> {TkIntLit, TkFloatLit, TkStringLit, TkCharLit, TkKw KwTrue, TkKw KwFalse}"

definition parse_tuple_pattern :: "productions \<Rightarrow> source_range \<Rightarrow> pattern parser" where
  "parse_tuple_pattern c start = (
     seq (if_check TkRParen (produce []) (sep_by TkComma (p_pattern c))) (\<lambda>elems.
     seq (expect_kind TkRParen (quoted '')'' @ '' closing tuple pattern'')) (\<lambda>_.
     if length elems = 1 then produce (hd elems)
     else (seq make_node (\<lambda>a. close_node a start (\<lambda>h. TuplePat h elems))))))"

definition parse_enum_pattern :: "productions \<Rightarrow> source_range \<Rightarrow> pattern parser" where
  "parse_enum_pattern c start = (
     seq make_node (\<lambda>a.
     seq (ident_or (''expected case name after '' @ quoted ''.'' @ '' in pattern'')) (\<lambda>nm.
     seq (if_match TkLParen
       (seq (if_check TkRParen (produce []) (sep_by TkComma (p_pattern c))) (\<lambda>ps.
          seq (expect_kind TkRParen (quoted '')'' @ '' closing enum-pattern payload'')) (\<lambda>_.
          produce ps)))
       (produce [])) (\<lambda>children.
     close_node a start (\<lambda>h. EnumPat h nm children)))))"

text \<open>A literal, or a range of two.\<close>

definition parse_literal_pattern :: "productions \<Rightarrow> source_range \<Rightarrow> pattern parser" where
  "parse_literal_pattern c start = (
     seq (p_primary c) (\<lambda>literal.
     if_state (\<lambda>s. check_kind TkDotDot s \<or> check_kind TkDotDotLt s)
       (seq make_node (\<lambda>a.
          seq (query (check_kind TkDotDot)) (\<lambda>inclusive.
          seq advance_token (\<lambda>_.
          seq (p_primary c) (\<lambda>high.
          close_node a start (\<lambda>h. RangePat h literal high inclusive))))))
       (seq make_node (\<lambda>a. close_node a start (\<lambda>h. LiteralPat h literal)))))"

definition parse_pattern_alt :: "productions \<Rightarrow> pattern parser" where
  "parse_pattern_alt c = (
     seq this_range (\<lambda>start.
     dispatch
       [(TkUnderscore, (seq advance_token (\<lambda>_. seq make_node (\<lambda>a. close_node a start WildcardPat)))),
        (TkLParen, (seq advance_token (\<lambda>_. parse_tuple_pattern c start))),
        (TkKw KwLet, (seq advance_token (\<lambda>_. seq make_node (\<lambda>a.
           seq (ident_or (''expected identifier after '' @ quoted ''let'' @ '' in pattern'')) (\<lambda>nm.
           close_node a start (\<lambda>h. BindPat h nm)))))),
        (TkDot, (seq advance_token (\<lambda>_. parse_enum_pattern c start))),
        (TkIdentifier, (seq make_node (\<lambda>a. seq lexeme_here (\<lambda>nm. close_node a start (\<lambda>h. IdentPat h nm)))))]
       (if_state (\<lambda>s. is_pattern_literal (kind_ahead s 0))
          (parse_literal_pattern c start)
          (seq (error_here ''expected pattern'') (\<lambda>_.
             seq make_node (\<lambda>a.
             seq this_range (\<lambda>r.
             produce (WildcardPat (hdr_of a r)))))))))"

definition parse_pattern :: "productions \<Rightarrow> pattern parser" where
  "parse_pattern c = (
     seq (parse_pattern_alt c) (\<lambda>first.
     if_check (TkOp OpPipe)
       (seq make_node (\<lambda>a.
          seq (while_matched (TkOp OpPipe) (parse_pattern_alt c)) (\<lambda>more.
          close_node a (node_range (pattern_hdr first)) (\<lambda>h. OrPat h (first # more)))))
       (produce first)))"

section \<open>Types\<close>

text \<open>An argument in brackets after the name of a type.\<close>

datatype generic_arg = AssocArg string tyx | ConstArg int | TypeArg tyx

definition parse_generic_arg :: "productions \<Rightarrow> generic_arg parser" where
  "parse_generic_arg c =
     if_state (\<lambda>s. check_kind TkIdentifier s \<and> kind_ahead s 1 = TkOp OpAssign)
       (seq lexeme_here (\<lambda>nm. seq advance_token (\<lambda>_. seq (p_type c) (\<lambda>t. produce (AssocArg nm t)))))
       (if_check TkIntLit
          (seq lexeme_here (\<lambda>x. seq (parse_stoll x) (\<lambda>n. produce (ConstArg n))))
          (seq (p_type c) (\<lambda>t. produce (TypeArg t))))"

definition assoc_args :: "generic_arg list \<Rightarrow> (string \<times> tyx) list" where
  "assoc_args xs = List.map_filter (\<lambda>x. case x of AssocArg n t \<Rightarrow> Some (n, t) | _ \<Rightarrow> None) xs"

definition const_args :: "generic_arg list \<Rightarrow> int list" where
  "const_args xs = List.map_filter (\<lambda>x. case x of ConstArg n \<Rightarrow> Some n | _ \<Rightarrow> None) xs"

definition type_args :: "generic_arg list \<Rightarrow> tyx list" where
  "type_args xs = List.map_filter (\<lambda>x. case x of TypeArg t \<Rightarrow> Some t | _ \<Rightarrow> None) xs"

definition parse_named_type :: "productions \<Rightarrow> source_range \<Rightarrow> tyx parser" where
  "parse_named_type c start = (
     seq make_node (\<lambda>a.
     seq lexeme_here (\<lambda>first.
     seq (names_after TkDot (''expected identifier after '' @ quoted ''.'' @ '' in type path'') [first]) (\<lambda>path.
     seq (if_match TkLBracket
       (seq (if_check TkRBracket (produce []) (sep_by TkComma (parse_generic_arg c))) (\<lambda>xs.
          seq (expect_kind TkRBracket (quoted '']'' @ '' closing generic argument list'')) (\<lambda>_.
          produce (True, xs))))
       (produce (False, []))) (\<lambda>(generics, args).
     close_node a start
       (\<lambda>h. NamedType h path (type_args args) (assoc_args args) (const_args args) generics))))))"

text \<open>After \<^verbatim>\<open>[\<close>: the list of the tree's value types, or a vector.\<close>

definition parse_bracket_type :: "productions \<Rightarrow> source_range \<Rightarrow> tyx parser" where
  "parse_bracket_type c start =
     if_state (\<lambda>s. check_kind TkIdentifier s \<and> next_lexeme s \<in> {''Decl'', ''Expr''}
                   \<and> kind_ahead s 1 = TkRBracket)
       (seq make_node (\<lambda>a.
          seq (p_type c) (\<lambda>e.
          seq (expect_kind TkRBracket (quoted '']'' @ '' in AST-list type'')) (\<lambda>_.
          close_node a start (\<lambda>h. VectorType h (- 1) [] (Some e))))))
       (seq make_node (\<lambda>a.
          seq (dispatch
            [(TkIntLit, (seq lexeme_here (\<lambda>x. seq (parse_stoll x) (\<lambda>n. produce (n, []))))),
             (TkIdentifier, (seq lexeme_here (\<lambda>x. produce (0, x))))]
            (seq (error_here ''expected vector length (integer or identifier)'') (\<lambda>_. produce (0, [])))) (\<lambda>(n, x).
          seq (expect_kind TkRBracket (quoted '']'' @ '' in vector type'')) (\<lambda>_.
          seq (p_type c) (\<lambda>e.
          close_node a start (\<lambda>h. VectorType h n x (Some e)))))))"

definition parse_paren_type :: "productions \<Rightarrow> source_range \<Rightarrow> tyx parser" where
  "parse_paren_type c start = (
     seq (if_check TkRParen (produce []) (sep_by TkComma (p_type c))) (\<lambda>parts.
     seq (expect_kind TkRParen (''closing '' @ quoted '')'' @ '' in tuple/function type'')) (\<lambda>_.
     if_state (\<lambda>s. kind_ahead s 0 \<in> {TkKw KwUsing, TkKw KwThrows, TkArrow})
       (seq make_node (\<lambda>a.
          seq (parse_effects_opt c) (\<lambda>fx.
          seq (opt_after TkArrow (p_type c)) (\<lambda>res.
          close_node a start (\<lambda>h. FunctionType h parts fx res)))))
       (if length parts = 1 then produce (hd parts)
        else (seq make_node (\<lambda>a. close_node a start (\<lambda>h. TupleType h parts)))))))"

definition parse_interrupt_type :: "productions \<Rightarrow> source_range \<Rightarrow> tyx parser" where
  "parse_interrupt_type c start = (
     seq (if_state (\<lambda>s. check_kind TkIdentifier s \<and> next_lexeme s = ''interrupt'')
       (seq advance_token (\<lambda>_. produce ()))
       (error_here (''expected '' @ quoted ''interrupt'' @ '' after '' @ quoted ''@''
          @ '' in type position (only @interrupt(T) is admitted as a type)''))) (\<lambda>_.
     seq (expect_kind TkLParen (quoted ''('' @ '' after @interrupt'')) (\<lambda>_.
     seq make_node (\<lambda>a.
     seq (p_type c) (\<lambda>t.
     seq (expect_kind TkRParen (quoted '')'' @ '' after @interrupt(T)'')) (\<lambda>_.
     close_node a start (\<lambda>h. InterruptType h (Some t))))))))"

text \<open>A type without its postfix marks, or none if the next token starts no type.\<close>

definition parse_base_type :: "productions \<Rightarrow> source_range \<Rightarrow> tyx option parser" where
  "parse_base_type c start = dispatch
     [(TkDollar, some_of (seq make_node (\<lambda>a. seq (parse_splice c) (\<lambda>e. close_node a start (\<lambda>h. SpliceType h (Some e)))))),
      (TkKw KwSome, some_of (seq advance_token (\<lambda>_. seq make_node (\<lambda>a. seq (p_type c) (\<lambda>t.
         close_node a start (\<lambda>h. SomeType h (Some t))))))),
      (TkKw KwDyn, some_of (seq advance_token (\<lambda>_. seq make_node (\<lambda>a. seq (p_type c) (\<lambda>t.
         close_node a start (\<lambda>h. DynType h (Some t))))))),
      (TkAt, some_of (seq advance_token (\<lambda>_. parse_interrupt_type c start))),
      (TkLBracket, some_of (seq advance_token (\<lambda>_. parse_bracket_type c start))),
      (TkLParen, some_of (seq advance_token (\<lambda>_. parse_paren_type c start))),
      (TkIdentifier, some_of (parse_named_type c start)),
      (TkKw KwSelfUpper, some_of (parse_named_type c start))]
     (produce None)"

definition parse_type :: "productions \<Rightarrow> tyx parser" where
  "parse_type c = (
     seq this_range (\<lambda>start.
     seq (parse_base_type c start) (\<lambda>base.
     case base of
       None \<Rightarrow> (
         seq (error_here ''expected type'') (\<lambda>_.
         seq make_node (\<lambda>a.
         seq this_range (\<lambda>r.
         produce (NamedType (hdr_of a r) [''<error>''] [] [] [] False)))))
     | Some b \<Rightarrow>
         loop (\<lambda>_. check_kind TkQuestion) (\<lambda>b. (
           seq advance_token (\<lambda>_.
           seq make_node (\<lambda>a.
           seq (close_node a start (\<lambda>h. OptionalType h (Some b))) (\<lambda>t.
           produce (Again t)))))) b)))"

section \<open>Operators\<close>

text \<open>The binding powers of an infix operator, left and right; zero for any other token.\<close>

definition infix_bp :: "token_kind \<Rightarrow> nat \<times> nat" where
  "infix_bp k =
     (case k of
        TkOp OpStar \<Rightarrow> (130, 131) | TkOp OpSlash \<Rightarrow> (130, 131) | TkOp OpPercent \<Rightarrow> (130, 131)
      | TkOp OpAmpStar \<Rightarrow> (130, 131)
      | TkOp OpPlus \<Rightarrow> (120, 121) | TkOp OpMinus \<Rightarrow> (120, 121) | TkOp OpAmpPlus \<Rightarrow> (120, 121)
      | TkOp OpAmpMinus \<Rightarrow> (120, 121)
      | TkOp OpShiftL \<Rightarrow> (110, 111) | TkOp OpShiftR \<Rightarrow> (110, 111)
      | TkOp OpAmp \<Rightarrow> (100, 101)
      | TkOp OpCaret \<Rightarrow> (90, 91)
      | TkOp OpPipe \<Rightarrow> (80, 81)
      | TkDotDot \<Rightarrow> (70, 71) | TkDotDotLt \<Rightarrow> (70, 71)
      | TkOp OpEqEq \<Rightarrow> (60, 61) | TkOp OpBangEq \<Rightarrow> (60, 61) | TkOp OpLt \<Rightarrow> (60, 61)
      | TkOp OpLtEq \<Rightarrow> (60, 61) | TkOp OpGt \<Rightarrow> (60, 61) | TkOp OpGtEq \<Rightarrow> (60, 61)
      | TkOp OpAmpAmp \<Rightarrow> (50, 51)
      | TkOp OpPipePipe \<Rightarrow> (40, 41)
      | TkOp OpQuestionQuestion \<Rightarrow> (30, 31)
      | _ \<Rightarrow> (0, 0))"

definition token_to_binop :: "token_kind \<Rightarrow> binary_op" where
  "token_to_binop k =
     (case k of
        TkOp OpPlus \<Rightarrow> AddOp | TkOp OpMinus \<Rightarrow> SubOp | TkOp OpStar \<Rightarrow> MulOp | TkOp OpSlash \<Rightarrow> DivOp
      | TkOp OpPercent \<Rightarrow> ModOp | TkOp OpAmpPlus \<Rightarrow> WrappingAddOp | TkOp OpAmpMinus \<Rightarrow> WrappingSubOp
      | TkOp OpAmpStar \<Rightarrow> WrappingMulOp | TkOp OpShiftL \<Rightarrow> ShlOp | TkOp OpShiftR \<Rightarrow> ShrOp
      | TkOp OpAmp \<Rightarrow> BitAndOp | TkOp OpCaret \<Rightarrow> BitXorOp | TkOp OpPipe \<Rightarrow> BitOrOp
      | TkDotDot \<Rightarrow> RangeOp | TkDotDotLt \<Rightarrow> RangeLtOp
      | TkOp OpEqEq \<Rightarrow> EqOp | TkOp OpBangEq \<Rightarrow> NeOp | TkOp OpLt \<Rightarrow> LtOp | TkOp OpLtEq \<Rightarrow> LeOp
      | TkOp OpGt \<Rightarrow> GtOp | TkOp OpGtEq \<Rightarrow> GeOp | TkOp OpAmpAmp \<Rightarrow> AndOp | TkOp OpPipePipe \<Rightarrow> OrOp
      | TkOp OpQuestionQuestion \<Rightarrow> CoalesceOp
      | _ \<Rightarrow> AddOp)"

definition is_assign_op :: "token_kind \<Rightarrow> bool" where
  "is_assign_op k \<longleftrightarrow>
     k \<in> {TkOp OpAssign, TkOp OpPlusEq, TkOp OpMinusEq, TkOp OpStarEq, TkOp OpSlashEq, TkOp OpPercentEq,
          TkOp OpAmpEq, TkOp OpPipeEq, TkOp OpCaretEq, TkOp OpShiftLEq, TkOp OpShiftREq}"

definition token_to_assign :: "token_kind \<Rightarrow> assign_op" where
  "token_to_assign k =
     (case k of
        TkOp OpAssign \<Rightarrow> Assign | TkOp OpPlusEq \<Rightarrow> AddAssign | TkOp OpMinusEq \<Rightarrow> SubAssign
      | TkOp OpStarEq \<Rightarrow> MulAssign | TkOp OpSlashEq \<Rightarrow> DivAssign | TkOp OpPercentEq \<Rightarrow> ModAssign
      | TkOp OpAmpEq \<Rightarrow> BitAndAssign | TkOp OpPipeEq \<Rightarrow> BitOrAssign | TkOp OpCaretEq \<Rightarrow> BitXorAssign
      | TkOp OpShiftLEq \<Rightarrow> ShlAssign | TkOp OpShiftREq \<Rightarrow> ShrAssign
      | _ \<Rightarrow> Assign)"

section \<open>Expressions: precedence climbing\<close>

definition climb_step :: "productions \<Rightarrow> nat \<Rightarrow> expr \<Rightarrow> expr signal parser" where
  "climb_step c min_bp lhs =
     if_state (\<lambda>s. check_kind (TkKw KwAs) s \<or> check_kind (TkKw KwAsQuestion) s)
       (seq (query (check_kind (TkKw KwAsQuestion))) (\<lambda>is_opt.
          seq advance_token (\<lambda>_.
          seq make_node (\<lambda>a.
          seq (p_type c) (\<lambda>t.
          seq (close_node a (expr_range lhs) (\<lambda>h. AsExpr h lhs t is_opt)) (\<lambda>e.
          produce (Again e)))))))
       (if_state (\<lambda>s. case infix_bp (kind_ahead s 0) of (l, r) \<Rightarrow> l < min_bp \<or> l = 0)
          (produce (Break lhs))
          (seq advance_token (\<lambda>op.
             seq (p_expr c (snd (infix_bp (tok_kind op)))) (\<lambda>rhs.
             seq make_node (\<lambda>a.
             produce (Again (BinaryExpr (hdr_of a (merge_ranges (expr_range lhs) (expr_range rhs)))
                              (token_to_binop (tok_kind op)) lhs rhs)))))))"

definition parse_expr_bp :: "productions \<Rightarrow> nat \<Rightarrow> expr parser" where
  "parse_expr_bp c min_bp = (
     seq (p_prefix c) (\<lambda>lhs.
     loop (\<lambda>_ _. True) (climb_step c min_bp) lhs))"

section \<open>Expressions: postfix operators\<close>

definition parse_call_arg :: "productions \<Rightarrow> expr call_arg parser" where
  "parse_call_arg c = (
     seq (if_state (\<lambda>s. check_kind TkIdentifier s \<and> kind_ahead s 1 = TkColon)
       (seq lexeme_here (\<lambda>x. seq advance_token (\<lambda>_. produce x)))
       (produce [])) (\<lambda>lb.
     seq (match_kind (TkOp OpAmp)) (\<lambda>io.
     seq (whole_expr c) (\<lambda>v.
     produce (Arg lb io v)))))"

definition parse_call :: "productions \<Rightarrow> expr \<Rightarrow> expr parser" where
  "parse_call c lhs = (
     seq advance_token (\<lambda>_.
     seq make_node (\<lambda>a.
     seq (if_check TkRParen (produce []) (sep_by TkComma (parse_call_arg c))) (\<lambda>args.
     seq (expect_kind TkRParen (quoted '')'' @ '' to close call'')) (\<lambda>_.
     close_node a (expr_range lhs) (\<lambda>h. CallExpr h lhs [] args))))))"

text \<open>The keywords that name members too.\<close>

definition is_member_name :: "token_kind \<Rightarrow> bool" where
  "is_member_name k \<longleftrightarrow>
     k \<in> {TkIdentifier, TkKw KwType, TkKw KwEmbed, TkKw KwDefault, TkKw KwRead}"

definition parse_member :: "productions \<Rightarrow> expr \<Rightarrow> expr parser" where
  "parse_member c lhs = (
     seq (match_kind TkQuestion) (\<lambda>is_chain.
     seq advance_token (\<lambda>_.
     seq make_node (\<lambda>a.
     seq (if_check TkDollar
       (seq (parse_splice c) (\<lambda>e. produce ([], Some e)))
       (if_state (\<lambda>s. is_member_name (kind_ahead s 0))
          (seq lexeme_here (\<lambda>x. produce (x, None)))
          (seq (error_here (''expected member name after '' @ quoted ''.'')) (\<lambda>_. produce ([], None))))) (\<lambda>(nm, splice).
     close_node a (expr_range lhs) (\<lambda>h. MemberExpr h lhs nm splice is_chain))))))"

definition parse_index :: "productions \<Rightarrow> expr \<Rightarrow> expr parser" where
  "parse_index c lhs = (
     seq advance_token (\<lambda>_.
     seq make_node (\<lambda>a.
     seq (if_check TkRBracket (produce []) (sep_by TkComma (whole_expr c))) (\<lambda>is.
     seq (expect_kind TkRBracket (quoted '']'' @ '' to close index'')) (\<lambda>_.
     close_node a (expr_range lhs) (\<lambda>h. IndexExpr h lhs is []))))))"

definition parse_unwrap :: "expr \<Rightarrow> expr parser" where
  "parse_unwrap lhs = (
     seq advance_token (\<lambda>_. seq make_node (\<lambda>a. close_node a (expr_range lhs) (\<lambda>h. UnaryExpr h UnwrapOp lhs))))"

definition again :: "'a parser \<Rightarrow> 'a signal parser" where
  "again p = (seq p (\<lambda>x. produce (Again x)))"

definition postfix_step :: "productions \<Rightarrow> expr \<Rightarrow> expr signal parser" where
  "postfix_step c lhs =
     if_check TkLParen (again (parse_call c lhs))
       (if_state (\<lambda>s. check_kind TkDot s \<or> check_kind TkQuestion s \<and> kind_ahead s 1 = TkDot)
          (again (parse_member c lhs))
          (if_check TkLBracket (again (parse_index c lhs))
             (if_check (TkOp OpBang) (again (parse_unwrap lhs)) (produce (Break lhs)))))"

definition parse_postfix :: "productions \<Rightarrow> expr \<Rightarrow> expr parser" where
  "parse_postfix c = loop (\<lambda>_ _. True) (postfix_step c)"

section \<open>Expressions: prefix operators\<close>

text \<open>A prefix operator and its operand.\<close>

definition prefixed :: "productions \<Rightarrow> source_range \<Rightarrow> (hdr \<Rightarrow> expr \<Rightarrow> expr) \<Rightarrow> expr parser" where
  "prefixed c start f = (
     seq advance_token (\<lambda>_.
     seq make_node (\<lambda>a.
     seq (p_prefix c) (\<lambda>e.
     close_node a start (\<lambda>h. f h e)))))"

definition parse_prefix :: "productions \<Rightarrow> expr parser" where
  "parse_prefix c = (
     seq this_range (\<lambda>start.
     dispatch
       [(TkKw KwCopy, prefixed c start CopyExpr),
        (TkKw KwAwait, prefixed c start AwaitExpr),
        (TkKw KwSpawn, prefixed c start SpawnExpr),
        (TkKw KwThrow, prefixed c start ThrowExpr),
        (TkKw KwTry, prefixed c start (\<lambda>h. TryExpr h Propagating)),
        (TkKw KwTryQuestion, prefixed c start (\<lambda>h. TryExpr h OptionalTry)),
        (TkKw KwTryBang, prefixed c start (\<lambda>h. TryExpr h Forced)),
        (TkOp OpMinus, prefixed c start (\<lambda>h. UnaryExpr h NegOp)),
        (TkOp OpBang, prefixed c start (\<lambda>h. UnaryExpr h NotOp)),
        (TkOp OpTilde, prefixed c start (\<lambda>h. UnaryExpr h BitNotOp)),
        (TkOp OpAmp, prefixed c start AddressOfExpr)]
       (seq (p_primary c) (\<lambda>e. parse_postfix c e))))"

section \<open>Statements and blocks\<close>

text \<open>The pattern, type and value of \<^verbatim>\<open>let\<close> and \<^verbatim>\<open>var\<close>.\<close>

definition parse_binding ::
  "productions \<Rightarrow> source_range \<Rightarrow> string \<Rightarrow>
   (hdr \<Rightarrow> pattern option \<Rightarrow> tyx option \<Rightarrow> expr option \<Rightarrow> stmt) \<Rightarrow> stmt parser"
where
  "parse_binding c start what f = (
     seq advance_token (\<lambda>_.
     seq make_node (\<lambda>a.
     seq (p_pattern c) (\<lambda>p.
     seq (opt_after TkColon (p_type c)) (\<lambda>t.
     seq (expect_kind (TkOp OpAssign) (quoted ''='' @ '' in '' @ what @ '' binding'')) (\<lambda>_.
     seq (whole_expr c) (\<lambda>e.
     close_node a start (\<lambda>h. f h (Some p) t (Some e)))))))))"

text \<open>One binding of \<^verbatim>\<open>with\<close>. A name starts with a small letter, a type does not.\<close>

definition is_name_binding :: "pstate \<Rightarrow> bool" where
  "is_name_binding s \<longleftrightarrow>
     check_kind TkIdentifier s \<and> (kind_ahead s 1 = TkOp OpAssign \<or> kind_ahead s 1 = TkColon)
     \<and> next_lexeme s \<noteq> [] \<and> CHR ''a'' \<le> hd (next_lexeme s) \<and> hd (next_lexeme s) \<le> CHR ''z''"

definition parse_with_binding :: "productions \<Rightarrow> (tyx, expr) with_binding parser" where
  "parse_with_binding c = if_state is_name_binding
     (seq lexeme_here (\<lambda>nm.
        seq (opt_after TkColon (p_type c)) (\<lambda>t.
        seq (expect_kind (TkOp OpAssign) (quoted ''='' @ '' in `with name = expr` binding'')) (\<lambda>_.
        seq (whole_expr c) (\<lambda>v.
        produce (WithBinding nm None t (Some v)))))))
     (seq (p_type c) (\<lambda>t.
        seq (opt_after (TkOp OpAssign) (whole_expr c)) (\<lambda>v.
        produce (WithBinding [] (Some t) None v))))"

definition parse_expr_statement :: "productions \<Rightarrow> source_range \<Rightarrow> stmt parser" where
  "parse_expr_statement c start = (
     seq (whole_expr c) (\<lambda>e.
     if_state (\<lambda>s. is_assign_op (kind_ahead s 0))
       (seq make_node (\<lambda>a.
          seq advance_token (\<lambda>op.
          seq (whole_expr c) (\<lambda>v.
          close_node a start (\<lambda>h. AssignStmt h (token_to_assign (tok_kind op)) (Some e) v)))))
       (seq make_node (\<lambda>a. close_node a start (\<lambda>h. ExprStmt h e)))))"

definition ends_return :: "pstate \<Rightarrow> bool" where
  "ends_return s \<longleftrightarrow> kind_ahead s 0 \<in> {TkNewline, TkSemicolon, TkRBrace, TkEof}"

definition parse_label :: "string parser" where
  "parse_label = if_check TkIdentifier lexeme_here (produce [])"

definition parse_statement :: "productions \<Rightarrow> stmt parser" where
  "parse_statement c = (
     seq this_range (\<lambda>start.
     dispatch
       [(TkKw KwLet, parse_binding c start ''let'' LetStmt),
        (TkKw KwVar, parse_binding c start ''var'' VarStmt),
        (TkKw KwReturn, (seq advance_token (\<lambda>_. seq make_node (\<lambda>a.
           seq (if_state ends_return (produce None) (some_of (whole_expr c))) (\<lambda>v.
           close_node a start (\<lambda>h. ReturnStmt h v)))))),
        (TkKw KwBreak, (seq advance_token (\<lambda>_. seq make_node (\<lambda>a. seq parse_label (\<lambda>lb.
           close_node a start (\<lambda>h. BreakStmt h lb)))))),
        (TkKw KwContinue, (seq advance_token (\<lambda>_. seq make_node (\<lambda>a. seq parse_label (\<lambda>lb.
           close_node a start (\<lambda>h. ContinueStmt h lb)))))),
        (TkKw KwWhile, (seq advance_token (\<lambda>_. seq make_node (\<lambda>a. seq (whole_expr c) (\<lambda>e. seq (p_block c) (\<lambda>b.
           close_node a start (\<lambda>h. WhileStmt h [] e (Some b)))))))),
        (TkKw KwFor, (seq advance_token (\<lambda>_. seq make_node (\<lambda>a. seq (p_pattern c) (\<lambda>p.
           seq (expect_kind (TkKw KwIn) (quoted ''in'' @ '' in for loop'')) (\<lambda>_.
           seq (whole_expr c) (\<lambda>e. seq (p_block c) (\<lambda>b.
           close_node a start (\<lambda>h. ForStmt h [] (Some p) e (Some b)))))))))),
        (TkKw KwWith, (seq advance_token (\<lambda>_. seq make_node (\<lambda>a.
           seq (sep_by TkComma (parse_with_binding c)) (\<lambda>bs. seq (p_block c) (\<lambda>b.
           close_node a start (\<lambda>h. WithStmt h bs (Some b))))))))]
       (parse_expr_statement c start)))"

definition in_body :: "pstate \<Rightarrow> bool" where
  "in_body s \<longleftrightarrow> \<not> check_kind TkRBrace s \<and> \<not> at_eof s"

definition parse_statements :: "productions \<Rightarrow> stmt list parser" where
  "parse_statements c = loop (\<lambda>_. in_body) (\<lambda>ss. (
     seq (parse_statement c) (\<lambda>x.
     seq skip_newlines (\<lambda>_.
     produce (Again (ss @ [x])))))) []"

definition parse_block_expr :: "productions \<Rightarrow> expr parser" where
  "parse_block_expr c = (
     seq this_range (\<lambda>start.
     seq make_node (\<lambda>a.
     seq (expect_kind TkLBrace (quoted ''{'' @ '' to open block'')) (\<lambda>_.
     seq skip_newlines (\<lambda>_.
     seq (parse_statements c) (\<lambda>ss.
     seq (expect_kind TkRBrace (quoted ''}'' @ '' to close block'')) (\<lambda>_.
     close_node a start (\<lambda>h. BlockExpr h ss))))))))"

section \<open>Expressions: primaries\<close>

text \<open>A token that is an expression by itself.\<close>

definition parse_literal :: "source_range \<Rightarrow> (hdr \<Rightarrow> token \<Rightarrow> expr) \<Rightarrow> expr parser" where
  "parse_literal start f = (
     seq make_node (\<lambda>a. seq advance_token (\<lambda>t. close_node a start (\<lambda>h. f h t))))"

definition string_text :: "string \<Rightarrow> string" where
  "string_text x = (if 2 \<le> length x then strip_quotes x else [])"

definition byte_string_text :: "string \<Rightarrow> string" where
  "byte_string_text x = (if 3 \<le> length x then substr x 2 (length x - 3) else [])"

definition interp_segment :: "productions \<Rightarrow> expr segment list \<Rightarrow> expr segment list signal parser" where
  "interp_segment c xs = dispatch
     [(TkInterpStringPart, (seq lexeme_here (\<lambda>x. produce (Again (xs @ [Segment x None]))))),
      (TkLParen, (
         seq advance_token (\<lambda>_.
         seq (whole_expr c) (\<lambda>e.
         seq (expect_kind TkRParen (quoted '')'' @ '' closing string interpolation splice'')) (\<lambda>_.
         produce (Again (xs @ [Segment [] (Some e)])))))))]
     (seq (query (\<lambda>s. kind_ahead s 0)) (\<lambda>got.
        seq (error_here (''unexpected '' @ spelling got @ '' inside interpolated string literal'')) (\<lambda>_.
        seq advance_token (\<lambda>_.
        produce (Again xs)))))"

definition parse_interp_string :: "productions \<Rightarrow> source_range \<Rightarrow> expr parser" where
  "parse_interp_string c start = (
     seq advance_token (\<lambda>_.
     seq make_node (\<lambda>a.
     seq (loop (\<lambda>_ s. \<not> check_kind TkInterpStringEnd s \<and> \<not> at_eof s) (interp_segment c) []) (\<lambda>xs.
     seq (match_kind TkInterpStringEnd) (\<lambda>_.
     close_node a start (\<lambda>h. InterpStringExpr h xs))))))"

definition parse_leading_dot :: "source_range \<Rightarrow> expr parser" where
  "parse_leading_dot start = (
     seq advance_token (\<lambda>_.
     seq make_node (\<lambda>a.
     seq (ident_or (''expected identifier after leading '' @ quoted ''.'')) (\<lambda>nm.
     close_node a start (\<lambda>h. LeadingDotExpr h nm)))))"

definition parse_paren_expr :: "productions \<Rightarrow> source_range \<Rightarrow> expr parser" where
  "parse_paren_expr c start = (
     seq advance_token (\<lambda>_.
     seq (whole_expr c) (\<lambda>first.
     if_match TkComma
       (seq make_node (\<lambda>a.
          seq (sep_by TkComma (whole_expr c)) (\<lambda>more.
          seq (expect_kind TkRParen (quoted '')'' @ '' to close tuple literal'')) (\<lambda>_.
          close_node a start (\<lambda>h. TupleLitExpr h (first # more))))))
       (seq (expect_kind TkRParen (quoted '')'' @ '' to close parenthesized expression'')) (\<lambda>_.
          seq make_node (\<lambda>a.
          close_node a start (\<lambda>h. ParenExpr h first)))))))"

definition parse_vector_lit :: "productions \<Rightarrow> source_range \<Rightarrow> expr parser" where
  "parse_vector_lit c start = (
     seq advance_token (\<lambda>_.
     seq make_node (\<lambda>a.
     seq (if_check TkRBracket (produce []) (sep_by TkComma (whole_expr c))) (\<lambda>xs.
     seq (expect_kind TkRBracket (quoted '']'' @ '' to close vector literal'')) (\<lambda>_.
     close_node a start (\<lambda>h. VectorLitExpr h xs))))))"

text \<open>
  The lookahead that tells a closure from a block: an arrow at the depth of the brace, before a
  newline there. It scans the tokens after the brace, and the code then restores its position.
\<close>

definition opens :: "token_kind \<Rightarrow> bool" where
  "opens k \<longleftrightarrow> k \<in> {TkLBrace, TkLParen, TkLBracket}"

definition closes :: "token_kind \<Rightarrow> bool" where
  "closes k \<longleftrightarrow> k \<in> {TkRBrace, TkRParen, TkRBracket}"

fun closure_ahead :: "int \<Rightarrow> token_kind list \<Rightarrow> bool" where
  "closure_ahead d [] = False"
| "closure_ahead d (k # ks) =
     (if k = TkEof then False
      else let d' = (if opens k then d + 1 else if closes k then d - 1 else d)
           in if closes k \<and> d' = 0 then False
              else if d' = 1 \<and> k = TkFatArrow then True
              else if d' = 1 \<and> k = TkNewline then False
              else closure_ahead d' ks)"

definition kinds_from :: "pstate \<Rightarrow> nat \<Rightarrow> token_kind list" where
  "kinds_from s k = map tok_kind (drop (ps_pos s + k) (ps_tokens s))"

definition closure_params :: "string list parser" where
  "closure_params =
     if_check TkFatArrow (produce [])
       (if_check TkIdentifier
          (seq lexeme_here (\<lambda>x. names_after TkComma ''expected closure parameter name'' [x]))
          (produce []))"

definition parse_closure :: "productions \<Rightarrow> source_range \<Rightarrow> expr parser" where
  "parse_closure c start = (
     seq advance_token (\<lambda>_.
     seq make_node (\<lambda>a.
     seq closure_params (\<lambda>ps.
     seq (expect_kind TkFatArrow (quoted ''=>'' @ '' in closure'')) (\<lambda>_.
     seq skip_newlines (\<lambda>_.
     seq (parse_statements c) (\<lambda>body.
     seq (expect_kind TkRBrace (quoted ''}'' @ '' closing closure'')) (\<lambda>_.
     close_node a start (\<lambda>h. ClosureExpr h ps body)))))))))"

definition parse_if :: "productions \<Rightarrow> source_range \<Rightarrow> expr parser" where
  "parse_if c start = (
     seq advance_token (\<lambda>_.
     seq make_node (\<lambda>a.
     seq (if_match (TkKw KwLet)
       (seq (ident_or (''expected identifier after '' @ quoted ''if let'')) (\<lambda>nm.
          seq (expect_kind (TkOp OpAssign) (quoted ''='' @ '' after '' @ quoted ''if let NAME'')) (\<lambda>_.
          seq (whole_expr c) (\<lambda>e.
          produce (nm, Some e, None)))))
       (seq (whole_expr c) (\<lambda>e. produce ([], None, Some e)))) (\<lambda>(nm, init, cond).
     seq (p_block c) (\<lambda>th.
     seq (opt_after (TkKw KwElse) (if_check (TkKw KwIf) (p_primary c) (p_block c))) (\<lambda>el.
     close_node a start (\<lambda>h. IfExpr h nm init cond (Some th) el)))))))"

definition parse_match_arm :: "productions \<Rightarrow> (pattern, expr) match_arm parser" where
  "parse_match_arm c = if_match (TkKw KwDefault)
     (seq (expect_kind TkColon (quoted '':'' @ '' after '' @ quoted ''default'')) (\<lambda>_.
        seq (whole_expr c) (\<lambda>b.
        produce (MatchArm None None (Some b) True))))
     (seq (expect_kind (TkKw KwCase) (quoted ''case'' @ '' or '' @ quoted ''default'' @ '' in match arm'')) (\<lambda>_.
        seq (p_pattern c) (\<lambda>p.
        seq (opt_after (TkKw KwWhere) (whole_expr c)) (\<lambda>g.
        seq (expect_kind TkColon (quoted '':'' @ '' after case pattern'')) (\<lambda>_.
        seq (whole_expr c) (\<lambda>b.
        produce (MatchArm (Some p) g (Some b) False)))))))"

definition parse_match :: "productions \<Rightarrow> source_range \<Rightarrow> expr parser" where
  "parse_match c start = (
     seq advance_token (\<lambda>_.
     seq make_node (\<lambda>a.
     seq (whole_expr c) (\<lambda>scrutinee.
     seq (expect_kind TkLBrace (quoted ''{'' @ '' to open match body'')) (\<lambda>_.
     seq skip_newlines (\<lambda>_.
     seq (loop (\<lambda>_. in_body) (\<lambda>arms. (
       seq (parse_match_arm c) (\<lambda>arm.
       seq skip_newlines (\<lambda>_.
       produce (Again (arms @ [arm])))))) []) (\<lambda>arms.
     seq (expect_kind TkRBrace (quoted ''}'' @ '' closing match body'')) (\<lambda>_.
     close_node a start (\<lambda>h. MatchExpr h scrutinee arms)))))))))"

text \<open>The variables of a select: its arms, the default body, the delay and the body of the timeout.\<close>

type_synonym select_parts =
  "(pattern, expr) select_arm list \<times> expr option \<times> expr option \<times> expr option"

definition select_default :: "productions \<Rightarrow> select_parts \<Rightarrow> select_parts signal parser" where
  "select_default c v = (
     seq advance_token (\<lambda>_.
     seq (expect_kind TkColon (quoted '':'' @ '' after '' @ quoted ''default'')) (\<lambda>_.
     seq (whole_expr c) (\<lambda>b.
     seq skip_newlines (\<lambda>_.
     case v of (arms, dflt, delay, tbody) \<Rightarrow> produce (Again (arms, Some b, delay, tbody)))))))"

definition select_timeout :: "productions \<Rightarrow> select_parts \<Rightarrow> select_parts signal parser" where
  "select_timeout c v = (
     seq advance_token (\<lambda>_.
     case v of (arms, dflt, delay, tbody) \<Rightarrow> (
       seq (if Option.is_none tbody then produce ()
       else error_here (''a select may have at most one '' @ quoted ''timeout'' @ '' arm'')) (\<lambda>_.
       seq (whole_expr c) (\<lambda>d.
       seq (expect_kind TkColon (quoted '':'' @ '' after select timeout delay'')) (\<lambda>_.
       seq (whole_expr c) (\<lambda>b.
       seq skip_newlines (\<lambda>_.
       produce (Again (arms, dflt, Some d, Some b))))))))))"

definition select_on :: "productions \<Rightarrow> select_parts \<Rightarrow> select_parts signal parser" where
  "select_on c v = (
     seq advance_token (\<lambda>_.
     seq (if_match (TkKw KwLet)
       (seq (p_pattern c) (\<lambda>p.
          seq (expect_kind (TkOp OpAssign) (quoted ''='' @ '' after '' @ quoted ''let'' @ '' pattern in select arm'')) (\<lambda>_.
          produce (Some p))))
       (produce None)) (\<lambda>pat.
     seq (whole_expr c) (\<lambda>ev.
     seq (expect_kind TkColon (quoted '':'' @ '' after select event'')) (\<lambda>_.
     seq (whole_expr c) (\<lambda>b.
     seq skip_newlines (\<lambda>_.
     case v of (arms, dflt, delay, tbody) \<Rightarrow>
       produce (Again (arms @ [SelectArm pat (Some ev) (Some b)], dflt, delay, tbody)))))))))"

definition select_arm_step :: "productions \<Rightarrow> select_parts \<Rightarrow> select_parts signal parser" where
  "select_arm_step c v =
     if_check (TkKw KwDefault) (select_default c v)
       (if_state (\<lambda>s. check_kind TkIdentifier s \<and> next_lexeme s = ''timeout'') (select_timeout c v)
          (if_check (TkKw KwOn) (select_on c v)
             (seq (error_here (''expected '' @ quoted ''on'' @ '', '' @ quoted ''timeout'' @ '', or ''
                  @ quoted ''default'' @ '' in select arm'')) (\<lambda>_.
                produce (Break v)))))"

definition parse_select :: "productions \<Rightarrow> source_range \<Rightarrow> expr parser" where
  "parse_select c start = (
     seq advance_token (\<lambda>_.
     seq make_node (\<lambda>a.
     seq (expect_kind TkLBrace (quoted ''{'' @ '' to open select body'')) (\<lambda>_.
     seq skip_newlines (\<lambda>_.
     seq (loop (\<lambda>_. in_body) (select_arm_step c) ([], None, None, None)) (\<lambda>(arms, dflt, delay, tbody).
     seq (expect_kind TkRBrace (quoted ''}'' @ '' closing select body'')) (\<lambda>_.
     close_node a start (\<lambda>h. SelectExpr h arms dflt delay tbody))))))))"

definition parse_catch_binding :: "productions \<Rightarrow> (string \<times> tyx option) parser" where
  "parse_catch_binding c = if_match TkLParen
     (seq (ident_or (''expected error binding name after '' @ quoted ''catch ('')) (\<lambda>nm.
        seq (expect_kind TkColon (quoted '':'' @ '' after catch binding name'')) (\<lambda>_.
        seq (p_type c) (\<lambda>t.
        seq (expect_kind TkRParen (quoted '')'' @ '' after catch binding annotation'')) (\<lambda>_.
        produce (nm, Some t))))))
     (if_check TkIdentifier
        (seq lexeme_here (\<lambda>x. produce (x, None)))
        (seq (error_here (''expected '' @ quoted ''(NAME: E)'' @ '' or bare '' @ quoted ''NAME''
             @ '' after '' @ quoted ''catch'')) (\<lambda>_.
           produce ([], None))))"

definition parse_do_catch :: "productions \<Rightarrow> source_range \<Rightarrow> expr parser" where
  "parse_do_catch c start = (
     seq advance_token (\<lambda>_.
     seq make_node (\<lambda>a.
     seq (p_block c) (\<lambda>body.
     seq (expect_kind (TkKw KwCatch) (quoted ''catch'' @ '' after '' @ quoted ''do { ... }'')) (\<lambda>_.
     seq (parse_catch_binding c) (\<lambda>(nm, t).
     seq (opt_after (TkKw KwWhere) (whole_expr c)) (\<lambda>g.
     seq (p_block c) (\<lambda>handler.
     close_node a start (\<lambda>h. DoCatchExpr h body nm t g handler)))))))))"

definition parse_comptime :: "productions \<Rightarrow> source_range \<Rightarrow> expr parser" where
  "parse_comptime c start = (
     seq advance_token (\<lambda>_.
     seq make_node (\<lambda>a.
     seq (if_check TkLBrace (p_block c) (whole_expr c)) (\<lambda>e.
     close_node a start (\<lambda>h. ComptimeExpr h e)))))"

section \<open>Expressions: quotes\<close>

definition is_decl_kw :: "token_kind \<Rightarrow> bool" where
  "is_decl_kw k \<longleftrightarrow>
     k \<in> {TkKw KwFunc, TkKw KwStruct, TkKw KwEnum, TkKw KwProtocol, TkKw KwExtension, TkKw KwConst,
          TkKw KwStatic}"

definition kind_of_head :: "token_kind list \<Rightarrow> token_kind" where
  "kind_of_head ks = (case ks of [] \<Rightarrow> TkEof | k # _ \<Rightarrow> k)"

fun skip_parens :: "int \<Rightarrow> token_kind list \<Rightarrow> token_kind list" where
  "skip_parens d [] = []"
| "skip_parens d (k # ks) =
     (if k = TkEof then k # ks
      else if k = TkLParen then skip_parens (d + 1) ks
      else if k = TkRParen then (if d - 1 = 0 then ks else skip_parens (d - 1) ks)
      else skip_parens d ks)"

text \<open>The tokens after a splice, given those after its dollar.\<close>

definition after_splice :: "token_kind list \<Rightarrow> token_kind list" where
  "after_splice ks =
     (if kind_of_head ks = TkLParen then skip_parens 0 ks
      else if kind_of_head ks = TkIdentifier then tl ks
      else ks)"

definition splice_item_ends :: "token_kind list \<Rightarrow> bool" where
  "splice_item_ends ks =
     (let nk = kind_of_head (dropWhile (\<lambda>k. k = TkNewline) (after_splice ks))
      in nk = TkRBrace \<or> nk = TkDollar \<or> is_decl_kw nk)"

text \<open>
  The lookahead that tells a quote of declarations from a quote of an expression, from the token
  after \<^verbatim>\<open>quote\<close> on: the depth in braces, and the last token that is no newline.
\<close>

fun decl_quote_ahead :: "int \<Rightarrow> token_kind \<Rightarrow> token_kind list \<Rightarrow> bool" where
  "decl_quote_ahead d prev [] = False"
| "decl_quote_ahead d prev (k # ks) =
     (if k = TkEof then False
      else if k = TkLBrace then decl_quote_ahead (d + 1) k ks
      else if k = TkRBrace then (if d - 1 = 0 then False else decl_quote_ahead (d - 1) k ks)
      else if d = 1 \<and> is_decl_kw k then True
      else if d = 1 \<and> k = TkDollar \<and> (prev = TkLBrace \<or> prev = TkRBrace) \<and> splice_item_ends ks then True
      else decl_quote_ahead d (if k = TkNewline then prev else k) ks)"

definition quote_item :: "productions \<Rightarrow> decl list \<Rightarrow> decl list parser" where
  "quote_item c ds = if_check TkDollar
     (seq make_node (\<lambda>a.
        seq (p_prefix c) (\<lambda>e.
        produce (ds @ [SpliceDecl (hdr_of a (expr_range e)) (Some e)]))))
     (seq (parse_attributes c) (\<lambda>attrs.
        seq (p_decl c attrs) (\<lambda>d.
        produce (ds @ [case d of Some x \<Rightarrow> x | None \<Rightarrow> null_decl]))))"

definition parse_quote_decls :: "productions \<Rightarrow> source_range \<Rightarrow> expr parser" where
  "parse_quote_decls c start = (
     seq make_node (\<lambda>a.
     seq (loop (\<lambda>_. in_body) (\<lambda>ds. (
       seq (query ps_pos) (\<lambda>pos0.
       seq (quote_item c ds) (\<lambda>ds'.
       seq skip_newlines (\<lambda>_.
       seq (query ps_pos) (\<lambda>now.
       if now = pos0 then (seq (error_here ''unexpected token in declaration quote body'') (\<lambda>_. produce (Break ds')))
       else produce (Again ds'))))))) []) (\<lambda>ds.
     seq (expect_kind TkRBrace (quoted ''}'' @ '' to close quote body'')) (\<lambda>_.
     close_node a start (\<lambda>h. QuoteDeclExpr h ds)))))"

definition parse_quote_expr :: "productions \<Rightarrow> source_range \<Rightarrow> expr parser" where
  "parse_quote_expr c start = (
     seq make_node (\<lambda>a.
     seq (whole_expr c) (\<lambda>e.
     seq skip_newlines (\<lambda>_.
     seq (expect_kind TkRBrace (quoted ''}'' @ '' to close quote body'')) (\<lambda>_.
     close_node a start (\<lambda>h. QuoteExpr h (Some e)))))))"

definition parse_quote :: "productions \<Rightarrow> source_range \<Rightarrow> expr parser" where
  "parse_quote c start = (
     seq advance_token (\<lambda>_.
     seq (query (\<lambda>s. decl_quote_ahead 0 TkEof (kinds_from s 0))) (\<lambda>is_decl_quote.
     seq (expect_kind TkLBrace (quoted ''{'' @ '' to open quote body'')) (\<lambda>_.
     seq skip_newlines (\<lambda>_.
     if is_decl_quote then parse_quote_decls c start else parse_quote_expr c start)))))"

section \<open>Expressions: intrinsics and macro calls\<close>

definition parse_embed :: "source_range \<Rightarrow> expr parser" where
  "parse_embed start = (
     seq (expect_kind TkLParen (quoted ''('' @ '' after @embed'')) (\<lambda>_.
     seq make_node (\<lambda>a.
     seq (if_check TkStringLit
       (seq lexeme_here (\<lambda>x. produce (string_text x)))
       (seq (error_here ''@embed requires a string literal path'') (\<lambda>_. produce []))) (\<lambda>path.
     seq (expect_kind TkRParen (quoted '')'' @ '' after @embed path'')) (\<lambda>_.
     close_node a start (\<lambda>h. EmbedExpr h path))))))"

definition parse_macro_call :: "productions \<Rightarrow> source_range \<Rightarrow> string \<Rightarrow> expr parser" where
  "parse_macro_call c start nm = (
     seq make_node (\<lambda>a.
     seq (expect_kind TkLParen (quoted ''('' @ '' after macro name'')) (\<lambda>_.
     seq (if_check TkRParen (produce []) (sep_by TkComma (whole_expr c))) (\<lambda>args.
     seq (expect_kind TkRParen (quoted '')'' @ '' closing macro arguments'')) (\<lambda>_.
     close_node a start (\<lambda>h. MacroCallExpr h nm args None))))))"

definition parse_intrinsic :: "productions \<Rightarrow> source_range \<Rightarrow> expr parser" where
  "parse_intrinsic c start = (
     seq advance_token (\<lambda>_.
     if_state (\<lambda>s. check_kind TkIdentifier s \<or> check_kind (TkKw KwEmbed) s)
       (seq lexeme_here (\<lambda>nm.
          if nm = ''embed'' then parse_embed start else parse_macro_call c start nm))
       (seq (error_here (''expected intrinsic name after '' @ quoted ''@'')) (\<lambda>_.
          seq make_node (\<lambda>a.
          close_node a start (\<lambda>h. IdentExpr h ''<error>''))))))"

section \<open>Expressions: the switch\<close>

definition parse_no_expr :: "source_range \<Rightarrow> expr parser" where
  "parse_no_expr start = (
     seq (query (\<lambda>s. kind_ahead s 0)) (\<lambda>got.
     seq (error_here (''expected expression, got '' @ spelling got)) (\<lambda>_.
     seq (if_state at_eof (produce ()) (seq advance_token (\<lambda>_. produce ()))) (\<lambda>_.
     seq make_node (\<lambda>a.
     produce (IdentExpr (hdr_of a start) ''<error>''))))))"

definition parse_primary :: "productions \<Rightarrow> expr parser" where
  "parse_primary c = (
     seq this_range (\<lambda>start.
     dispatch
       [(TkIntLit, parse_literal start (\<lambda>h t. IntLit h (tok_lexeme t))),
        (TkFloatLit, parse_literal start (\<lambda>h t. FloatLit h (tok_lexeme t))),
        (TkStringLit, parse_literal start (\<lambda>h t. StringLit h (string_text (tok_lexeme t)))),
        (TkInterpStringBegin, parse_interp_string c start),
        (TkByteStringLit, parse_literal start (\<lambda>h t. ByteStringLit h (byte_string_text (tok_lexeme t)))),
        (TkCharLit, parse_literal start (\<lambda>h t. CharLit h (string_text (tok_lexeme t)))),
        (TkKw KwTrue, parse_literal start (\<lambda>h t. BoolLit h True)),
        (TkKw KwFalse, parse_literal start (\<lambda>h t. BoolLit h False)),
        (TkKw KwNil, parse_literal start (\<lambda>h t. NilLit h)),
        (TkKw KwSelfLower, parse_literal start (\<lambda>h t. SelfExpr h)),
        (TkIdentifier, parse_literal start (\<lambda>h t. IdentExpr h (tok_lexeme t))),
        (TkDot, parse_leading_dot start),
        (TkLParen, parse_paren_expr c start),
        (TkLBracket, parse_vector_lit c start),
        (TkLBrace, if_state (\<lambda>s. closure_ahead 1 (kinds_from s 1)) (parse_closure c start) (p_block c)),
        (TkKw KwIf, parse_if c start),
        (TkKw KwMatch, parse_match c start),
        (TkKw KwSelect, parse_select c start),
        (TkKw KwDo, parse_do_catch c start),
        (TkKw KwComptime, parse_comptime c start),
        (TkKw KwQuote, parse_quote c start),
        (TkDollar, parse_splice c),
        (TkAt, parse_intrinsic c start)]
       (parse_no_expr start)))"

section \<open>Declarations: functions\<close>

text \<open>The clause adds its protocols to the first generic parameter of that name.\<close>

definition add_bound :: "'t list \<Rightarrow> 't generic_param \<Rightarrow> 't generic_param" where
  "add_bound ts g =
     GenericParam (gp_name g) (gp_is_const g) (gp_const_type g) (gp_bound g @ ts) (gp_range g)"

fun add_bound_to :: "string \<Rightarrow> 't list \<Rightarrow> 't generic_param list \<Rightarrow> 't generic_param list" where
  "add_bound_to x ts [] = []"
| "add_bound_to x ts (g # gs) = (if gp_name g = x then add_bound ts g # gs else g # add_bound_to x ts gs)"

definition where_clause ::
  "productions \<Rightarrow> tyx generic_param list \<Rightarrow> (bool \<times> tyx generic_param list) signal parser"
where
  "where_clause c gs = if_check TkIdentifier
     (seq advance_token (\<lambda>t.
        seq (expect_kind TkColon (quoted '':'' @ '' after the parameter name in a '' @ quoted ''where'' @ '' clause'')) (\<lambda>_.
        seq (sep_by (TkOp OpAmp) (p_type c)) (\<lambda>ps.
        seq (case find (\<lambda>g. gp_name g = tok_lexeme t) gs of
           None \<Rightarrow> (
             seq (emit_error (tok_range t) (quoted ''where'' @ '' clause refers to unknown generic parameter ''
               @ quoted (tok_lexeme t))) (\<lambda>_.
             produce gs))
         | Some g \<Rightarrow>
             if gp_is_const g then (
               seq (emit_error (tok_range t) (''const generic parameter '' @ quoted (tok_lexeme t)
                 @ '' cannot have a protocol bound'')) (\<lambda>_.
               produce gs))
             else produce (add_bound_to (tok_lexeme t) ps gs)) (\<lambda>gs'.
        produce (Again (False, gs')))))))
     (seq (error_here (''expected a generic parameter name in '' @ quoted ''where'' @ '' clause'')) (\<lambda>_.
        produce (Break (False, gs))))"

definition parse_where_opt :: "productions \<Rightarrow> tyx generic_param list \<Rightarrow> tyx generic_param list parser" where
  "parse_where_opt c gs = if_match (TkKw KwWhere)
     (seq (loop (\<lambda>(first, gs) s. first \<or> check_kind TkComma s)
          (\<lambda>(first, gs). if first then where_clause c gs else (seq advance_token (\<lambda>_. where_clause c gs)))
          (True, gs)) (\<lambda>(first, gs').
        produce gs'))
     (produce gs)"

definition parse_func ::
  "productions \<Rightarrow> expr attribute list \<Rightarrow> visibility \<Rightarrow> bool \<Rightarrow> recv_mode \<Rightarrow> bool \<Rightarrow> decl parser"
where
  "parse_func c attrs vis is_async recv is_comptime = (
     seq this_range (\<lambda>start.
     seq advance_token (\<lambda>_.
     seq make_node (\<lambda>a.
     seq (dispatch
       [(TkDollar, (seq (parse_splice c) (\<lambda>e. produce ([], Some e)))),
        (TkIdentifier, (seq lexeme_here (\<lambda>x. produce (x, None))))]
       (seq (error_here (''expected function name after '' @ quoted ''func'')) (\<lambda>_. produce ([], None)))) (\<lambda>(nm, splice).
     seq (parse_generics_opt c) (\<lambda>gs.
     seq (parse_params c) (\<lambda>ps.
     seq (parse_effects_opt c) (\<lambda>fx.
     seq (opt_after TkArrow (p_type c)) (\<lambda>res.
     seq (parse_where_opt c gs) (\<lambda>gs'.
     seq (if_check TkLBrace (some_of (p_block c)) (produce None)) (\<lambda>body.
     close_node a start
       (\<lambda>h. FuncDecl h attrs vis is_async is_comptime recv nm splice gs' ps fx res body))))))))))))"

section \<open>Declarations: types\<close>

text \<open>The end of an item that is none: recovery, and whether it moved.\<close>

definition recover :: "unit parser \<Rightarrow> 'a \<Rightarrow> 'a signal parser" where
  "recover after v = (
     seq (query ps_pos) (\<lambda>pos0.
     seq sync_to_decl (\<lambda>_.
     seq (query ps_pos) (\<lambda>now.
     if now = pos0 then produce (Break v) else (seq after (\<lambda>_. produce (Again v)))))))"

text \<open>The modes of a method, which the code accepts in this order and all together.\<close>

definition method_modes :: "(bool \<times> recv_mode) parser" where
  "method_modes = (
     seq (match_kind (TkKw KwAsync)) (\<lambda>is_async.
     seq (match_kind (TkKw KwInout)) (\<lambda>io.
     seq (match_kind (TkKw KwSink)) (\<lambda>sk.
     produce (is_async, if sk then RecvSink else if io then RecvInout else RecvNone)))))"

type_synonym struct_parts = "(tyx, expr) field list \<times> decl list \<times> expr option"

definition struct_method :: "productions \<Rightarrow> expr attribute list \<Rightarrow> struct_parts \<Rightarrow> struct_parts signal parser" where
  "struct_method c attrs v = (
     seq method_modes (\<lambda>(is_async, recv).
     seq (parse_func c attrs Internal is_async recv False) (\<lambda>m.
     seq skip_newlines (\<lambda>_.
     case v of (fs, ms, d) \<Rightarrow> produce (Again (fs, ms @ [m], d))))))"

definition struct_deinit :: "productions \<Rightarrow> struct_parts \<Rightarrow> struct_parts signal parser" where
  "struct_deinit c v = (
     seq advance_token (\<lambda>_.
     seq (p_block c) (\<lambda>b.
     seq skip_newlines (\<lambda>_.
     case v of (fs, ms, d) \<Rightarrow> produce (Again (fs, ms, Some b))))))"

definition struct_field ::
  "productions \<Rightarrow> expr attribute list \<Rightarrow> field_kind \<Rightarrow> struct_parts \<Rightarrow> struct_parts signal parser"
where
  "struct_field c attrs kind v = (
     seq advance_token (\<lambda>_.
     seq (query last_range) (\<lambda>fstart.
     seq (ident_or ''expected field name'') (\<lambda>nm.
     seq (expect_kind TkColon (quoted '':'' @ '' before field type'')) (\<lambda>_.
     seq (p_type c) (\<lambda>t.
     seq (span_from fstart) (\<lambda>r.
     seq skip_newlines (\<lambda>_.
     case v of (fs, ms, d) \<Rightarrow> produce (Again (fs @ [Field attrs kind nm (Some t) r], ms, d))))))))))"

definition struct_item :: "productions \<Rightarrow> struct_parts \<Rightarrow> struct_parts signal parser" where
  "struct_item c v = (
     seq (parse_attributes c) (\<lambda>attrs.
     dispatch
       [(TkKw KwFunc, struct_method c attrs v),
        (TkKw KwAsync, struct_method c attrs v),
        (TkKw KwInout, struct_method c attrs v),
        (TkKw KwSink, struct_method c attrs v),
        (TkKw KwDeinit, struct_deinit c v),
        (TkKw KwLet, struct_field c attrs FieldLet v),
        (TkKw KwVar, struct_field c attrs FieldVar v),
        (TkKw KwEmbed, struct_field c attrs FieldEmbed v)]
       (seq (error_here (''expected '' @ quoted ''let'' @ '', '' @ quoted ''var'' @ '', '' @ quoted ''embed''
            @ '', or '' @ quoted ''func'' @ '' inside struct'')) (\<lambda>_.
          recover (produce ()) v))))"

definition parse_struct ::
  "productions \<Rightarrow> expr attribute list \<Rightarrow> visibility \<Rightarrow> bool \<Rightarrow> decl parser"
where
  "parse_struct c attrs vis is_linear = (
     seq this_range (\<lambda>start.
     seq advance_token (\<lambda>_.
     seq make_node (\<lambda>a.
     seq (ident_or ''expected struct name'') (\<lambda>nm.
     seq (parse_generics_opt c) (\<lambda>gs.
     seq (expect_kind TkLBrace (quoted ''{'' @ '' to open struct body'')) (\<lambda>_.
     seq skip_newlines (\<lambda>_.
     seq (loop (\<lambda>_. in_body) (struct_item c) ([], [], None)) (\<lambda>(fs, ms, d).
     seq (expect_kind TkRBrace (quoted ''}'' @ '' to close struct body'')) (\<lambda>_.
     close_node a start (\<lambda>h. StructDecl h attrs vis is_linear nm gs fs ms d)))))))))))"

text \<open>The payload of an enum case: labels and types.\<close>

definition case_payload_item :: "productions \<Rightarrow> (string \<times> tyx) parser" where
  "case_payload_item c = (
     seq (if_state (\<lambda>s. check_kind TkIdentifier s \<and> kind_ahead s 1 = TkColon)
       (seq lexeme_here (\<lambda>x. seq advance_token (\<lambda>_. produce x)))
       (produce [])) (\<lambda>lb.
     seq (p_type c) (\<lambda>t.
     produce (lb, t))))"

type_synonym enum_parts = "tyx enum_case list \<times> decl list"

definition enum_case_item :: "productions \<Rightarrow> enum_parts \<Rightarrow> enum_parts signal parser" where
  "enum_case_item c v = (
     seq advance_token (\<lambda>_.
     seq (query last_range) (\<lambda>cstart.
     seq (ident_or ''expected enum case name'') (\<lambda>nm.
     seq (if_match TkLParen
       (seq (if_check TkRParen (produce []) (sep_by TkComma (case_payload_item c))) (\<lambda>xs.
          seq (expect_kind TkRParen (''closing '' @ quoted '')'' @ '' of enum case payload'')) (\<lambda>_.
          produce xs)))
       (produce [])) (\<lambda>payload.
     seq (span_from cstart) (\<lambda>r.
     seq skip_newlines (\<lambda>_.
     case v of (cs, ms) \<Rightarrow> produce (Again (cs @ [EnumCase nm payload r], ms)))))))))"

definition enum_member :: "productions \<Rightarrow> enum_parts \<Rightarrow> enum_parts signal parser" where
  "enum_member c v = (
     seq (parse_attributes c) (\<lambda>attrs.
     if_check (TkKw KwFunc)
       (seq (parse_func c attrs Internal False RecvNone False) (\<lambda>m.
          seq skip_newlines (\<lambda>_.
          case v of (cs, ms) \<Rightarrow> produce (Again (cs, ms @ [m])))))
       (seq (error_here (''expected '' @ quoted ''case'' @ '' or member in enum body'')) (\<lambda>_.
          recover skip_newlines v))))"

definition parse_enum :: "productions \<Rightarrow> expr attribute list \<Rightarrow> visibility \<Rightarrow> decl parser" where
  "parse_enum c attrs vis = (
     seq this_range (\<lambda>start.
     seq advance_token (\<lambda>_.
     seq make_node (\<lambda>a.
     seq (ident_or ''expected enum name'') (\<lambda>nm.
     seq (parse_generics_opt c) (\<lambda>gs.
     seq (expect_kind TkLBrace (quoted ''{'' @ '' to open enum body'')) (\<lambda>_.
     seq skip_newlines (\<lambda>_.
     seq (loop (\<lambda>_. in_body)
       (\<lambda>v. if_check (TkKw KwCase) (enum_case_item c v) (enum_member c v)) ([], [])) (\<lambda>(cs, ms).
     seq (expect_kind TkRBrace (quoted ''}'' @ '' to close enum body'')) (\<lambda>_.
     close_node a start (\<lambda>h. EnumDecl h attrs vis nm gs cs ms)))))))))))"

type_synonym protocol_parts = "tyx assoc_type list \<times> decl list"

definition protocol_assoc :: "productions \<Rightarrow> protocol_parts \<Rightarrow> protocol_parts signal parser" where
  "protocol_assoc c v = (
     seq advance_token (\<lambda>_.
     seq (ident_or ''expected associated type name'') (\<lambda>nm.
     seq (if_match TkColon (sep_by (TkOp OpAmp) (p_type c)) (produce [])) (\<lambda>b.
     seq skip_newlines (\<lambda>_.
     case v of (ts, rs) \<Rightarrow> produce (Again (ts @ [AssocType nm b], rs)))))))"

definition protocol_requirement :: "productions \<Rightarrow> protocol_parts \<Rightarrow> protocol_parts signal parser" where
  "protocol_requirement c v = (
     seq method_modes (\<lambda>(is_async, recv).
     if_state (\<lambda>s. check_kind (TkKw KwFunc) s \<or> check_kind (TkKw KwComptime) s)
       (seq (match_kind (TkKw KwComptime)) (\<lambda>_.
          seq (parse_func c [] Internal is_async recv False) (\<lambda>m.
          seq skip_newlines (\<lambda>_.
          case v of (ts, rs) \<Rightarrow> produce (Again (ts, rs @ [m]))))))
       (seq (error_here ''expected protocol requirement'') (\<lambda>_.
          recover skip_newlines v))))"

text \<open>The types after a colon: the protocols that a protocol refines or a type conforms to.\<close>

definition parse_conformances :: "productions \<Rightarrow> tyx list parser" where
  "parse_conformances c = if_match TkColon (sep_by TkComma (p_type c)) (produce [])"

definition parse_protocol :: "productions \<Rightarrow> visibility \<Rightarrow> decl parser" where
  "parse_protocol c vis = (
     seq this_range (\<lambda>start.
     seq advance_token (\<lambda>_.
     seq make_node (\<lambda>a.
     seq (ident_or ''expected protocol name'') (\<lambda>nm.
     seq (parse_generics_opt c) (\<lambda>gs.
     seq (parse_conformances c) (\<lambda>refines.
     seq (expect_kind TkLBrace (quoted ''{'' @ '' to open protocol body'')) (\<lambda>_.
     seq skip_newlines (\<lambda>_.
     seq (loop (\<lambda>_. in_body)
       (\<lambda>v. if_check (TkKw KwType) (protocol_assoc c v) (protocol_requirement c v)) ([], [])) (\<lambda>(ts, rs).
     seq (expect_kind TkRBrace (quoted ''}'' @ '' to close protocol body'')) (\<lambda>_.
     close_node a start (\<lambda>h. ProtocolDecl h [] vis nm gs refines ts rs))))))))))))"

definition extension_member :: "productions \<Rightarrow> decl list \<Rightarrow> decl list signal parser" where
  "extension_member c ms = (
     seq (parse_attributes c) (\<lambda>attrs.
     seq (p_decl c attrs) (\<lambda>d.
     case d of
       Some m \<Rightarrow> (seq skip_newlines (\<lambda>_. produce (Again (ms @ [m]))))
     | None \<Rightarrow> recover skip_newlines ms)))"

definition parse_extension :: "productions \<Rightarrow> expr attribute list \<Rightarrow> decl parser" where
  "parse_extension c attrs = (
     seq this_range (\<lambda>start.
     seq advance_token (\<lambda>_.
     seq make_node (\<lambda>a.
     seq (p_type c) (\<lambda>t.
     seq (parse_conformances c) (\<lambda>cs.
     seq (expect_kind TkLBrace (quoted ''{'' @ '' to open extension body'')) (\<lambda>_.
     seq skip_newlines (\<lambda>_.
     seq (loop (\<lambda>_. in_body) (extension_member c) []) (\<lambda>ms.
     seq (expect_kind TkRBrace (quoted ''}'' @ '' to close extension body'')) (\<lambda>_.
     close_node a start (\<lambda>h. ExtensionDecl h attrs Internal (Some t) cs ms)))))))))))"

section \<open>Declarations: names\<close>

definition parse_opaque :: "productions \<Rightarrow> visibility \<Rightarrow> decl parser" where
  "parse_opaque c vis = (
     seq this_range (\<lambda>start.
     seq advance_token (\<lambda>_.
     seq (expect_kind (TkKw KwType) (quoted ''type'' @ '' after '' @ quoted ''opaque'')) (\<lambda>_.
     seq make_node (\<lambda>a.
     seq (ident_or ''expected opaque type name'') (\<lambda>nm.
     seq (expect_kind (TkOp OpAssign) (quoted ''='' @ '' in opaque type declaration'')) (\<lambda>_.
     seq (p_type c) (\<lambda>t.
     close_node a start (\<lambda>h. OpaqueDecl h vis nm (Some t))))))))))"

definition parse_const :: "productions \<Rightarrow> visibility \<Rightarrow> decl parser" where
  "parse_const c vis = (
     seq this_range (\<lambda>start.
     seq advance_token (\<lambda>_.
     seq make_node (\<lambda>a.
     seq (ident_or ''expected const name'') (\<lambda>nm.
     seq (opt_after TkColon (p_type c)) (\<lambda>t.
     seq (expect_kind (TkOp OpAssign) (quoted ''='' @ '' after const declaration'')) (\<lambda>_.
     seq (whole_expr c) (\<lambda>e.
     close_node a start (\<lambda>h. ConstDecl h vis nm t (Some e))))))))))"

definition parse_static :: "productions \<Rightarrow> expr attribute list \<Rightarrow> visibility \<Rightarrow> decl parser" where
  "parse_static c attrs vis = (
     seq this_range (\<lambda>start.
     seq advance_token (\<lambda>_.
     seq make_node (\<lambda>a.
     seq (ident_or ''expected static name'') (\<lambda>nm.
     seq (expect_kind TkColon (quoted '':'' @ '' after static name'')) (\<lambda>_.
     seq (p_type c) (\<lambda>t.
     seq (if list_ex (\<lambda>a. attr_name a = ''noinit'') attrs then produce None
           else (seq (expect_kind (TkOp OpAssign) (quoted ''='' @ '' after static type'')) (\<lambda>_.
                   some_of (whole_expr c)))) (\<lambda>v.
     close_node a start (\<lambda>h. StaticDecl h vis nm (Some t) v attrs
       (list_ex (\<lambda>a. attr_name a = ''noinit'') attrs))))))))))"

definition parse_derive :: "productions \<Rightarrow> decl parser" where
  "parse_derive c = (
     seq this_range (\<lambda>start.
     seq advance_token (\<lambda>_.
     seq make_node (\<lambda>a.
     seq (expect_kind TkLParen (quoted ''('' @ '' after '' @ quoted ''derive'')) (\<lambda>_.
     seq (if_check TkRParen (produce []) (sep_by TkComma (p_type c))) (\<lambda>ps.
     seq (expect_kind TkRParen (''closing '' @ quoted '')'' @ '' in derive(...)'')) (\<lambda>_.
     seq (expect_kind (TkKw KwFor) (quoted ''for'' @ '' in derive(...) for T'')) (\<lambda>_.
     seq (p_type c) (\<lambda>t.
     close_node a start (\<lambda>h. DeriveDecl h ps (Some t)))))))))))"

section \<open>Declarations: the switch\<close>

definition takes_comptime :: "pstate \<Rightarrow> bool" where
  "takes_comptime s \<longleftrightarrow>
     check_kind (TkKw KwComptime) s
     \<and> kind_ahead s 1 \<in> {TkKw KwFunc, TkKw KwAsync, TkKw KwInout, TkKw KwSink}"

text \<open>Taking the next token if a condition on the state holds.\<close>

definition take_if :: "(pstate \<Rightarrow> bool) \<Rightarrow> bool parser" where
  "take_if P = if_state P (seq advance_token (\<lambda>_. produce True)) (produce False)"

definition func_modes :: "(bool \<times> bool \<times> recv_mode) parser" where
  "func_modes = (
     seq (take_if takes_comptime) (\<lambda>is_comptime.
     seq (match_kind (TkKw KwAsync)) (\<lambda>is_async.
     seq (take_if (\<lambda>s. check_kind (TkKw KwInout) s \<and> kind_ahead s 1 = TkKw KwFunc)) (\<lambda>io.
     seq (take_if (\<lambda>s. \<not> io \<and> check_kind (TkKw KwSink) s \<and> kind_ahead s 1 = TkKw KwFunc)) (\<lambda>sk.
     produce (is_comptime, is_async, if io then RecvInout else if sk then RecvSink else RecvNone))))))"

definition parse_decl :: "productions \<Rightarrow> expr attribute list \<Rightarrow> decl option parser" where
  "parse_decl c attrs = (
     seq parse_visibility (\<lambda>vis.
     seq func_modes (\<lambda>(is_comptime, is_async, recv).
     dispatch
       [(TkKw KwFunc, some_of (parse_func c attrs vis is_async recv is_comptime)),
        (TkKw KwStruct, some_of (parse_struct c attrs vis False)),
        (TkKw KwLinear, (
           seq advance_token (\<lambda>_.
           if_check (TkKw KwStruct) (some_of (parse_struct c attrs vis True))
             (seq (error_here (''expected '' @ quoted ''struct'' @ '' after '' @ quoted ''linear'')) (\<lambda>_.
                produce None))))),
        (TkKw KwEnum, some_of (parse_enum c attrs vis)),
        (TkKw KwProtocol, some_of (parse_protocol c vis)),
        (TkKw KwExtension, some_of (parse_extension c attrs)),
        (TkKw KwOpaque, some_of (parse_opaque c vis)),
        (TkKw KwConst, some_of (parse_const c vis)),
        (TkKw KwStatic, some_of (parse_static c attrs vis)),
        (TkKw KwDerive, some_of (parse_derive c))]
       (seq (query (\<lambda>s. kind_ahead s 0)) (\<lambda>got.
          seq (error_here (''expected declaration, got '' @ spelling got)) (\<lambda>_.
          produce None))))))"

section \<open>The knot\<close>

fun type_at :: "nat \<Rightarrow> tyx parser"
  and pattern_at :: "nat \<Rightarrow> pattern parser"
  and block_at :: "nat \<Rightarrow> expr parser"
  and expr_at :: "nat \<Rightarrow> nat \<Rightarrow> expr parser"
  and prefix_at :: "nat \<Rightarrow> expr parser"
  and primary_at :: "nat \<Rightarrow> expr parser"
  and decl_at :: "nat \<Rightarrow> expr attribute list \<Rightarrow> decl option parser"
where
  "type_at 0 s = None"
| "type_at (Suc n) s = parse_type \<lparr>p_type = type_at n, p_pattern = pattern_at n, p_block = block_at n,
     p_expr = expr_at n, p_prefix = prefix_at n, p_primary = primary_at n, p_decl = decl_at n\<rparr> s"
| "pattern_at 0 s = None"
| "pattern_at (Suc n) s = parse_pattern \<lparr>p_type = type_at n, p_pattern = pattern_at n, p_block = block_at n,
     p_expr = expr_at n, p_prefix = prefix_at n, p_primary = primary_at n, p_decl = decl_at n\<rparr> s"
| "block_at 0 s = None"
| "block_at (Suc n) s = parse_block_expr \<lparr>p_type = type_at n, p_pattern = pattern_at n, p_block = block_at n,
     p_expr = expr_at n, p_prefix = prefix_at n, p_primary = primary_at n, p_decl = decl_at n\<rparr> s"
| "expr_at 0 min_bp s = None"
| "expr_at (Suc n) min_bp s = parse_expr_bp \<lparr>p_type = type_at n, p_pattern = pattern_at n, p_block = block_at n,
     p_expr = expr_at n, p_prefix = prefix_at n, p_primary = primary_at n, p_decl = decl_at n\<rparr> min_bp s"
| "prefix_at 0 s = None"
| "prefix_at (Suc n) s = parse_prefix \<lparr>p_type = type_at n, p_pattern = pattern_at n, p_block = block_at n,
     p_expr = expr_at n, p_prefix = prefix_at n, p_primary = primary_at n, p_decl = decl_at n\<rparr> s"
| "primary_at 0 s = None"
| "primary_at (Suc n) s = parse_primary \<lparr>p_type = type_at n, p_pattern = pattern_at n, p_block = block_at n,
     p_expr = expr_at n, p_prefix = prefix_at n, p_primary = primary_at n, p_decl = decl_at n\<rparr> s"
| "decl_at 0 attrs s = None"
| "decl_at (Suc n) attrs s = parse_decl \<lparr>p_type = type_at n, p_pattern = pattern_at n, p_block = block_at n,
     p_expr = expr_at n, p_prefix = prefix_at n, p_primary = primary_at n, p_decl = decl_at n\<rparr> attrs s"

definition productions_at :: "nat \<Rightarrow> productions" where
  "productions_at n = \<lparr>p_type = type_at n, p_pattern = pattern_at n, p_block = block_at n,
     p_expr = expr_at n, p_prefix = prefix_at n, p_primary = primary_at n, p_decl = decl_at n\<rparr>"

section \<open>The whole file\<close>

definition parse_module :: "decl parser" where
  "parse_module = (
     seq this_range (\<lambda>start.
     seq advance_token (\<lambda>_.
     seq make_node (\<lambda>a.
     if_check TkIdentifier
       (seq lexeme_here (\<lambda>x.
          seq (names_after TkDot (''expected identifier after '' @ quoted ''.'' @ '' in module path'') [x]) (\<lambda>path.
          close_node a start (\<lambda>h. ModuleDecl h path))))
       (seq (error_here (''expected module name after '' @ quoted ''module'')) (\<lambda>_.
          produce (ModuleDecl (hdr_of a no_range) [])))))))"

text \<open>The quotes of a header name are dropped by \<^verbatim>\<open>substr\<close>, which throws on an empty lexeme.\<close>

definition parse_c_header :: "(bool \<times> string) parser" where
  "parse_c_header = (
     seq advance_token (\<lambda>_.
     if_check TkStringLit
       (seq lexeme_here (\<lambda>x.
          if x = [] then throw ''std::out_of_range'' else produce (True, strip_quotes x)))
       (seq (error_here (''expected string literal after '' @ quoted ''import c'')) (\<lambda>_. produce (False, [])))))"

definition parse_import :: "decl parser" where
  "parse_import = (
     seq this_range (\<lambda>start.
     seq advance_token (\<lambda>_.
     seq make_node (\<lambda>a.
     if_state (\<lambda>s. check_kind TkIdentifier s \<and> next_lexeme s = ''c'')
       (seq parse_c_header (\<lambda>(is_c, header).
          close_node a start (\<lambda>h. ImportDecl h is_c header [])))
       (seq (if_check TkIdentifier
            (seq lexeme_here (\<lambda>x.
               names_after TkDot (''expected identifier after '' @ quoted ''.'' @ '' in import'') [x]))
            (seq (error_here (''expected identifier after '' @ quoted ''import'')) (\<lambda>_. produce []))) (\<lambda>path.
          close_node a start (\<lambda>h. ImportDecl h False [] path)))))))"

definition parse_imports :: "decl list parser" where
  "parse_imports = loop (\<lambda>_. check_kind (TkKw KwImport)) (\<lambda>is. (
     seq parse_import (\<lambda>d. seq skip_newlines (\<lambda>_. produce (Again (is @ [d])))))) []"

definition unit_step :: "productions \<Rightarrow> decl list \<Rightarrow> decl list signal parser" where
  "unit_step c ds = if_state (\<lambda>s. should_stop (ps_reporter s))
     (produce (Break ds))
     (seq (parse_attributes c) (\<lambda>attrs.
        if_state at_eof (produce (Break ds))
          (seq (p_decl c attrs) (\<lambda>d.
             seq (case d of
                Some x \<Rightarrow> produce (ds @ [x])
              | None \<Rightarrow> (seq sync_to_decl (\<lambda>_. produce ds))) (\<lambda>ds'.
             seq skip_newlines (\<lambda>_.
             produce (Again ds')))))))"

definition parse_unit :: "nat \<Rightarrow> compilation_unit parser" where
  "parse_unit n = (
     seq skip_newlines (\<lambda>_.
     seq (if_check (TkKw KwModule)
       (seq parse_module (\<lambda>d. seq skip_newlines (\<lambda>_. produce (Some d))))
       (produce None)) (\<lambda>m.
     seq parse_imports (\<lambda>is.
     seq (loop (\<lambda>_ s. \<not> at_eof s) (unit_step (productions_at n)) []) (\<lambda>ds.
     produce \<lparr>unit_module = m, unit_imports = is, unit_decls = ds\<rparr>)))))"

text \<open>
  The fuel for a file. A production that starts with \<open>k\<close> tokens before the last one needs at most
  \<open>8 k + 8\<close>, since each level of the recursion that takes no token goes down one of seven ranks.
\<close>

definition fuel_for :: "token list \<Rightarrow> nat" where
  "fuel_for ts = 8 * length ts + 8"

definition parse_file :: "token list \<Rightarrow> reporter \<Rightarrow> compilation_unit reply option" where
  "parse_file ts rep = parse_unit (fuel_for ts) (new_parser ts rep 1)"

end
