(* ===== verification/Parser_Laws.thy ===== *)
theory Parser_Laws
  imports Parser
begin

text \<open>
  What every production keeps and why the parser returns. A production moves the cursor forward
  only, never past the end-of-file token; it appends error diagnostics and nothing else to the
  reporter; and it returns whenever its fuel is above a rank of its position. One judgement, \<open>behaves\<close>,
  carries this through the combinators, and one rule per combinator proves it for each production.
\<close>

section \<open>Positions\<close>

definition cursor_ok :: "pstate \<Rightarrow> bool" where
  "cursor_ok s \<longleftrightarrow>
     ps_tokens s \<noteq> [] \<and> tok_kind (last (ps_tokens s)) = TkEof \<and> ps_pos s < length (ps_tokens s)"

definition left :: "pstate \<Rightarrow> nat" where
  "left s = length (ps_tokens s) - 1 - ps_pos s"

definition is_error :: "diagnostic \<Rightarrow> bool" where
  "is_error d \<longleftrightarrow> diag_severity d = Error"

definition adds_errors :: "reporter \<Rightarrow> reporter \<Rightarrow> bool" where
  "adds_errors r r' \<longleftrightarrow>
     error_cap r' = error_cap r \<and> warning_count r' = warning_count r
     \<and> (\<exists>ds. diagnostics r' = diagnostics r @ ds \<and> list_all is_error ds
             \<and> error_count r' = error_count r + length ds)"

definition goes :: "pstate \<Rightarrow> pstate \<Rightarrow> bool" where
  "goes s s' \<longleftrightarrow>
     cursor_ok s' \<and> ps_tokens s' = ps_tokens s \<and> ps_pos s \<le> ps_pos s' \<and> ps_next s \<le> ps_next s'
     \<and> adds_errors (ps_reporter s) (ps_reporter s')"

lemma adds_errors_refl [simp]: "adds_errors r r"
  by (auto simp: adds_errors_def)

lemma adds_errors_trans:
  assumes "adds_errors r r'" "adds_errors r' r''"
  shows "adds_errors r r''"
proof -
  obtain ds ds' where "diagnostics r' = diagnostics r @ ds" "list_all is_error ds"
    "error_count r' = error_count r + length ds" "diagnostics r'' = diagnostics r' @ ds'"
    "list_all is_error ds'" "error_count r'' = error_count r' + length ds'"
    using assms by (auto simp: adds_errors_def)
  then have "diagnostics r'' = diagnostics r @ (ds @ ds') \<and> list_all is_error (ds @ ds')
     \<and> error_count r'' = error_count r + length (ds @ ds')"
    by simp
  with assms show ?thesis unfolding adds_errors_def by (intro conjI exI [of _ "ds @ ds'"]) auto
qed

lemma adds_errors_report: "adds_errors r (report (diag_at x (diag_error m)) r)"
  by (auto simp: adds_errors_def report_def diag_at_def diag_error_def is_error_def intro!: exI [of _ "[_]"])

lemma adds_errors_count: "adds_errors r r' \<Longrightarrow> error_count r \<le> error_count r' \<and> error_cap r' = error_cap r"
  by (auto simp: adds_errors_def)

lemma goes_refl: "cursor_ok s \<Longrightarrow> goes s s"
  by (simp add: goes_def)

lemma goes_trans: "goes s t \<Longrightarrow> goes t u \<Longrightarrow> goes s u"
  by (auto simp: goes_def intro: adds_errors_trans)

lemma goes_ok: "goes s s' \<Longrightarrow> cursor_ok s'"
  by (simp add: goes_def)

lemma goes_left: "goes s s' \<Longrightarrow> left s' \<le> left s"
  unfolding goes_def left_def by auto

lemma goes_tokens: "goes s s' \<Longrightarrow> ps_tokens s' = ps_tokens s"
  by (simp add: goes_def)

lemma goes_pos: "goes s s' \<Longrightarrow> ps_pos s \<le> ps_pos s'"
  by (simp add: goes_def)

lemma left_less: "goes s s' \<Longrightarrow> ps_pos s < ps_pos s' \<Longrightarrow> left s' < left s"
  unfolding goes_def cursor_ok_def left_def by auto

lemma kind_here: "cursor_ok s \<Longrightarrow> kind_ahead s 0 = tok_kind (ps_tokens s ! ps_pos s)"
  by (auto simp: kind_ahead_def peek_ahead_def cursor_ok_def)

lemma at_eof_same: "goes s s' \<Longrightarrow> cursor_ok s \<Longrightarrow> ps_pos s' = ps_pos s \<Longrightarrow> at_eof s' = at_eof s"
  by (simp add: at_eof_def kind_here goes_ok goes_tokens)

lemma not_eof_pos: "cursor_ok s \<Longrightarrow> \<not> at_eof s \<Longrightarrow> ps_pos s + 1 < length (ps_tokens s)"
proof (rule ccontr)
  assume s: "cursor_ok s" "\<not> at_eof s" and n: "\<not> ps_pos s + 1 < length (ps_tokens s)"
  then have "ps_pos s = length (ps_tokens s) - 1" unfolding cursor_ok_def by linarith
  moreover have "tok_kind (ps_tokens s ! (length (ps_tokens s) - 1)) = TkEof"
    using s(1) last_conv_nth [of "ps_tokens s"] by (simp add: cursor_ok_def)
  ultimately show False using s by (simp add: at_eof_def kind_here)
qed

lemma not_eof_left: "cursor_ok s \<Longrightarrow> \<not> at_eof s \<Longrightarrow> 0 < left s"
  using not_eof_pos by (fastforce simp: left_def)

lemma goes_move_on: "cursor_ok s \<Longrightarrow> goes s (move_on s)"
  by (simp add: goes_def cursor_ok_def move_on_def)

lemma pos_move_on: "cursor_ok s \<Longrightarrow> \<not> at_eof s \<Longrightarrow> ps_pos (move_on s) = ps_pos s + 1"
  using not_eof_pos by (simp add: move_on_def)

lemma left_move_on: "cursor_ok s \<Longrightarrow> \<not> at_eof s \<Longrightarrow> left (move_on s) + 1 = left s"
  using not_eof_pos by (fastforce simp: left_def pos_move_on move_on_def)

lemma check_not_eof: "check_kind k s \<Longrightarrow> k \<noteq> TkEof \<Longrightarrow> \<not> at_eof s"
  by (simp add: check_kind_def at_eof_def)

section \<open>The judgements\<close>

text \<open>
  The tokens on which no conversion throws: every integer literal fits 64 bits, and every string
  literal has a lexeme.
\<close>

definition convertible :: "token \<Rightarrow> bool" where
  "convertible t \<longleftrightarrow>
     (tok_kind t = TkIntLit \<longrightarrow> isl (stoll (tok_lexeme t)) = False)
     \<and> (tok_kind t = TkStringLit \<longrightarrow> tok_lexeme t \<noteq> [])"

definition replies :: "pstate \<Rightarrow> 'a reply option \<Rightarrow> bool" where
  "replies s r \<longleftrightarrow>
     (case r of
        None \<Rightarrow> False
      | Some (Reply x s') \<Rightarrow> True
      | Some (Uncaught e) \<Rightarrow> \<not> list_all convertible (ps_tokens s))"

definition ends :: "nat \<Rightarrow> nat \<Rightarrow> 'a parser \<Rightarrow> bool" where
  "ends j k m \<longleftrightarrow> (\<forall>s. cursor_ok s \<longrightarrow> 8 * left s + j \<le> k \<longrightarrow> replies s (m s))"

definition proceeds :: "'a parser \<Rightarrow> bool" where
  "proceeds m \<longleftrightarrow> (\<forall>s x s'. cursor_ok s \<longrightarrow> m s = Some (Reply x s') \<longrightarrow> goes s s')"

definition behaves :: "nat \<Rightarrow> nat \<Rightarrow> 'a parser \<Rightarrow> bool" where
  "behaves j k m \<longleftrightarrow> proceeds m \<and> ends j k m"

text \<open>As \<open>ends\<close>, at a token of kind \<open>t\<close>.\<close>

definition starts :: "token_kind \<Rightarrow> nat \<Rightarrow> nat \<Rightarrow> 'a parser \<Rightarrow> bool" where
  "starts t j k m \<longleftrightarrow>
     (\<forall>s. cursor_ok s \<longrightarrow> check_kind t s \<longrightarrow> 8 * left s + j \<le> k \<longrightarrow> replies s (m s))"

text \<open>A result in \<open>D\<close> is only given after a token was taken, unless none was left.\<close>

definition eats :: "('a \<Rightarrow> bool) \<Rightarrow> 'a parser \<Rightarrow> bool" where
  "eats D m \<longleftrightarrow>
     (\<forall>s x s'. cursor_ok s \<longrightarrow> \<not> at_eof s \<longrightarrow> m s = Some (Reply x s') \<longrightarrow> D x \<longrightarrow> ps_pos s < ps_pos s')"

abbreviation eats_on :: "'a parser \<Rightarrow> bool" where
  "eats_on \<equiv> eats (\<lambda>_. True)"

named_theorems behaves_rules "rules for behaves productions"
named_theorems eats_rules "rules for productions that take a token"

lemma repliesE:
  assumes "replies s r"
  obtains (reply) x s' where "r = Some (Reply x s')"
  | (uncaught) e where "r = Some (Uncaught e)" "\<not> list_all convertible (ps_tokens s)"
  using assms by (auto simp: replies_def split: option.splits reply.splits)

lemma replies_reply [simp]: "replies s (Some (Reply x s'))"
  by (simp add: replies_def)

lemma replies_uncaught [simp]: "replies s (Some (Uncaught e)) \<longleftrightarrow> \<not> list_all convertible (ps_tokens s)"
  by (simp add: replies_def)

lemma replies_tokens: "ps_tokens s = ps_tokens t \<Longrightarrow> replies s r = replies t r"
  by (simp add: replies_def split: option.splits reply.splits)

lemma proceedsD: "proceeds m \<Longrightarrow> cursor_ok s \<Longrightarrow> m s = Some (Reply x s') \<Longrightarrow> goes s s'"
  by (simp add: proceeds_def)

lemma endsD: "ends j k m \<Longrightarrow> cursor_ok s \<Longrightarrow> 8 * left s + j \<le> k \<Longrightarrow> replies s (m s)"
  by (simp add: ends_def)

lemma startsD: "starts t j k m \<Longrightarrow> cursor_ok s \<Longrightarrow> check_kind t s \<Longrightarrow> 8 * left s + j \<le> k \<Longrightarrow> replies s (m s)"
  by (simp add: starts_def)

lemma eatsD: "eats D m \<Longrightarrow> cursor_ok s \<Longrightarrow> \<not> at_eof s \<Longrightarrow> m s = Some (Reply x s') \<Longrightarrow> D x \<Longrightarrow> ps_pos s < ps_pos s'"
  by (simp add: eats_def)

lemma behaves_proceeds: "behaves j k m \<Longrightarrow> proceeds m"
  by (simp add: behaves_def)

lemma behaves_ends: "behaves j k m \<Longrightarrow> ends j k m"
  by (simp add: behaves_def)

lemma proceeds_behaves: "proceeds m \<longleftrightarrow> behaves 1 0 m"
  by (simp add: behaves_def ends_def)

lemma ends_mono: "ends j k m \<Longrightarrow> j \<le> j' \<Longrightarrow> ends j' k m"
  unfolding ends_def by (meson add_le_mono le_refl le_trans)

lemma behaves_mono: "behaves j k m \<Longrightarrow> j \<le> j' \<Longrightarrow> behaves j' k m"
  unfolding behaves_def using ends_mono by blast

lemma starts_ends: "ends j k m \<Longrightarrow> starts t j k m"
  by (simp add: ends_def starts_def)

lemma ends_Suc: "ends j k m \<Longrightarrow> ends (Suc j) (Suc k) m"
  by (simp add: ends_def)

section \<open>The combinators\<close>

lemma seq_reply:
  assumes "seq m f s = Some (Reply y u)"
  obtains x t where "m s = Some (Reply x t)" "f x t = Some (Reply y u)"
  using assms by (auto simp: seq_def split: option.splits reply.splits)

lemma seq_assoc: "seq (seq m f) g = seq m (\<lambda>x. seq (f x) g)"
  by (rule ext) (simp add: seq_def split: option.splits reply.splits)

lemma seq_produce: "seq (produce x) f = f x"
  by (rule ext) (simp add: seq_def produce_def)

lemma behaves_produce [behaves_rules]: "behaves j k (produce x)"
  by (simp add: behaves_def proceeds_def ends_def produce_def goes_refl)

lemma behaves_query [behaves_rules]: "behaves j k (query f)"
  by (simp add: behaves_def proceeds_def ends_def query_def goes_refl)

lemma proceeds_seq:
  assumes "proceeds m" "\<And>x. proceeds (f x)"
  shows "proceeds (seq m f)"
  unfolding proceeds_def
proof (intro allI impI)
  fix s y u assume s: "cursor_ok s" and r: "seq m f s = Some (Reply y u)"
  from r obtain x t where t: "m s = Some (Reply x t)" "f x t = Some (Reply y u)" by (rule seq_reply)
  have g: "goes s t" by (rule proceedsD [OF assms(1) s t(1)])
  from goes_trans [OF g proceedsD [OF assms(2) goes_ok [OF g] t(2)]] show "goes s u" .
qed

lemma replies_seq:
  assumes "replies s (m s)" "\<And>x t. m s = Some (Reply x t) \<Longrightarrow> ps_tokens t = ps_tokens s \<and> replies t (f x t)"
  shows "replies s (seq m f s)"
  using assms(1)
proof (cases rule: repliesE)
  case (reply x t)
  from assms(2) [OF reply] replies_tokens [of t s "f x t"] have "replies s (f x t)" by simp
  with reply show ?thesis by (simp add: seq_def)
qed (simp add: seq_def)

lemma ends_seq:
  assumes "behaves j k m" "\<And>x. ends j k (f x)"
  shows "ends j k (seq m f)"
  unfolding ends_def
proof (intro allI impI, rule replies_seq)
  fix s assume s: "cursor_ok s" "8 * left s + j \<le> k"
  show "replies s (m s)" by (rule endsD [OF behaves_ends [OF assms(1)] s])
  fix x t assume "m s = Some (Reply x t)"
  then have g: "goes s t" by (rule proceedsD [OF behaves_proceeds [OF assms(1)] s(1)])
  have "8 * left t + j \<le> k" using s(2) goes_left [OF g] by simp
  then show "ps_tokens t = ps_tokens s \<and> replies t (f x t)"
    using endsD [OF assms(2) goes_ok [OF g]] goes_tokens [OF g] by simp
qed

lemma behaves_seq:
  assumes "behaves j k m" "\<And>x. behaves j k (f x)"
  shows "behaves j k (seq m f)"
  unfolding behaves_def
  using proceeds_seq [OF behaves_proceeds [OF assms(1)] behaves_proceeds [OF assms(2)]]
    ends_seq [OF assms(1) behaves_ends [OF assms(2)]] by (rule conjI)

lemma behaves_if_state [behaves_rules]: "behaves j k m1 \<Longrightarrow> behaves j k m2 \<Longrightarrow> behaves j k (if_state P m1 m2)"
  by (simp add: behaves_def proceeds_def ends_def if_state_def)

lemma behaves_advance [behaves_rules]: "behaves j k advance_token"
  by (simp add: behaves_def proceeds_def ends_def advance_token_def goes_move_on)

lemma behaves_match [behaves_rules]: "behaves j k (match_kind t)"
  by (auto simp: behaves_def proceeds_def ends_def match_kind_def goes_move_on goes_refl split: if_splits)

lemma behaves_make_node [behaves_rules]: "behaves j k make_node"
  by (auto simp: behaves_def proceeds_def ends_def make_node_def goes_def cursor_ok_def)

lemma behaves_emit_error [behaves_rules]: "behaves j k (emit_error r m)"
  by (auto simp: behaves_def proceeds_def ends_def emit_error_def goes_def cursor_ok_def adds_errors_report)

text \<open>Rules for the case distinctions of HOL.\<close>

lemma behaves_if [behaves_rules]: "(b \<Longrightarrow> behaves j k m1) \<Longrightarrow> (\<not> b \<Longrightarrow> behaves j k m2) \<Longrightarrow> behaves j k (if b then m1 else m2)"
  by simp

lemma behaves_prod [behaves_rules]: "(\<And>a b. behaves j k (f a b)) \<Longrightarrow> behaves j k (case p of (a, b) \<Rightarrow> f a b)"
  by (simp split: prod.splits)

lemma behaves_option [behaves_rules]:
  "behaves j k m \<Longrightarrow> (\<And>a. behaves j k (f a)) \<Longrightarrow> behaves j k (case x of None \<Rightarrow> m | Some a \<Rightarrow> f a)"
  by (simp split: option.splits)

lemma behaves_dispatch_Nil [behaves_rules]: "behaves j k m \<Longrightarrow> behaves j k (dispatch [] m)"
  by simp

lemma behaves_dispatch_Cons [behaves_rules]:
  "behaves j k m \<Longrightarrow> behaves j k (dispatch es d) \<Longrightarrow> behaves j k (dispatch ((t, m) # es) d)"
  by (simp add: behaves_if_state)

text \<open>Loops.\<close>

lemma proceeds_loop:
  assumes "\<And>a. proceeds (body a)"
  shows "proceeds (loop c body a)"
  unfolding proceeds_def
proof (intro allI impI)
  fix s x s' assume s: "cursor_ok s" and r: "loop c body a s = Some (Reply x s')"
  let ?P = "\<lambda>c' b' a s r. c' = c \<and> b' = body \<and> cursor_ok s \<longrightarrow> (case r of Reply y u \<Rightarrow> goes s u | Uncaught e \<Rightarrow> True)"
  have "?P c body a s (Reply x s')"
  proof (rule loop.raw_induct [where P = ?P, OF _ r], rule impI, elim conjE)
    fix lp c' b' a s r
    assume IH: "\<And>c' b' a s r. lp c' b' a s = Some r \<Longrightarrow> ?P c' b' a s r"
      and s: "cursor_ok s" and cb: "c' = c" "b' = body"
      and r: "(if c' a s then Option.bind (b' a s) (\<lambda>r. case r of
          Reply (Again a') s' \<Rightarrow> lp c' b' a' s'
        | Reply (Break a') s' \<Rightarrow> Some (Reply a' s')
        | Uncaught e \<Rightarrow> Some (Uncaught e)) else Some (Reply a s)) = Some r"
    show "case r of Reply y u \<Rightarrow> goes s u | Uncaught e \<Rightarrow> True"
    proof (cases "c a s")
      case True
      show ?thesis
      proof (cases "body a s")
        case None
        with r True cb show ?thesis by simp
      next
        case (Some q)
        show ?thesis
        proof (cases q)
          case (Reply g t)
          from Some Reply have "body a s = Some (Reply g t)" by simp
          then have g: "goes s t" by (rule proceedsD [OF assms s])
          show ?thesis
          proof (cases g)
            case (Again a')
            with r True Some Reply cb have "lp c' b' a' t = Some r" by simp
            from IH [OF this] cb goes_ok [OF g] have "case r of Reply y u \<Rightarrow> goes t u | Uncaught e \<Rightarrow> True"
              by blast
            then show ?thesis by (cases r) (auto intro: goes_trans [OF g])
          next
            case (Break a')
            with r True Some Reply cb g show ?thesis by auto
          qed
        next
          case (Uncaught e)
          with r True Some cb show ?thesis by auto
        qed
      qed
    next
      case False
      with r cb s show ?thesis by (auto simp: goes_refl)
    qed
  qed
  with s show "goes s s'" by simp
qed

text \<open>A loop whose body takes a token, or lowers another measure, in each round that goes on.\<close>

lemma replies_loop:
  assumes "\<And>a s. I s \<Longrightarrow> c a s \<Longrightarrow> replies s (body a s)"
    and "\<And>a s a' s'. I s \<Longrightarrow> c a s \<Longrightarrow> body a s = Some (Reply (Again a') s') \<Longrightarrow>
           I s' \<and> ps_tokens s' = ps_tokens s \<and> f s' < (f s :: nat)"
    and "I s"
  shows "replies s (loop c body a s)"
  using \<open>I s\<close>
proof (induction "f s" arbitrary: a s rule: less_induct)
  case less
  show ?case
  proof (cases "c a s")
    case True
    from assms(1) [OF less.prems True] show ?thesis
    proof (cases rule: repliesE)
      case (reply g t)
      show ?thesis
      proof (cases g)
        case (Again a')
        from assms(2) [OF less.prems True, of a' t] reply Again
        have t: "I t" "ps_tokens t = ps_tokens s" "f t < f s" by auto
        from less.hyps [OF t(3,1)] have "replies s (loop c body a' t)"
          using t(2) replies_tokens by metis
        then show ?thesis using True reply Again by (subst loop.simps) simp
      next
        case (Break a')
        then show ?thesis using True reply by (subst loop.simps) simp
      qed
    next
      case (uncaught e)
      then show ?thesis using True by (subst loop.simps) simp
    qed
  next
    case False
    then show ?thesis by (subst loop.simps) simp
  qed
qed

primrec repeats :: "'a signal \<Rightarrow> bool" where
  "repeats (Again a) = True"
| "repeats (Break a) = False"

lemma ends_loop:
  assumes "\<And>a. behaves j k (body a)"
    and "\<And>a s a' s'. cursor_ok s \<Longrightarrow> c a s \<Longrightarrow> body a s = Some (Reply (Again a') s') \<Longrightarrow> ps_pos s < ps_pos s'"
  shows "ends j k (loop c body a)"
  unfolding ends_def
proof (intro allI impI)
  fix s assume s: "cursor_ok s" "8 * left s + j \<le> k"
  show "replies s (loop c body a s)"
  proof (rule replies_loop [where I = "\<lambda>s. cursor_ok s \<and> 8 * left s + j \<le> k" and f = left])
    fix a s a' s'
    assume s: "cursor_ok s \<and> 8 * left s + j \<le> k" and c: "c a s" and b: "body a s = Some (Reply (Again a') s')"
    have g: "goes s s'" by (rule proceedsD [OF behaves_proceeds [OF assms(1)] _ b]) (use s in simp)
    have "ps_pos s < ps_pos s'" by (rule assms(2) [OF _ c b]) (use s in simp)
    then show "(cursor_ok s' \<and> 8 * left s' + j \<le> k) \<and> ps_tokens s' = ps_tokens s \<and> left s' < left s"
      using left_less [OF g] s g by (auto simp: goes_ok goes_tokens)
  next
    fix a s assume "cursor_ok s \<and> 8 * left s + j \<le> k"
    then show "replies s (body a s)" using endsD [OF behaves_ends [OF assms(1)]] by simp
  qed (use s in simp)
qed

lemma behaves_loop:
  assumes "\<And>a. behaves j k (body a)" "\<And>a. eats repeats (body a)" "\<And>a s. c a s \<Longrightarrow> \<not> at_eof s"
  shows "behaves j k (loop c body a)"
  unfolding behaves_def
proof
  show "proceeds (loop c body a)" by (rule proceeds_loop) (rule behaves_proceeds [OF assms(1)])
  show "ends j k (loop c body a)"
  proof (rule ends_loop [OF assms(1)])
    fix a s a' s'
    assume "cursor_ok s" "c a s" "body a s = Some (Reply (Again a') s')"
    then show "ps_pos s < ps_pos s'" using eatsD [OF assms(2)] assms(3) repeats.simps(1) by metis
  qed
qed

section \<open>Taking tokens\<close>

lemma eats_any: "eats_on m \<Longrightarrow> eats D m"
  by (simp add: eats_def)

lemma eats_Break [eats_rules]: "eats repeats (produce (Break x))"
  by (simp add: eats_def produce_def)

lemma eats_advance [eats_rules]: "eats D advance_token"
  by (auto simp: eats_def advance_token_def pos_move_on)

text \<open>The first action takes a token, or the rest does.\<close>

lemma eats_seq1:
  assumes "eats_on m" "\<And>x. proceeds (f x)" "proceeds m"
  shows "eats D (seq m f)"
  unfolding eats_def
proof (intro allI impI)
  fix s y u assume s: "cursor_ok s" "\<not> at_eof s" and r: "seq m f s = Some (Reply y u)"
  from r obtain x t where t: "m s = Some (Reply x t)" "f x t = Some (Reply y u)" by (rule seq_reply)
  have "cursor_ok t" by (rule goes_ok [OF proceedsD [OF assms(3) s(1) t(1)]])
  then have "ps_pos t \<le> ps_pos u" by (rule goes_pos [OF proceedsD [OF assms(2) _ t(2)]])
  moreover have "ps_pos s < ps_pos t" using eatsD [OF assms(1) s t(1)] by simp
  ultimately show "ps_pos s < ps_pos u" by simp
qed

lemma eats_seq2:
  assumes "proceeds m" "\<And>x. eats D (f x)" "\<And>x. proceeds (f x)"
  shows "eats D (seq m f)"
  unfolding eats_def
proof (intro allI impI)
  fix s y u assume s: "cursor_ok s" "\<not> at_eof s" and r: "seq m f s = Some (Reply y u)" and y: "D y"
  from r obtain x t where t: "m s = Some (Reply x t)" "f x t = Some (Reply y u)" by (rule seq_reply)
  have g: "goes s t" by (rule proceedsD [OF assms(1) s(1) t(1)])
  have u: "ps_pos t \<le> ps_pos u" by (rule goes_pos [OF proceedsD [OF assms(3) goes_ok [OF g] t(2)]])
  show "ps_pos s < ps_pos u"
  proof (cases "ps_pos t = ps_pos s")
    case True
    then have "\<not> at_eof t" using at_eof_same [OF g s(1)] s(2) by simp
    then have "ps_pos t < ps_pos u" using eatsD [OF assms(2) goes_ok [OF g] _ t(2) y] by simp
    with True show ?thesis by simp
  next
    case False
    with goes_pos [OF g] u show ?thesis by simp
  qed
qed

lemma eats_if_state [eats_rules]: "eats D m1 \<Longrightarrow> eats D m2 \<Longrightarrow> eats D (if_state P m1 m2)"
  by (simp add: eats_def if_state_def)

lemma eats_if [eats_rules]: "(b \<Longrightarrow> eats D m1) \<Longrightarrow> (\<not> b \<Longrightarrow> eats D m2) \<Longrightarrow> eats D (if b then m1 else m2)"
  by simp

lemma eats_prod [eats_rules]: "(\<And>a b. eats D (f a b)) \<Longrightarrow> eats D (case p of (a, b) \<Rightarrow> f a b)"
  by (simp split: prod.splits)

lemma eats_option [eats_rules]:
  "eats D m \<Longrightarrow> (\<And>a. eats D (f a)) \<Longrightarrow> eats D (case x of None \<Rightarrow> m | Some a \<Rightarrow> f a)"
  by (simp split: option.splits)

lemma eats_dispatch_Nil [eats_rules]: "eats D m \<Longrightarrow> eats D (dispatch [] m)"
  by simp

lemma eats_dispatch_Cons [eats_rules]:
  "eats D m \<Longrightarrow> eats D (dispatch es d) \<Longrightarrow> eats D (dispatch ((t, m) # es) d)"
  by (simp add: eats_if_state)

section \<open>The idioms\<close>

text \<open>The proofs of this section and of the productions apply the rules as long as one fits.\<close>

lemma behaves_this_range [behaves_rules]: "behaves j k this_range"
  by (simp add: this_range_def behaves_query)

lemma behaves_span_from [behaves_rules]: "behaves j k (span_from r)"
  by (simp add: span_from_def behaves_query)

lemma behaves_close_node [behaves_rules]: "behaves j k (close_node a r f)"
  unfolding close_node_def by (intro behaves_rules behaves_seq)

lemma behaves_error_here [behaves_rules]: "behaves j k (error_here m)"
  unfolding error_here_def by (intro behaves_rules behaves_seq)

lemma behaves_expect [behaves_rules]: "behaves j k (expect_kind t w)"
  unfolding expect_kind_def by (intro behaves_rules behaves_seq)

lemma behaves_lexeme_here [behaves_rules]: "behaves j k lexeme_here"
  unfolding lexeme_here_def by (intro behaves_rules behaves_seq)

lemma behaves_if_match [behaves_rules]: "behaves j k m1 \<Longrightarrow> behaves j k m2 \<Longrightarrow> behaves j k (if_match t m1 m2)"
  unfolding if_match_def by (intro behaves_rules behaves_seq)

lemma behaves_ident_or [behaves_rules]: "behaves j k (ident_or m)"
  unfolding ident_or_def by (intro behaves_rules behaves_seq)

lemma behaves_some_of [behaves_rules]: "behaves j k m \<Longrightarrow> behaves j k (some_of m)"
  unfolding some_of_def by (intro behaves_rules behaves_seq)

lemma behaves_opt_after [behaves_rules]: "behaves j k m \<Longrightarrow> behaves j k (opt_after t m)"
  unfolding opt_after_def by (intro behaves_rules behaves_seq)

lemma eats_lexeme_here [eats_rules]: "eats D lexeme_here"
  unfolding lexeme_here_def by (intro eats_seq1 eats_rules behaves_rules behaves_proceeds [OF behaves_advance] behaves_proceeds [OF behaves_produce])

lemma behaves_loop_check:
  "(\<And>a. behaves j k (body a)) \<Longrightarrow> (\<And>a. eats repeats (body a)) \<Longrightarrow> t \<noteq> TkEof \<Longrightarrow>
     behaves j k (loop (\<lambda>_. check_kind t) body a)"
  by (rule behaves_loop) (auto dest: check_not_eof)

lemma eats_advance_first: "(\<And>x. behaves 1 0 (f x)) \<Longrightarrow> eats D (seq advance_token f)"
  by (rule eats_seq1) (simp_all add: proceeds_behaves behaves_advance eats_advance)

lemma behaves_while_matched [behaves_rules]: "behaves j k p \<Longrightarrow> t \<noteq> TkEof \<Longrightarrow> behaves j k (while_matched t p)"
  unfolding while_matched_def
proof (rule behaves_loop_check)
  assume p: "behaves j k p"
  then show "behaves j k (seq advance_token (\<lambda>_. seq p (\<lambda>x. produce (Again (xs @ [x])))))" for xs
    by (intro behaves_rules behaves_seq)
  have "behaves 1 0 p" using behaves_proceeds [OF p] by (simp add: proceeds_behaves)
  then show "eats repeats (seq advance_token (\<lambda>_. seq p (\<lambda>x. produce (Again (xs @ [x])))))" for xs
    by (intro eats_advance_first behaves_rules behaves_seq)
qed

lemma behaves_sep_by [behaves_rules]: "behaves j k p \<Longrightarrow> t \<noteq> TkEof \<Longrightarrow> behaves j k (sep_by t p)"
  unfolding sep_by_def by (intro behaves_rules behaves_seq)

lemma behaves_names_after [behaves_rules]: "t \<noteq> TkEof \<Longrightarrow> behaves j k (names_after t m xs)"
  unfolding names_after_def by (intro behaves_loop_check eats_advance_first behaves_rules behaves_seq)

lemma behaves_skip_newlines [behaves_rules]: "behaves j k skip_newlines"
  unfolding skip_newlines_def
  by (intro behaves_loop eats_advance_first behaves_rules behaves_seq) (auto simp: at_newline_def dest: check_not_eof)

lemma behaves_sync_to_decl [behaves_rules]: "behaves j k sync_to_decl"
  unfolding sync_to_decl_def
  by (intro behaves_loop eats_seq2 eats_rules eats_advance_first behaves_rules behaves_seq)
     (simp_all add: proceeds_behaves behaves_query behaves_if behaves_seq behaves_advance behaves_produce)

section \<open>Consuming starts\<close>

text \<open>After the token at the start is taken, every production of the next round may be called.\<close>

lemma starts_advance:
  assumes "t \<noteq> TkEof" "\<And>x. behaves 8 k (f x)"
  shows "starts t 0 k (seq advance_token f)"
  unfolding starts_def
proof (intro allI impI)
  fix s assume s: "cursor_ok s" "check_kind t s" "8 * left s + 0 \<le> k"
  have "left (move_on s) + 1 = left s" using left_move_on s check_not_eof assms(1) by blast
  then have "replies (move_on s) (f x (move_on s))" for x
    using endsD [OF behaves_ends [OF assms(2)] goes_ok [OF goes_move_on [OF s(1)]]] s(3) by simp
  then have "replies (move_on s) (seq advance_token f s)" by (simp add: seq_def advance_token_def)
  then show "replies s (seq advance_token f s)"
    using replies_tokens [OF goes_tokens [OF goes_move_on [OF s(1)]], of "seq advance_token f s"] by simp
qed

lemma starts_expect:
  assumes "t \<noteq> TkEof" "\<And>x. behaves 8 k (f x)"
  shows "starts t 0 k (seq (expect_kind t w) f)"
proof -
  have "seq (expect_kind t w) f s = seq advance_token (\<lambda>_. f True) s" if "check_kind t s" for s
    using that by (simp add: seq_def expect_kind_def match_kind_def advance_token_def produce_def)
  with starts_advance [OF assms(1), of k "\<lambda>_. f True"] assms(2) show ?thesis by (simp add: starts_def)
qed

lemma starts_lexeme:
  assumes "t \<noteq> TkEof" "\<And>x. behaves 8 k (f x)"
  shows "starts t 0 k (seq lexeme_here f)"
proof -
  have "seq lexeme_here f = seq advance_token (\<lambda>t. f (tok_lexeme t))"
    by (rule ext) (simp add: lexeme_here_def seq_def advance_token_def produce_def)
  with starts_advance [OF assms(1), of k "\<lambda>t. f (tok_lexeme t)"] assms(2) show ?thesis by simp
qed

text \<open>Actions that leave the cursor where it is.\<close>

lemma starts_query: "(\<And>x. starts t j k (f x)) \<Longrightarrow> starts t j k (seq (query g) f)"
  by (simp add: starts_def seq_def query_def)

lemma starts_this_range: "(\<And>x. starts t j k (f x)) \<Longrightarrow> starts t j k (seq this_range f)"
  unfolding this_range_def by (rule starts_query)

lemma starts_make_node:
  assumes "\<And>x. starts t j k (f x)"
  shows "starts t j k (seq make_node f)"
  unfolding starts_def
proof (intro allI impI)
  fix s assume s: "cursor_ok s" "check_kind t s" "8 * left s + j \<le> k"
  let ?s = "s\<lparr>ps_next := ps_next s + 1\<rparr>"
  have "cursor_ok ?s" "check_kind t ?s" "8 * left ?s + j \<le> k"
    using s by (simp_all add: cursor_ok_def check_kind_def kind_ahead_def peek_ahead_def left_def)
  from startsD [OF assms this, of "ps_next s"] have "replies ?s (seq make_node f s)"
    by (simp add: seq_def make_node_def)
  then show "replies s (seq make_node f s)" using replies_tokens [of s ?s "seq make_node f s"] by simp
qed

lemma starts_some_of:
  assumes "starts t j k m" "proceeds m"
  shows "starts t j k (some_of m)"
  unfolding starts_def some_of_def
proof (intro allI impI, rule replies_seq)
  fix s assume s: "cursor_ok s" "check_kind t s" "8 * left s + j \<le> k"
  then show "replies s (m s)" by (rule startsD [OF assms(1)])
  fix x u assume "m s = Some (Reply x u)"
  then have "goes s u" by (rule proceedsD [OF assms(2) s(1)])
  then show "ps_tokens u = ps_tokens s \<and> replies u (produce (Some x) u)" by (simp add: goes_tokens produce_def)
qed

lemma starts_if_state: "starts t j k m1 \<Longrightarrow> starts t j k m2 \<Longrightarrow> starts t j k (if_state P m1 m2)"
  by (simp add: starts_def if_state_def)

lemma starts_dispatch:
  "starts t j k (dispatch ((t, m) # es) d) \<longleftrightarrow> starts t j k m"
  "u \<noteq> t \<Longrightarrow> starts t j k (dispatch ((u, m) # es) d) \<longleftrightarrow> starts t j k (dispatch es d)"
  by (auto simp: starts_def if_state_def check_kind_def)

text \<open>A switch: each case starts at its token.\<close>

lemma ends_if_check:
  "starts t j k m1 \<Longrightarrow> ends j k m2 \<Longrightarrow> ends j k (if_check t m1 m2)"
  by (simp add: ends_def starts_def if_state_def)

lemma ends_dispatch_Cons:
  "starts t j k m \<Longrightarrow> ends j k (dispatch es d) \<Longrightarrow> ends j k (dispatch ((t, m) # es) d)"
  by (simp add: ends_if_check)

lemma ends_dispatch_Nil: "ends j k d \<Longrightarrow> ends j k (dispatch [] d)"
  by simp

lemma ends_seq_query: "(\<And>x. ends j k (f x)) \<Longrightarrow> ends j k (seq (query g) f)"
  by (simp add: ends_def seq_def query_def)

lemma ends_seq_this_range: "(\<And>x. ends j k (f x)) \<Longrightarrow> ends j k (seq this_range f)"
  unfolding this_range_def by (rule ends_seq_query)

text \<open>A conversion of an integer literal.\<close>

lemma starts_stoll:
  assumes "\<And>n. behaves j k (f n)"
  shows "starts TkIntLit j k (seq lexeme_here (\<lambda>x. seq (parse_stoll x) f))"
  unfolding starts_def
proof (intro allI impI)
  fix s assume s: "cursor_ok s" "check_kind TkIntLit s" "8 * left s + j \<le> k"
  let ?t = "ps_tokens s ! ps_pos s"
  have t: "?t \<in> set (ps_tokens s)" "tok_kind ?t = TkIntLit"
    using s by (simp_all add: cursor_ok_def check_kind_def kind_here)
  have g: "goes s (move_on s)" by (rule goes_move_on [OF s(1)])
  show "replies s (seq lexeme_here (\<lambda>x. seq (parse_stoll x) f) s)"
  proof (cases "stoll (tok_lexeme ?t)")
    case (Inl e)
    with t have "\<not> convertible ?t" by (simp add: convertible_def)
    with t Inl show ?thesis
      by (auto simp: seq_def lexeme_here_def advance_token_def produce_def parse_stoll_def throw_def list_all_iff)
  next
    case (Inr n)
    have "8 * left (move_on s) + j \<le> k" using goes_left [OF g] s(3) by simp
    from endsD [OF behaves_ends [OF assms] goes_ok [OF g] this, of n]
    have "replies s (f n (move_on s))" using replies_tokens goes_tokens [OF g] by metis
    with Inr show ?thesis
      by (simp add: seq_def lexeme_here_def advance_token_def produce_def parse_stoll_def)
  qed
qed

lemma proceeds_stoll: "proceeds (parse_stoll x)"
  by (simp add: proceeds_def parse_stoll_def throw_def produce_def goes_refl split: sum.splits)

end
