(* ===== verification/Parser_Safety.thy ===== *)
theory Parser_Safety
  imports Parser_Laws
begin

text \<open>
  Every production is behaves over behaves productions, in the order of \<^verbatim>\<open>Parser\<close>, those that the loops
  rely on take a token, and the recursive ones return with fuel above their rank.
\<close>

section \<open>The recursive productions\<close>

definition takes :: "token_kind \<Rightarrow> 'a parser \<Rightarrow> bool" where
  "takes t m \<longleftrightarrow>
     (\<forall>s x s'. cursor_ok s \<longrightarrow> check_kind t s \<longrightarrow> m s = Some (Reply x s') \<longrightarrow> ps_pos s < ps_pos s')"

definition sound_fields :: "nat \<Rightarrow> nat \<Rightarrow> productions \<Rightarrow> bool" where
  "sound_fields j k c \<longleftrightarrow>
     behaves j k (p_type c) \<and> behaves j k (p_pattern c) \<and> behaves j k (p_block c) \<and> (\<forall>b. behaves j k (p_expr c b))
     \<and> behaves j k (p_prefix c) \<and> behaves j k (p_primary c) \<and> (\<forall>as. behaves j k (p_decl c as))
     \<and> (\<forall>b. eats_on (p_expr c b)) \<and> eats_on (p_prefix c) \<and> eats_on (p_primary c)
     \<and> (\<forall>as. eats (\<lambda>d. d \<noteq> None) (p_decl c as)) \<and> takes TkLBrace (p_block c)"

lemma sound_fieldsD [behaves_rules]:
  assumes "sound_fields j k c"
  shows "behaves j k (p_type c)" "behaves j k (p_pattern c)" "behaves j k (p_block c)" "behaves j k (p_expr c b)"
    "behaves j k (p_prefix c)" "behaves j k (p_primary c)" "behaves j k (p_decl c as)"
  using assms by (simp_all add: sound_fields_def)

lemma eats_fields [eats_rules]:
  assumes "sound_fields 1 0 c"
  shows "eats D (p_expr c b)" "eats D (p_prefix c)" "eats D (p_primary c)"
  using assms by (auto simp: sound_fields_def intro: eats_any)

lemma behaves_0: "behaves j k m \<Longrightarrow> behaves 1 0 m"
  by (rule iffD1 [OF proceeds_behaves], rule behaves_proceeds)

lemma sound_fields_0: "sound_fields j k c \<Longrightarrow> sound_fields 1 0 c"
  unfolding sound_fields_def by (auto simp del: One_nat_def intro: behaves_0)

lemma eats_seq_first:
  "eats_on m \<Longrightarrow> behaves 1 0 m \<Longrightarrow> (\<And>x. behaves 1 0 (f x)) \<Longrightarrow> eats D (seq m f)"
  by (rule eats_seq1) (simp_all add: proceeds_behaves)

lemma eats_query: "(\<And>x. eats D (f x)) \<Longrightarrow> eats D (seq (query g) f)"
  by (simp add: eats_def seq_def query_def)

lemma eats_this_range: "(\<And>x. eats D (f x)) \<Longrightarrow> eats D (seq this_range f)"
  unfolding this_range_def by (rule eats_query)

lemma eats_seq_rest:
  "behaves 1 0 m \<Longrightarrow> (\<And>x. behaves 1 0 (f x)) \<Longrightarrow> (\<And>x. eats D (f x)) \<Longrightarrow> eats D (seq m f)"
  by (rule eats_seq2) (simp_all add: proceeds_behaves)

section \<open>Splices to effects\<close>

lemma behaves_parse_splice [behaves_rules]:
  assumes c: "sound_fields j k c"
  shows "behaves j k (parse_splice c)"
  unfolding parse_splice_def by (intro behaves_rules behaves_seq c; simp)

lemma behaves_attribute_args [behaves_rules]:
  assumes c: "sound_fields j k c"
  shows "behaves j k (attribute_args c)"
  unfolding attribute_args_def by (intro behaves_rules behaves_seq c; simp)

lemma behaves_parse_attributes [behaves_rules]:
  assumes c: "sound_fields j k c"
  shows "behaves j k (parse_attributes c)"
  unfolding parse_attributes_def
  by (intro behaves_loop_check eats_this_range eats_advance_first behaves_rules behaves_seq c sound_fields_0 [OF c]; simp)

lemma behaves_parse_visibility [behaves_rules]: "behaves j k (parse_visibility)"
  unfolding parse_visibility_def by (intro behaves_rules behaves_seq; simp)

lemma behaves_parse_generic_param [behaves_rules]:
  assumes c: "sound_fields j k c"
  shows "behaves j k (parse_generic_param c)"
  unfolding parse_generic_param_def by (intro behaves_rules behaves_seq c; simp)

lemma behaves_parse_generics_opt [behaves_rules]:
  assumes c: "sound_fields j k c"
  shows "behaves j k (parse_generics_opt c)"
  unfolding parse_generics_opt_def by (intro behaves_rules behaves_seq c; simp)

lemma behaves_parse_param_name [behaves_rules]:
  assumes c: "sound_fields j k c"
  shows "behaves j k (parse_param_name c)"
  unfolding parse_param_name_def by (intro behaves_rules behaves_seq c; simp)

lemma behaves_parse_param_mode [behaves_rules]: "behaves j k (parse_param_mode)"
  unfolding parse_param_mode_def by (intro behaves_rules behaves_seq; simp)

lemma behaves_parse_param [behaves_rules]:
  assumes c: "sound_fields j k c"
  shows "behaves j k (parse_param c)"
  unfolding parse_param_def by (intro behaves_rules behaves_seq c; simp)

lemma behaves_parse_params [behaves_rules]:
  assumes c: "sound_fields j k c"
  shows "behaves j k (parse_params c)"
  unfolding parse_params_def by (intro behaves_rules behaves_seq c; simp)

lemma behaves_parse_effects_opt [behaves_rules]:
  assumes c: "sound_fields j k c"
  shows "behaves j k (parse_effects_opt c)"
  unfolding parse_effects_opt_def by (intro behaves_rules behaves_seq c; simp)

section \<open>Patterns\<close>

lemma behaves_parse_tuple_pattern [behaves_rules]:
  assumes c: "sound_fields j k c"
  shows "behaves j k (parse_tuple_pattern c st)"
  unfolding parse_tuple_pattern_def by (intro behaves_rules behaves_seq c; simp)

lemma behaves_parse_enum_pattern [behaves_rules]:
  assumes c: "sound_fields j k c"
  shows "behaves j k (parse_enum_pattern c st)"
  unfolding parse_enum_pattern_def by (intro behaves_rules behaves_seq c; simp)

lemma behaves_parse_literal_pattern [behaves_rules]:
  assumes c: "sound_fields j k c"
  shows "behaves j k (parse_literal_pattern c st)"
  unfolding parse_literal_pattern_def by (intro behaves_rules behaves_seq c; simp)

lemma behaves_parse_pattern_alt [behaves_rules]:
  assumes c: "sound_fields j k c"
  shows "behaves j k (parse_pattern_alt c)"
  unfolding parse_pattern_alt_def by (intro behaves_rules behaves_seq c; simp)

lemma behaves_parse_pattern [behaves_rules]:
  assumes c: "sound_fields j k c"
  shows "behaves j k (parse_pattern c)"
  unfolding parse_pattern_def by (intro behaves_rules behaves_seq c; simp)

section \<open>Types\<close>

lemma behaves_stoll_here:
  assumes "\<And>n. behaves j k (f n)" "behaves j k m"
  shows "behaves j k (if_check TkIntLit (seq lexeme_here (\<lambda>x. seq (parse_stoll x) f)) m)"
  unfolding behaves_def
proof
  have "proceeds (seq lexeme_here (\<lambda>x. seq (parse_stoll x) f))"
    by (intro proceeds_seq proceeds_stoll behaves_proceeds [OF behaves_lexeme_here] behaves_proceeds [OF assms(1)])
  with behaves_proceeds [OF assms(2)] show "proceeds (if_check TkIntLit (seq lexeme_here (\<lambda>x. seq (parse_stoll x) f)) m)"
    by (simp add: proceeds_def if_state_def)
  show "ends j k (if_check TkIntLit (seq lexeme_here (\<lambda>x. seq (parse_stoll x) f)) m)"
    by (intro ends_if_check starts_stoll assms behaves_ends [OF assms(2)])
qed

lemma behaves_stoll_case:
  assumes "\<And>n. behaves j k (f n)" "behaves j k (dispatch es d)"
  shows "behaves j k (dispatch ((TkIntLit, seq lexeme_here (\<lambda>x. seq (parse_stoll x) f)) # es) d)"
  using behaves_stoll_here [OF assms] by simp

lemma behaves_parse_generic_arg [behaves_rules]:
  assumes c: "sound_fields j k c"
  shows "behaves j k (parse_generic_arg c)"
  unfolding parse_generic_arg_def
  by (rule behaves_if_state, (intro behaves_rules behaves_seq c; simp), rule behaves_stoll_here) (intro behaves_rules behaves_seq c; simp)+

lemma behaves_parse_named_type [behaves_rules]:
  assumes c: "sound_fields j k c"
  shows "behaves j k (parse_named_type c st)"
  unfolding parse_named_type_def by (intro behaves_rules behaves_seq c; simp)

lemma behaves_parse_bracket_type [behaves_rules]:
  assumes c: "sound_fields j k c"
  shows "behaves j k (parse_bracket_type c st)"
proof -
  have "behaves j k (dispatch
      [(TkIntLit, seq lexeme_here (\<lambda>x. seq (parse_stoll x) (\<lambda>n. produce (n, [])))),
       (TkIdentifier, seq lexeme_here (\<lambda>x. produce (0, x)))]
      (seq (error_here ''expected vector length (integer or identifier)'') (\<lambda>_. produce (0, []))))"
    by (rule behaves_stoll_case) (intro behaves_rules behaves_seq; simp)+
  then show ?thesis unfolding parse_bracket_type_def by (intro behaves_if_state behaves_seq) (assumption | intro behaves_rules behaves_seq c; simp)+
qed

lemma behaves_parse_paren_type [behaves_rules]:
  assumes c: "sound_fields j k c"
  shows "behaves j k (parse_paren_type c st)"
  unfolding parse_paren_type_def by (intro behaves_rules behaves_seq c; simp)

lemma behaves_parse_interrupt_type [behaves_rules]:
  assumes c: "sound_fields j k c"
  shows "behaves j k (parse_interrupt_type c st)"
  unfolding parse_interrupt_type_def by (intro behaves_rules behaves_seq c; simp)

lemma behaves_parse_base_type [behaves_rules]:
  assumes c: "sound_fields j k c"
  shows "behaves j k (parse_base_type c st)"
  unfolding parse_base_type_def by (intro behaves_rules behaves_seq c; simp)

lemma behaves_parse_type [behaves_rules]:
  assumes c: "sound_fields j k c"
  shows "behaves j k (parse_type c)"
  unfolding parse_type_def
  by (intro behaves_loop_check eats_advance_first behaves_rules behaves_seq c; simp)

section \<open>Expressions: operators\<close>

lemma at_eof_no_infix: "at_eof s \<Longrightarrow> infix_bp (kind_ahead s 0) = (0, 0)"
  by (simp add: at_eof_def infix_bp_def)

lemma behaves_climb_step [behaves_rules]:
  assumes c: "sound_fields j k c"
  shows "behaves j k (climb_step c b lhs)"
  unfolding climb_step_def by (intro behaves_rules behaves_seq c; simp)

lemma climb_step_eof: "at_eof s \<Longrightarrow> climb_step c b lhs s = Some (Reply (Break lhs) s)"
  by (simp add: climb_step_def if_state_def check_kind_def at_eof_no_infix) (simp add: at_eof_def produce_def)

lemma eats_climb_step:
  assumes c: "sound_fields 1 0 c"
  shows "eats repeats (climb_step c b lhs)"
  unfolding climb_step_def
  by (intro eats_if_state eats_query eats_advance_first eats_Break behaves_rules behaves_seq c; simp)

text \<open>A loop without condition, whose body leaves it at the end of the file.\<close>

lemma behaves_loop_forever:
  assumes "\<And>a. behaves j k (body a)" "\<And>a. eats repeats (body a)"
    and "\<And>a s. at_eof s \<Longrightarrow> \<exists>a'. body a s = Some (Reply (Break a') s)"
  shows "behaves j k (loop (\<lambda>_ _. True) body a)"
  unfolding behaves_def
proof
  show "proceeds (loop (\<lambda>_ _. True) body a)" by (rule proceeds_loop) (rule behaves_proceeds [OF assms(1)])
  show "ends j k (loop (\<lambda>_ _. True) body a)"
  proof (rule ends_loop [OF assms(1)])
    fix a s a' s'
    assume s: "cursor_ok s" and b: "body a s = Some (Reply (Again a') s')"
    have "\<not> at_eof s" using assms(3) [of s a] b by auto
    then show "ps_pos s < ps_pos s'" using eatsD [OF assms(2) s _ b] by simp
  qed
qed

lemma behaves_parse_expr_bp [behaves_rules]:
  assumes c: "sound_fields j k c"
  shows "behaves j k (parse_expr_bp c b)"
  unfolding parse_expr_bp_def
  by (intro behaves_seq behaves_loop_forever behaves_rules c eats_climb_step sound_fields_0 [OF c]) (simp add: climb_step_eof)

lemma behaves_parse_call_arg [behaves_rules]:
  assumes c: "sound_fields j k c"
  shows "behaves j k (parse_call_arg c)"
  unfolding parse_call_arg_def by (intro behaves_rules behaves_seq c; simp)

lemma behaves_parse_call [behaves_rules]:
  assumes c: "sound_fields j k c"
  shows "behaves j k (parse_call c lhs)"
  unfolding parse_call_def by (intro behaves_rules behaves_seq c; simp)

lemma behaves_parse_member [behaves_rules]:
  assumes c: "sound_fields j k c"
  shows "behaves j k (parse_member c lhs)"
  unfolding parse_member_def by (intro behaves_rules behaves_seq c; simp)

lemma behaves_parse_index [behaves_rules]:
  assumes c: "sound_fields j k c"
  shows "behaves j k (parse_index c lhs)"
  unfolding parse_index_def by (intro behaves_rules behaves_seq c; simp)

lemma behaves_parse_unwrap [behaves_rules]: "behaves j k (parse_unwrap lhs)"
  unfolding parse_unwrap_def by (intro behaves_rules behaves_seq; simp)

lemma behaves_again [behaves_rules]: "behaves j k m \<Longrightarrow> behaves j k (again m)"
  unfolding again_def by (intro behaves_rules behaves_seq)

lemma eats_again:
  assumes "eats_on m" "behaves 1 0 m"
  shows "eats D (again m)"
  unfolding again_def by (intro eats_seq_first assms behaves_rules)

lemma eats_parse_member:
  assumes c: "sound_fields 1 0 c"
  shows "eats_on (parse_member c lhs)"
  unfolding parse_member_def by (intro eats_seq_rest eats_advance_first behaves_rules behaves_seq c; simp)

lemma behaves_postfix_step [behaves_rules]:
  assumes c: "sound_fields j k c"
  shows "behaves j k (postfix_step c lhs)"
  unfolding postfix_step_def by (intro behaves_rules c; simp)

lemma eats_postfix_step:
  assumes c: "sound_fields 1 0 c"
  shows "eats repeats (postfix_step c lhs)"
proof -
  have "eats_on (parse_call c lhs)" unfolding parse_call_def by (intro eats_advance_first behaves_rules behaves_seq c; simp)
  moreover have "eats_on (parse_index c lhs)" unfolding parse_index_def by (intro eats_advance_first behaves_rules behaves_seq c; simp)
  moreover have "eats_on (parse_unwrap lhs)" unfolding parse_unwrap_def by (intro eats_advance_first behaves_rules behaves_seq; simp)
  ultimately show ?thesis
    unfolding postfix_step_def by (intro eats_if_state eats_again eats_parse_member eats_Break behaves_rules c)
qed

lemma postfix_step_eof: "at_eof s \<Longrightarrow> postfix_step c lhs s = Some (Reply (Break lhs) s)"
  by (simp add: postfix_step_def if_state_def check_kind_def at_eof_def produce_def)

lemma behaves_parse_postfix [behaves_rules]:
  assumes c: "sound_fields j k c"
  shows "behaves j k (parse_postfix c lhs)"
  unfolding parse_postfix_def
  by (intro behaves_loop_forever behaves_rules c eats_postfix_step sound_fields_0 [OF c]) (simp add: postfix_step_eof)

lemma behaves_prefixed [behaves_rules]:
  assumes c: "sound_fields j k c"
  shows "behaves j k (prefixed c st f)"
  unfolding prefixed_def by (intro behaves_rules behaves_seq c; simp)

lemma behaves_parse_prefix [behaves_rules]:
  assumes c: "sound_fields j k c"
  shows "behaves j k (parse_prefix c)"
  unfolding parse_prefix_def by (intro behaves_rules behaves_seq c; simp)

section \<open>Statements and blocks\<close>

lemma behaves_parse_binding [behaves_rules]:
  assumes c: "sound_fields j k c"
  shows "behaves j k (parse_binding c st w f)"
  unfolding parse_binding_def by (intro behaves_rules behaves_seq c; simp)

lemma behaves_parse_with_binding [behaves_rules]:
  assumes c: "sound_fields j k c"
  shows "behaves j k (parse_with_binding c)"
  unfolding parse_with_binding_def by (intro behaves_rules behaves_seq c; simp)

lemma behaves_parse_expr_statement [behaves_rules]:
  assumes c: "sound_fields j k c"
  shows "behaves j k (parse_expr_statement c st)"
  unfolding parse_expr_statement_def by (intro behaves_rules behaves_seq c; simp)

lemma behaves_parse_label [behaves_rules]: "behaves j k (parse_label)"
  unfolding parse_label_def by (intro behaves_rules behaves_seq; simp)

lemma behaves_parse_statement [behaves_rules]:
  assumes c: "sound_fields j k c"
  shows "behaves j k (parse_statement c)"
  unfolding parse_statement_def by (intro behaves_rules behaves_seq c; simp)

lemma eats_parse_statement [eats_rules]:
  assumes c: "sound_fields 1 0 c"
  shows "eats D (parse_statement c)"
proof -
  have "eats D (parse_binding c st w f)" for st w f
    unfolding parse_binding_def by (intro eats_advance_first behaves_rules behaves_seq c; simp)
  moreover have "eats D (parse_expr_statement c st)" for st
    unfolding parse_expr_statement_def by (intro eats_seq_first eats_rules behaves_rules behaves_seq c; simp)
  ultimately show ?thesis
    unfolding parse_statement_def
    by (intro eats_this_range eats_rules eats_advance_first behaves_rules behaves_seq c; simp)
qed

lemma behaves_loop_body:
  "(\<And>a. behaves j k (body a)) \<Longrightarrow> (\<And>a. eats repeats (body a)) \<Longrightarrow> behaves j k (loop (\<lambda>_. in_body) body a)"
  by (rule behaves_loop) (auto simp: in_body_def)

lemma behaves_parse_statements [behaves_rules]:
  assumes c: "sound_fields j k c"
  shows "behaves j k (parse_statements c)"
  unfolding parse_statements_def
  by (intro behaves_loop_body eats_seq_first eats_parse_statement behaves_rules behaves_seq c sound_fields_0 [OF c]; simp)

lemma behaves_parse_block_expr [behaves_rules]:
  assumes c: "sound_fields j k c"
  shows "behaves j k (parse_block_expr c)"
  unfolding parse_block_expr_def by (intro behaves_rules behaves_seq c; simp)

section \<open>Primaries\<close>

lemma behaves_parse_literal [behaves_rules]: "behaves j k (parse_literal st f)"
  unfolding parse_literal_def by (intro behaves_rules behaves_seq; simp)

lemma behaves_interp_segment [behaves_rules]:
  assumes c: "sound_fields j k c"
  shows "behaves j k (interp_segment c xs)"
  unfolding interp_segment_def by (intro behaves_rules behaves_seq c; simp)

lemma eats_interp_segment:
  assumes c: "sound_fields 1 0 c"
  shows "eats D (interp_segment c xs)"
proof -
  have "eats D (seq (query g) (\<lambda>got. seq (error_here (f got)) (\<lambda>_. seq advance_token (\<lambda>_. produce (Again xs)))))" for g and f :: "token_kind \<Rightarrow> string"
    by (intro eats_query eats_seq_rest eats_advance_first behaves_rules behaves_seq)
  then show ?thesis
    unfolding interp_segment_def
    by (intro eats_dispatch_Cons eats_dispatch_Nil eats_advance_first eats_seq_first [of lexeme_here]
        eats_lexeme_here behaves_rules behaves_seq c; simp)
qed

lemma behaves_parse_interp_string [behaves_rules]:
  assumes c: "sound_fields j k c"
  shows "behaves j k (parse_interp_string c st)"
  unfolding parse_interp_string_def
  by (intro behaves_seq behaves_loop eats_interp_segment behaves_rules c sound_fields_0 [OF c]; simp)

lemma behaves_parse_leading_dot [behaves_rules]: "behaves j k (parse_leading_dot st)"
  unfolding parse_leading_dot_def by (intro behaves_rules behaves_seq; simp)

lemma behaves_parse_paren_expr [behaves_rules]:
  assumes c: "sound_fields j k c"
  shows "behaves j k (parse_paren_expr c st)"
  unfolding parse_paren_expr_def by (intro behaves_rules behaves_seq c; simp)

lemma behaves_parse_vector_lit [behaves_rules]:
  assumes c: "sound_fields j k c"
  shows "behaves j k (parse_vector_lit c st)"
  unfolding parse_vector_lit_def by (intro behaves_rules behaves_seq c; simp)

lemma behaves_closure_params [behaves_rules]: "behaves j k (closure_params)"
  unfolding closure_params_def by (intro behaves_rules behaves_seq; simp)

lemma behaves_parse_closure [behaves_rules]:
  assumes c: "sound_fields j k c"
  shows "behaves j k (parse_closure c st)"
  unfolding parse_closure_def by (intro behaves_rules behaves_seq c; simp)

lemma behaves_parse_if [behaves_rules]:
  assumes c: "sound_fields j k c"
  shows "behaves j k (parse_if c st)"
  unfolding parse_if_def by (intro behaves_rules behaves_seq c; simp)

lemma behaves_parse_match_arm [behaves_rules]:
  assumes c: "sound_fields j k c"
  shows "behaves j k (parse_match_arm c)"
  unfolding parse_match_arm_def by (intro behaves_rules behaves_seq c; simp)

lemma eats_parse_match_arm:
  assumes c: "sound_fields 1 0 c"
  shows "eats D (parse_match_arm c)"
  unfolding parse_match_arm_def if_match_def
proof (rule eats_seq_rest)
  have b: "eats D (seq (expect_kind TkColon w) (\<lambda>_. seq (p_expr c 0) (\<lambda>b. produce (f b))))" for w f
    by (intro eats_seq_rest [OF behaves_expect] eats_seq_first eats_rules behaves_rules behaves_seq c)
  show "eats D (if ok then seq (expect_kind TkColon w) (\<lambda>_. seq (p_expr c 0) (\<lambda>b. produce (f b)))
      else seq (expect_kind (TkKw KwCase) w') (\<lambda>_. seq (p_pattern c) (\<lambda>p. seq (opt_after (TkKw KwWhere) (p_expr c 0)) (\<lambda>g.
        seq (expect_kind TkColon w'') (\<lambda>_. seq (p_expr c 0) (\<lambda>b. produce (f' p g b)))))))" for ok w w' w'' f f'
    by (intro eats_if b) (intro eats_seq_rest [OF behaves_expect] eats_seq_rest [OF sound_fieldsD(2) [OF c]]
      eats_seq_rest [OF behaves_opt_after] b behaves_rules behaves_seq c)
qed (intro behaves_rules behaves_seq c)+

lemma behaves_parse_match [behaves_rules]:
  assumes c: "sound_fields j k c"
  shows "behaves j k (parse_match c st)"
  unfolding parse_match_def
  by (intro behaves_seq behaves_loop_body eats_seq_first eats_parse_match_arm behaves_rules c sound_fields_0 [OF c]; simp)

lemma behaves_select_default [behaves_rules]:
  assumes c: "sound_fields j k c"
  shows "behaves j k (select_default c v)"
  unfolding select_default_def by (intro behaves_rules behaves_seq c; simp)

lemma behaves_select_timeout [behaves_rules]:
  assumes c: "sound_fields j k c"
  shows "behaves j k (select_timeout c v)"
  unfolding select_timeout_def by (intro behaves_rules behaves_seq c; simp)

lemma behaves_select_on [behaves_rules]:
  assumes c: "sound_fields j k c"
  shows "behaves j k (select_on c v)"
  unfolding select_on_def by (intro behaves_rules behaves_seq c; simp)

lemma behaves_select_arm_step [behaves_rules]:
  assumes c: "sound_fields j k c"
  shows "behaves j k (select_arm_step c v)"
  unfolding select_arm_step_def by (intro behaves_rules behaves_seq c; simp)

lemma eats_select_arm_step:
  assumes c: "sound_fields 1 0 c"
  shows "eats repeats (select_arm_step c v)"
proof -
  have "eats repeats (select_default c v)"
    unfolding select_default_def by (intro eats_advance_first behaves_rules behaves_seq c; simp)
  moreover have "eats repeats (select_timeout c v)"
    unfolding select_timeout_def by (intro eats_advance_first behaves_rules behaves_seq c; simp)
  moreover have "eats repeats (select_on c v)"
    unfolding select_on_def by (intro eats_advance_first behaves_rules behaves_seq c; simp)
  ultimately show ?thesis
    unfolding select_arm_step_def by (intro eats_if_state eats_seq_rest [OF behaves_error_here] eats_Break behaves_rules)
qed

lemma behaves_parse_select [behaves_rules]:
  assumes c: "sound_fields j k c"
  shows "behaves j k (parse_select c st)"
  unfolding parse_select_def
  by (intro behaves_seq behaves_loop_body eats_select_arm_step behaves_rules c sound_fields_0 [OF c]; simp)

lemma behaves_parse_catch_binding [behaves_rules]:
  assumes c: "sound_fields j k c"
  shows "behaves j k (parse_catch_binding c)"
  unfolding parse_catch_binding_def by (intro behaves_rules behaves_seq c; simp)

lemma behaves_parse_do_catch [behaves_rules]:
  assumes c: "sound_fields j k c"
  shows "behaves j k (parse_do_catch c st)"
  unfolding parse_do_catch_def by (intro behaves_rules behaves_seq c; simp)

lemma behaves_parse_comptime [behaves_rules]:
  assumes c: "sound_fields j k c"
  shows "behaves j k (parse_comptime c st)"
  unfolding parse_comptime_def by (intro behaves_rules behaves_seq c; simp)

lemma behaves_quote_item [behaves_rules]:
  assumes c: "sound_fields j k c"
  shows "behaves j k (quote_item c ds)"
  unfolding quote_item_def by (intro behaves_rules behaves_seq c; simp)

text \<open>A round that goes on only if the position changed.\<close>

lemma pos_changed:
  assumes "behaves 1 0 m"
  shows "eats repeats (seq (query ps_pos) (\<lambda>p. seq m (\<lambda>x. seq (query ps_pos) (\<lambda>q.
      if q = p then seq (f x) (\<lambda>_. produce (Break (b x))) else produce (Again (g x))))))"
  unfolding eats_def
proof (intro allI impI)
  fix s :: pstate and x u
  let ?n = "seq m (\<lambda>x. seq (query ps_pos) (\<lambda>q.
      if q = ps_pos s then seq (f x) (\<lambda>_. produce (Break (b x))) else produce (Again (g x))))"
  assume s: "cursor_ok s" and x: "repeats x"
    and r: "seq (query ps_pos) (\<lambda>p. seq m (\<lambda>x. seq (query ps_pos) (\<lambda>q.
      if q = p then seq (f x) (\<lambda>_. produce (Break (b x))) else produce (Again (g x))))) s = Some (Reply x u)"
  from r have "?n s = Some (Reply x u)" by (simp add: seq_def query_def)
  then obtain y t where t: "m s = Some (Reply y t)"
    "seq (query ps_pos) (\<lambda>q. if q = ps_pos s then seq (f y) (\<lambda>_. produce (Break (b y))) else produce (Again (g y))) t
      = Some (Reply x u)"
    by (rule seq_reply)
  have g: "goes s t" by (rule proceedsD [OF behaves_proceeds [OF assms] s t(1)])
  have "ps_pos t \<noteq> ps_pos s"
  proof
    assume "ps_pos t = ps_pos s"
    with t(2) have "seq (f y) (\<lambda>_. produce (Break (b y))) t = Some (Reply x u)" by (simp add: seq_def query_def)
    then obtain z v where "produce (Break (b y)) v = Some (Reply x u)" by (rule seq_reply)
    with x show False by (auto simp: produce_def)
  qed
  moreover from this t(2) have "u = t" by (simp add: seq_def query_def produce_def)
  ultimately show "ps_pos s < ps_pos u" using goes_pos [OF g] by simp
qed

lemma eats_recover:
  assumes "behaves 1 0 m"
  shows "eats repeats (recover m v)"
  unfolding eats_def
proof (intro allI impI)
  fix s x u assume s: "cursor_ok s" "\<not> at_eof s" and x: "repeats x" and r: "recover m v s = Some (Reply x u)"
  from r have "seq sync_to_decl (\<lambda>_. seq (query ps_pos) (\<lambda>q.
      if q = ps_pos s then produce (Break v) else seq m (\<lambda>_. produce (Again v)))) s = Some (Reply x u)"
    by (simp add: recover_def seq_def query_def)
  then obtain y t where t: "sync_to_decl s = Some (Reply y t)"
    "seq (query ps_pos) (\<lambda>q. if q = ps_pos s then produce (Break v) else seq m (\<lambda>_. produce (Again v))) t
      = Some (Reply x u)"
    by (rule seq_reply)
  have g: "goes s t" by (rule proceedsD [OF behaves_proceeds [OF behaves_sync_to_decl] s(1) t(1)])
  have p: "ps_pos t \<noteq> ps_pos s" using t(2) x by (auto simp: seq_def query_def produce_def)
  with t(2) have "seq m (\<lambda>_. produce (Again v)) t = Some (Reply x u)" by (simp add: seq_def query_def)
  from proceedsD [OF proceeds_seq [OF behaves_proceeds [OF assms] behaves_proceeds [OF behaves_produce]] goes_ok [OF g] this]
  have "ps_pos t \<le> ps_pos u" by (rule goes_pos)
  with goes_pos [OF g] p show "ps_pos s < ps_pos u" by simp
qed

lemma behaves_recover [behaves_rules]: "behaves j k m \<Longrightarrow> behaves j k (recover m v)"
  unfolding recover_def by (intro behaves_rules behaves_seq)

lemma eats_quote_step:
  assumes c: "sound_fields 1 0 c"
  shows "eats repeats (seq (query ps_pos) (\<lambda>p. seq (quote_item c ds) (\<lambda>ds'. seq skip_newlines (\<lambda>_.
      seq (query ps_pos) (\<lambda>q. if q = p then seq (error_here w) (\<lambda>_. produce (Break ds')) else produce (Again ds'))))))"
proof -
  have "behaves 1 0 (seq (quote_item c ds) (\<lambda>ds'. seq skip_newlines (\<lambda>_. produce ds')))"
    by (intro behaves_rules behaves_seq c)
  from pos_changed [OF this, of "\<lambda>_. error_here w" "\<lambda>x. x" "\<lambda>x. x"] show ?thesis
    by (simp add: seq_assoc seq_produce)
qed

lemma behaves_parse_quote_decls [behaves_rules]:
  assumes c: "sound_fields j k c"
  shows "behaves j k (parse_quote_decls c st)"
  unfolding parse_quote_decls_def
  by (intro behaves_seq behaves_loop_body eats_quote_step behaves_rules c sound_fields_0 [OF c]; simp)

lemma behaves_parse_quote_expr [behaves_rules]:
  assumes c: "sound_fields j k c"
  shows "behaves j k (parse_quote_expr c st)"
  unfolding parse_quote_expr_def by (intro behaves_rules behaves_seq c; simp)

lemma behaves_parse_quote [behaves_rules]:
  assumes c: "sound_fields j k c"
  shows "behaves j k (parse_quote c st)"
  unfolding parse_quote_def by (intro behaves_rules behaves_seq c; simp)

lemma behaves_parse_embed [behaves_rules]: "behaves j k (parse_embed st)"
  unfolding parse_embed_def by (intro behaves_rules behaves_seq; simp)

lemma behaves_parse_macro_call [behaves_rules]:
  assumes c: "sound_fields j k c"
  shows "behaves j k (parse_macro_call c st nm)"
  unfolding parse_macro_call_def by (intro behaves_rules behaves_seq c; simp)

lemma behaves_parse_intrinsic [behaves_rules]:
  assumes c: "sound_fields j k c"
  shows "behaves j k (parse_intrinsic c st)"
  unfolding parse_intrinsic_def by (intro behaves_rules behaves_seq c; simp)

lemma behaves_parse_no_expr [behaves_rules]: "behaves j k (parse_no_expr st)"
  unfolding parse_no_expr_def by (intro behaves_rules behaves_seq; simp)

lemma behaves_parse_primary [behaves_rules]:
  assumes c: "sound_fields j k c"
  shows "behaves j k (parse_primary c)"
  unfolding parse_primary_def by (intro behaves_rules behaves_seq c; simp)

section \<open>Declarations\<close>

lemma behaves_where_clause [behaves_rules]:
  assumes c: "sound_fields j k c"
  shows "behaves j k (where_clause c gs)"
  unfolding where_clause_def by (intro behaves_rules behaves_seq c; simp)

lemma eats_where_clause:
  assumes c: "sound_fields 1 0 c"
  shows "eats repeats (where_clause c gs)"
  unfolding where_clause_def
  by (intro eats_if_state eats_advance_first eats_seq_rest [OF behaves_error_here] eats_Break behaves_rules behaves_seq c; simp)

lemma where_clause_eof: "at_eof s \<Longrightarrow> where_clause c gs s \<noteq> Some (Reply (Again v) s')"
  by (simp add: where_clause_def if_state_def check_kind_def at_eof_def seq_def error_here_def this_range_def
      query_def emit_error_def produce_def)

lemma behaves_parse_where_opt [behaves_rules]:
  assumes c: "sound_fields j k c"
  shows "behaves j k (parse_where_opt c gs)"
proof -
  let ?body = "\<lambda>(first, gs). if first then where_clause c gs else seq advance_token (\<lambda>_. where_clause c gs)"
  have b: "behaves j k (?body v)" for v by (intro behaves_rules behaves_seq c)
  have "behaves j k (loop (\<lambda>(first, gs) s. first \<or> check_kind TkComma s) ?body v)" for v
    unfolding behaves_def
  proof
    show "proceeds (loop (\<lambda>(first, gs) s. first \<or> check_kind TkComma s) ?body v)"
      by (rule proceeds_loop) (rule behaves_proceeds [OF b])
    show "ends j k (loop (\<lambda>(first, gs) s. first \<or> check_kind TkComma s) ?body v)"
    proof (rule ends_loop [OF b])
      fix v s v' s'
      assume s: "cursor_ok s" and q: "(\<lambda>(first, gs) s. first \<or> check_kind TkComma s) v s"
        and r: "?body v s = Some (Reply (Again v') s')"
      have c0: "sound_fields 1 0 c" by (rule sound_fields_0 [OF c])
      have m: "eats repeats (?body v)"
        by (intro eats_prod eats_if eats_where_clause eats_advance_first behaves_rules c0)
      have e: "\<not> at_eof s"
      proof
        assume e: "at_eof s"
        with q have "fst v" by (auto dest: check_not_eof)
        with r where_clause_eof [OF e] show False by (simp split: prod.splits)
      qed
      show "ps_pos s < ps_pos s'" by (rule eatsD [OF m s e r]) simp
    qed
  qed
  then show ?thesis unfolding parse_where_opt_def by (intro behaves_rules behaves_seq)
qed

lemma behaves_parse_func [behaves_rules]:
  assumes c: "sound_fields j k c"
  shows "behaves j k (parse_func c at vi asy rc ct)"
  unfolding parse_func_def by (intro behaves_rules behaves_seq c; simp)

lemma behaves_method_modes [behaves_rules]: "behaves j k (method_modes)"
  unfolding method_modes_def by (intro behaves_rules behaves_seq; simp)

lemma behaves_struct_method [behaves_rules]:
  assumes c: "sound_fields j k c"
  shows "behaves j k (struct_method c at v)"
  unfolding struct_method_def by (intro behaves_rules behaves_seq c; simp)

lemma behaves_struct_deinit [behaves_rules]:
  assumes c: "sound_fields j k c"
  shows "behaves j k (struct_deinit c v)"
  unfolding struct_deinit_def by (intro behaves_rules behaves_seq c; simp)

lemma behaves_struct_field [behaves_rules]:
  assumes c: "sound_fields j k c"
  shows "behaves j k (struct_field c at kd v)"
  unfolding struct_field_def by (intro behaves_rules behaves_seq c; simp)

lemma behaves_struct_item [behaves_rules]:
  assumes c: "sound_fields j k c"
  shows "behaves j k (struct_item c v)"
  unfolding struct_item_def by (intro behaves_rules behaves_seq c; simp)

lemma eats_parse_func:
  assumes c: "sound_fields 1 0 c"
  shows "eats D (parse_func c at vi asy rc ct)"
  unfolding parse_func_def by (intro eats_this_range eats_advance_first behaves_rules behaves_seq c; simp)

lemma eats_struct_item:
  assumes c: "sound_fields 1 0 c"
  shows "eats repeats (struct_item c v)"
proof -
  have "eats repeats (struct_method c at v)" for at
    unfolding struct_method_def
    by (intro eats_seq_rest [OF behaves_method_modes] eats_prod eats_seq_first eats_parse_func behaves_rules behaves_seq c)
  moreover have "eats repeats (struct_deinit c v)"
    unfolding struct_deinit_def by (intro eats_advance_first behaves_rules behaves_seq c)
  moreover have "eats repeats (struct_field c at kd v)" for at kd
    unfolding struct_field_def by (intro eats_advance_first behaves_rules behaves_seq c)
  ultimately show ?thesis
    unfolding struct_item_def
    by (intro eats_seq_rest [OF behaves_parse_attributes [OF c]] eats_dispatch_Cons eats_dispatch_Nil
        eats_seq_rest [OF behaves_error_here] eats_recover behaves_rules behaves_seq c)
qed

lemma behaves_parse_struct [behaves_rules]:
  assumes c: "sound_fields j k c"
  shows "behaves j k (parse_struct c at vi lin)"
  unfolding parse_struct_def
  by (intro behaves_seq behaves_loop_body eats_struct_item behaves_rules c sound_fields_0 [OF c]; simp)

lemma behaves_case_payload_item [behaves_rules]:
  assumes c: "sound_fields j k c"
  shows "behaves j k (case_payload_item c)"
  unfolding case_payload_item_def by (intro behaves_rules behaves_seq c; simp)

lemma behaves_enum_case_item [behaves_rules]:
  assumes c: "sound_fields j k c"
  shows "behaves j k (enum_case_item c v)"
  unfolding enum_case_item_def by (intro behaves_rules behaves_seq c; simp)

lemma behaves_enum_member [behaves_rules]:
  assumes c: "sound_fields j k c"
  shows "behaves j k (enum_member c v)"
  unfolding enum_member_def by (intro behaves_rules behaves_seq c; simp)

lemma eats_enum_item:
  assumes c: "sound_fields 1 0 c"
  shows "eats repeats (if_check (TkKw KwCase) (enum_case_item c v) (enum_member c v))"
proof -
  have "eats repeats (enum_case_item c v)"
    unfolding enum_case_item_def by (intro eats_advance_first behaves_rules behaves_seq c; simp)
  moreover have "eats repeats (enum_member c v)"
    unfolding enum_member_def
    by (intro eats_seq_rest [OF behaves_parse_attributes [OF c]] eats_if_state eats_seq_first eats_parse_func
        eats_seq_rest [OF behaves_error_here] eats_recover behaves_rules behaves_seq c)
  ultimately show ?thesis by (rule eats_if_state)
qed

lemma behaves_parse_enum [behaves_rules]:
  assumes c: "sound_fields j k c"
  shows "behaves j k (parse_enum c at vi)"
  unfolding parse_enum_def
  by (intro behaves_seq behaves_loop_body eats_enum_item behaves_rules c sound_fields_0 [OF c]; simp)

lemma behaves_protocol_assoc [behaves_rules]:
  assumes c: "sound_fields j k c"
  shows "behaves j k (protocol_assoc c v)"
  unfolding protocol_assoc_def by (intro behaves_rules behaves_seq c; simp)

lemma behaves_protocol_requirement [behaves_rules]:
  assumes c: "sound_fields j k c"
  shows "behaves j k (protocol_requirement c v)"
  unfolding protocol_requirement_def by (intro behaves_rules behaves_seq c; simp)

lemma behaves_parse_conformances [behaves_rules]:
  assumes c: "sound_fields j k c"
  shows "behaves j k (parse_conformances c)"
  unfolding parse_conformances_def by (intro behaves_rules behaves_seq c; simp)

lemma eats_protocol_item:
  assumes c: "sound_fields 1 0 c"
  shows "eats repeats (if_check (TkKw KwType) (protocol_assoc c v) (protocol_requirement c v))"
proof -
  have "eats repeats (protocol_assoc c v)"
    unfolding protocol_assoc_def by (intro eats_advance_first behaves_rules behaves_seq c; simp)
  moreover have "eats repeats (protocol_requirement c v)"
    unfolding protocol_requirement_def
    by (intro eats_seq_rest [OF behaves_method_modes] eats_prod eats_if_state eats_seq_rest [OF behaves_match]
        eats_seq_first [OF eats_parse_func] eats_seq_rest [OF behaves_error_here] eats_recover behaves_rules behaves_seq c)
  ultimately show ?thesis by (rule eats_if_state)
qed

lemma behaves_parse_protocol [behaves_rules]:
  assumes c: "sound_fields j k c"
  shows "behaves j k (parse_protocol c vi)"
  unfolding parse_protocol_def
  by (intro behaves_seq behaves_loop_body eats_protocol_item behaves_rules c sound_fields_0 [OF c]; simp)

lemma behaves_extension_member [behaves_rules]:
  assumes c: "sound_fields j k c"
  shows "behaves j k (extension_member c ms)"
  unfolding extension_member_def by (intro behaves_rules behaves_seq c; simp)

text \<open>The first action takes a token, or gives a result after which the rest does.\<close>

lemma eats_seq_either:
  assumes m: "eats (\<lambda>x. \<not> N x) m" "behaves 1 0 m" and f: "\<And>x. behaves 1 0 (f x)" "\<And>x. N x \<Longrightarrow> eats D (f x)"
  shows "eats D (seq m f)"
  unfolding eats_def
proof (intro allI impI)
  fix s y u assume s: "cursor_ok s" "\<not> at_eof s" and r: "seq m f s = Some (Reply y u)" and y: "D y"
  from r obtain x t where t: "m s = Some (Reply x t)" "f x t = Some (Reply y u)" by (rule seq_reply)
  have g: "goes s t" by (rule proceedsD [OF behaves_proceeds [OF m(2)] s(1) t(1)])
  have u: "ps_pos t \<le> ps_pos u"
    by (rule goes_pos [OF proceedsD [OF behaves_proceeds [OF f(1)] goes_ok [OF g] t(2)]])
  show "ps_pos s < ps_pos u"
  proof (cases "N x \<and> ps_pos t = ps_pos s")
    case True
    then have "\<not> at_eof t" using at_eof_same [OF g s(1)] s(2) by simp
    from eatsD [OF f(2) goes_ok [OF g] this t(2) y] True show ?thesis by simp
  next
    case False
    with eatsD [OF m(1) s t(1)] goes_pos [OF g] u show ?thesis by fastforce
  qed
qed

lemma eats_extension_member:
  assumes c: "sound_fields 1 0 c"
  shows "eats repeats (extension_member c ms)"
  unfolding extension_member_def
proof (intro eats_seq_rest [OF behaves_parse_attributes [OF c]] eats_seq_either [where N = "\<lambda>d. d = None"] behaves_rules behaves_seq c)
  show "eats (\<lambda>d. d \<noteq> None) (p_decl c at)" for at using c by (simp add: sound_fields_def)
  show "eats repeats (case d of None \<Rightarrow> recover skip_newlines ms
      | Some m \<Rightarrow> seq skip_newlines (\<lambda>_. produce (Again (ms @ [m]))))" if "d = None" for d
    using that by (simp add: eats_recover behaves_skip_newlines del: One_nat_def)
qed

lemma behaves_parse_extension [behaves_rules]:
  assumes c: "sound_fields j k c"
  shows "behaves j k (parse_extension c at)"
  unfolding parse_extension_def
  by (intro behaves_seq behaves_loop_body eats_extension_member behaves_rules c sound_fields_0 [OF c]; simp)

lemma behaves_parse_opaque [behaves_rules]:
  assumes c: "sound_fields j k c"
  shows "behaves j k (parse_opaque c vi)"
  unfolding parse_opaque_def by (intro behaves_rules behaves_seq c; simp)

lemma behaves_parse_const [behaves_rules]:
  assumes c: "sound_fields j k c"
  shows "behaves j k (parse_const c vi)"
  unfolding parse_const_def by (intro behaves_rules behaves_seq c; simp)

lemma behaves_parse_static [behaves_rules]:
  assumes c: "sound_fields j k c"
  shows "behaves j k (parse_static c at vi)"
  unfolding parse_static_def by (intro behaves_rules behaves_seq c; simp)

lemma behaves_parse_derive [behaves_rules]:
  assumes c: "sound_fields j k c"
  shows "behaves j k (parse_derive c)"
  unfolding parse_derive_def by (intro behaves_rules behaves_seq c; simp)

lemma behaves_take_if [behaves_rules]: "behaves j k (take_if P)"
  unfolding take_if_def by (intro behaves_rules behaves_seq; simp)

lemma behaves_func_modes [behaves_rules]: "behaves j k (func_modes)"
  unfolding func_modes_def by (intro behaves_rules behaves_seq; simp)

lemma behaves_parse_decl [behaves_rules]:
  assumes c: "sound_fields j k c"
  shows "behaves j k (parse_decl c at)"
  unfolding parse_decl_def by (intro behaves_rules behaves_seq c; simp)

lemma eats_produce: "\<not> D x \<Longrightarrow> eats D (produce x)"
  by (simp add: eats_def produce_def)

lemma eats_some_of: "eats_on m \<Longrightarrow> behaves 1 0 m \<Longrightarrow> eats D (some_of m)"
  unfolding some_of_def by (intro eats_seq_first behaves_rules)

text \<open>A declaration takes a token, or is none.\<close>

lemma eats_parse_decl:
  assumes c: "sound_fields 1 0 c"
  shows "eats (\<lambda>d. d \<noteq> None) (parse_decl c at)"
proof -
  have m: "eats_on (parse_struct c at vi lin)" "eats_on (parse_enum c at vi)" "eats_on (parse_protocol c vi)"
    "eats_on (parse_extension c at)" "eats_on (parse_opaque c vi)" "eats_on (parse_const c vi)"
    "eats_on (parse_static c at vi)" "eats_on (parse_derive c)" for vi lin
    unfolding parse_struct_def parse_enum_def parse_protocol_def parse_extension_def parse_opaque_def
      parse_const_def parse_static_def parse_derive_def
    by (intro eats_this_range eats_advance_first behaves_rules behaves_seq c behaves_loop_body eats_struct_item
        eats_enum_item eats_protocol_item eats_extension_member; simp)+
  show ?thesis
    unfolding parse_decl_def
    by (intro eats_seq_rest [OF behaves_parse_visibility] eats_seq_rest [OF behaves_func_modes] eats_prod
        eats_dispatch_Cons eats_dispatch_Nil eats_some_of m eats_parse_func eats_advance_first
        eats_query eats_seq_rest [OF behaves_error_here] eats_produce behaves_rules behaves_seq c; simp)
qed

text \<open>Expressions take a token.\<close>

lemma eats_takes: "eats_on m \<Longrightarrow> t \<noteq> TkEof \<Longrightarrow> takes t m"
  unfolding eats_def takes_def using check_not_eof by blast

lemma takes_if_state: "takes t m1 \<Longrightarrow> takes t m2 \<Longrightarrow> takes t (if_state P m1 m2)"
  by (simp add: takes_def if_state_def)

lemma eats_dispatch_takes:
  "takes t m \<Longrightarrow> eats D (dispatch es d) \<Longrightarrow> eats D (dispatch ((t, m) # es) d)"
  by (simp add: eats_def takes_def if_state_def)

lemma eats_make_node:
  assumes "\<And>x. eats D (f x)"
  shows "eats D (seq make_node f)"
  unfolding eats_def
proof (intro allI impI)
  fix s :: pstate and x u
  let ?s = "s\<lparr>ps_next := ps_next s + 1\<rparr>"
  assume s: "cursor_ok s" "\<not> at_eof s" and r: "seq make_node f s = Some (Reply x u)" and x: "D x"
  have "cursor_ok ?s" "\<not> at_eof ?s"
    using s by (simp_all add: cursor_ok_def at_eof_def kind_ahead_def peek_ahead_def)
  moreover have "f (ps_next s) ?s = Some (Reply x u)" using r by (simp add: seq_def make_node_def)
  ultimately have "ps_pos ?s < ps_pos u" using x by (rule eatsD [OF assms])
  then show "ps_pos s < ps_pos u" by simp
qed

lemma eats_parse_literal: "eats D (parse_literal st f)"
  unfolding parse_literal_def by (intro eats_make_node eats_advance_first behaves_rules behaves_seq)

lemma eats_parse_splice:
  assumes c: "sound_fields 1 0 c"
  shows "eats D (parse_splice c)"
  unfolding parse_splice_def by (intro eats_this_range eats_advance_first behaves_rules behaves_seq c; simp)

text \<open>Without an expression the parser skips a token.\<close>

lemma eats_parse_no_expr: "eats D (parse_no_expr st)"
proof -
  have "eats_on (if_state at_eof (produce ()) (seq advance_token (\<lambda>_. produce ())))"
    by (auto simp: eats_def if_state_def seq_def advance_token_def produce_def pos_move_on)
  then show ?thesis
    unfolding parse_no_expr_def
    by (intro eats_query eats_seq_rest [OF behaves_error_here] eats_seq_first behaves_rules behaves_seq)
qed

lemma eats_parse_primary:
  assumes c: "sound_fields 1 0 c"
  shows "eats D (parse_primary c)"
proof -
  have m: "eats_on (parse_interp_string c st)" "eats_on (parse_leading_dot st)" "eats_on (parse_paren_expr c st)"
    "eats_on (parse_vector_lit c st)" "eats_on (parse_closure c st)" "eats_on (parse_if c st)"
    "eats_on (parse_match c st)" "eats_on (parse_select c st)" "eats_on (parse_do_catch c st)"
    "eats_on (parse_comptime c st)" "eats_on (parse_quote c st)" "eats_on (parse_intrinsic c st)" for st
    unfolding parse_interp_string_def parse_leading_dot_def parse_paren_expr_def parse_vector_lit_def
      parse_closure_def parse_if_def parse_match_def parse_select_def parse_do_catch_def parse_comptime_def
      parse_quote_def parse_intrinsic_def
    by (intro eats_advance_first behaves_rules behaves_seq c behaves_loop_body behaves_loop eats_interp_segment
        eats_select_arm_step eats_seq_first eats_parse_match_arm; simp)+
  have b: "takes TkLBrace (if_state P (parse_closure c st) (p_block c))" for P st
  proof (rule takes_if_state)
    show "takes TkLBrace (parse_closure c st)" by (rule eats_takes [OF m(5)]) simp
    show "takes TkLBrace (p_block c)" using c by (simp add: sound_fields_def)
  qed
  show ?thesis
    unfolding parse_primary_def
    by (intro eats_this_range eats_dispatch_takes [OF b] eats_dispatch_Cons eats_dispatch_Nil
        eats_any [OF m(1)] eats_any [OF m(2)] eats_any [OF m(3)] eats_any [OF m(4)] eats_any [OF m(6)]
        eats_any [OF m(7)] eats_any [OF m(8)] eats_any [OF m(9)] eats_any [OF m(10)] eats_any [OF m(11)]
        eats_any [OF m(12)] eats_parse_literal eats_parse_splice eats_parse_no_expr c)
qed

lemma eats_parse_prefix:
  assumes c: "sound_fields 1 0 c"
  shows "eats D (parse_prefix c)"
proof -
  have "eats D (prefixed c st f)" for st f
    unfolding prefixed_def by (intro eats_advance_first behaves_rules behaves_seq c)
  then show ?thesis
    unfolding parse_prefix_def
    by (intro eats_this_range eats_dispatch_Cons eats_dispatch_Nil eats_seq_first eats_rules behaves_rules c)
qed

lemma eats_parse_expr_bp:
  assumes c: "sound_fields 1 0 c"
  shows "eats D (parse_expr_bp c b)"
  unfolding parse_expr_bp_def
  by (intro eats_seq_first eats_rules behaves_loop_forever behaves_rules c eats_climb_step) (simp add: climb_step_eof)

lemma takes_block:
  assumes c: "sound_fields 1 0 c"
  shows "takes TkLBrace (parse_block_expr c)"
  unfolding takes_def
proof (intro allI impI)
  fix s :: pstate and x u
  assume s: "cursor_ok s" "check_kind TkLBrace s" and r: "parse_block_expr c s = Some (Reply x u)"
  let ?t = "s\<lparr>ps_next := ps_next s + 1\<rparr>"
  have t: "cursor_ok ?t" "\<not> at_eof ?t" "check_kind TkLBrace ?t"
    using s by (simp_all add: cursor_ok_def check_kind_def at_eof_def kind_ahead_def peek_ahead_def)
  have "seq advance_token (\<lambda>_. seq skip_newlines (\<lambda>_. seq (parse_statements c) (\<lambda>ss.
      seq (expect_kind TkRBrace (quoted ''}'' @ '' to close block'')) (\<lambda>_.
      close_node (ps_next s) (tok_range (peek_ahead s 0)) (\<lambda>h. BlockExpr h ss))))) ?t = Some (Reply x u)"
    using r t(3) by (simp add: parse_block_expr_def seq_def this_range_def query_def make_node_def expect_kind_def
        match_kind_def produce_def advance_token_def)
  then have "ps_pos ?t < ps_pos u"
    by (rule eatsD [OF eats_advance_first t(1,2), rotated]) (intro behaves_rules behaves_seq c | simp)+
  then show "ps_pos s < ps_pos u" by simp
qed

end
