(* ===== verification/Parser_Returns.thy ===== *)
theory Parser_Returns
  imports Parser_Safety
begin

text \<open>
  The parser returns. A production calls another one either after it took a token, or with a lower
  rank: a type, a declaration or a block at its brace call nothing before they take a token; below
  them come primaries, prefix expressions, expressions, and patterns and blocks without a brace. So
  the rank and eight times the number of tokens that are left bound the depth of the recursion.
\<close>

section \<open>Ranks\<close>

definition fuelled :: "nat \<Rightarrow> productions \<Rightarrow> bool" where
  "fuelled k c \<longleftrightarrow>
     behaves 1 k (p_type c) \<and> (\<forall>as. behaves 1 k (p_decl c as)) \<and> behaves 2 k (p_primary c) \<and> behaves 3 k (p_prefix c)
     \<and> (\<forall>b. behaves 4 k (p_expr c b)) \<and> behaves 5 k (p_pattern c) \<and> behaves 5 k (p_block c)
     \<and> starts TkLBrace 1 k (p_block c)
     \<and> (\<forall>b. eats_on (p_expr c b)) \<and> eats_on (p_prefix c) \<and> eats_on (p_primary c)
     \<and> (\<forall>as. eats (\<lambda>d. d \<noteq> None) (p_decl c as)) \<and> takes TkLBrace (p_block c)"

lemma behaves_mono_all: "\<forall>b. behaves j k (f b) \<Longrightarrow> j \<le> j' \<Longrightarrow> behaves j' k (f x)"
  using behaves_mono by blast

lemma fuelled_sound: "fuelled k c \<Longrightarrow> sound_fields 8 k c"
  unfolding fuelled_def sound_fields_def
  by (elim conjE, intro conjI allI) (assumption | (erule behaves_mono, simp) | (erule behaves_mono_all, simp) | erule spec)+

lemma starts_mono: "starts t j k m \<Longrightarrow> j \<le> j' \<Longrightarrow> starts t j' k m"
  unfolding starts_def by (meson add_le_mono le_refl le_trans)

lemma starts_seq:
  assumes "starts t j k m" "proceeds m" "\<And>x. ends j k (f x)"
  shows "starts t j k (seq m f)"
  unfolding starts_def
proof (intro allI impI, rule replies_seq)
  fix s assume s: "cursor_ok s" "check_kind t s" "8 * left s + j \<le> k"
  then show "replies s (m s)" by (rule startsD [OF assms(1)])
  fix x u assume "m s = Some (Reply x u)"
  then have g: "goes s u" by (rule proceedsD [OF assms(2) s(1)])
  have "8 * left u + j \<le> k" using goes_left [OF g] s(3) by simp
  from endsD [OF assms(3) goes_ok [OF g] this]
  show "ps_tokens u = ps_tokens s \<and> replies u (f x u)" by (simp add: goes_tokens [OF g])
qed

lemma starts_take:
  assumes "t \<noteq> TkEof" "\<And>x. behaves 8 k (f x)"
  shows "starts t j k (seq advance_token f)"
  by (rule starts_mono [OF starts_advance [OF assms]]) simp

lemma starts_take_lexeme:
  assumes "t \<noteq> TkEof" "\<And>x. behaves 8 k (f x)"
  shows "starts t j k (seq lexeme_here f)"
  by (rule starts_mono [OF starts_lexeme [OF assms]]) simp

text \<open>A production that is known to proceed, over productions of the next round.\<close>

lemma behavesI: "sound_fields 8 k c \<Longrightarrow> (\<And>j k. sound_fields j k c \<Longrightarrow> behaves j k m) \<Longrightarrow> ends i k m \<Longrightarrow> behaves i k m"
  using behaves_proceeds unfolding behaves_def by blast

lemma ends_if_state: "ends j k m1 \<Longrightarrow> ends j k m2 \<Longrightarrow> ends j k (if_state P m1 m2)"
  by (simp add: ends_def if_state_def)

lemma ends_prod: "(\<And>a b. ends j k (f a b)) \<Longrightarrow> ends j k (case p of (a, b) \<Rightarrow> f a b)"
  by (simp split: prod.splits)

section \<open>Types\<close>

lemma starts_splice:
  assumes c: "sound_fields 8 k c"
  shows "starts TkDollar 0 k (parse_splice c)"
  unfolding parse_splice_def by (intro starts_this_range starts_advance behaves_rules behaves_seq c; simp)

lemma starts_named_type:
  assumes c: "sound_fields 8 k c" and t: "t \<noteq> TkEof"
  shows "starts t 0 k (parse_named_type c st)"
  unfolding parse_named_type_def by (intro starts_make_node starts_lexeme behaves_rules behaves_seq c t; simp)

lemma ends_base_type:
  assumes c: "sound_fields 8 k c"
  shows "ends 0 k (parse_base_type c st)"
proof -
  have "starts TkDollar 0 k (seq make_node (\<lambda>a. seq (parse_splice c) (\<lambda>e. close_node a st (\<lambda>h. SpliceType h (Some e)))))"
    by (intro starts_make_node starts_seq starts_splice behaves_proceeds [OF behaves_parse_splice [OF c]] c behaves_ends [OF behaves_close_node])
  then show ?thesis
    unfolding parse_base_type_def
    by (intro ends_dispatch_Cons ends_dispatch_Nil starts_some_of starts_advance starts_named_type
        behaves_ends [OF behaves_produce] iffD2 [OF proceeds_behaves] behaves_rules behaves_seq c sound_fields_0 [OF c]; simp)
qed

lemma ends_type:
  assumes c: "sound_fields 8 k c"
  shows "ends 0 k (parse_type c)"
proof -
  have b: "behaves 0 k (parse_base_type c st)" for st
    unfolding behaves_def using behaves_proceeds [OF behaves_parse_base_type [OF c]] ends_base_type [OF c] by blast
  show ?thesis
    unfolding parse_type_def
    by (intro ends_seq_this_range ends_seq [OF b] behaves_ends [OF behaves_option] behaves_loop_check
        eats_advance_first behaves_rules behaves_seq; simp)
qed

section \<open>Declarations\<close>

lemma ends_decl:
  assumes c: "sound_fields 8 k c"
  shows "ends 0 k (parse_decl c at)"
proof -
  have d: "starts t 0 k (parse_struct c at vi lin)" "starts t 0 k (parse_enum c at vi)" "starts t 0 k (parse_protocol c vi)"
    "starts t 0 k (parse_extension c at)" "starts t 0 k (parse_opaque c vi)" "starts t 0 k (parse_const c vi)"
    "starts t 0 k (parse_static c at vi)" "starts t 0 k (parse_derive c)" "starts t 0 k (parse_func c at vi asy rc ct)"
    if "t \<noteq> TkEof" for t vi lin asy rc ct
    unfolding parse_struct_def parse_enum_def parse_protocol_def parse_extension_def parse_opaque_def
      parse_const_def parse_static_def parse_derive_def parse_func_def
    by (intro starts_this_range starts_advance that behaves_rules behaves_seq c behaves_loop_body eats_struct_item
        eats_enum_item eats_protocol_item eats_extension_member sound_fields_0 [OF c]; simp)+
  have "ends 0 k (seq (query g) (\<lambda>got. seq (error_here (f got)) (\<lambda>_. produce None)))" for g and f :: "token_kind \<Rightarrow> string"
    by (intro ends_seq_query behaves_ends [OF behaves_seq] behaves_rules)
  then show ?thesis
    unfolding parse_decl_def
    by (intro ends_seq [OF behaves_parse_visibility] ends_seq [OF behaves_func_modes] ends_prod ends_dispatch_Cons
        ends_dispatch_Nil starts_some_of d iffD2 [OF proceeds_behaves] starts_advance behaves_rules behaves_seq c
        sound_fields_0 [OF c]; simp)
qed

section \<open>Expressions\<close>

lemma starts_literal:
  assumes "t \<noteq> TkEof"
  shows "starts t 0 k (parse_literal st f)"
  unfolding parse_literal_def by (intro starts_make_node starts_advance behaves_rules behaves_seq assms; simp)

lemma ends_primary:
  assumes c: "sound_fields 8 k c" and b: "starts TkLBrace 1 k (p_block c)"
  shows "ends 1 k (parse_primary c)"
proof -
  have p: "starts t 1 k (parse_interp_string c st)" "starts t 1 k (parse_leading_dot st)"
    "starts t 1 k (parse_paren_expr c st)" "starts t 1 k (parse_vector_lit c st)" "starts t 1 k (parse_closure c st)"
    "starts t 1 k (parse_if c st)" "starts t 1 k (parse_match c st)" "starts t 1 k (parse_select c st)"
    "starts t 1 k (parse_do_catch c st)" "starts t 1 k (parse_comptime c st)" "starts t 1 k (parse_quote c st)"
    "starts t 1 k (parse_intrinsic c st)" if "t \<noteq> TkEof" for t st
    unfolding parse_interp_string_def parse_leading_dot_def parse_paren_expr_def parse_vector_lit_def
      parse_closure_def parse_if_def parse_match_def parse_select_def parse_do_catch_def parse_comptime_def
      parse_quote_def parse_intrinsic_def
    by (intro starts_take that behaves_rules behaves_seq c behaves_loop_body behaves_loop
        eats_interp_segment eats_select_arm_step eats_seq_first eats_parse_match_arm sound_fields_0 [OF c]; simp)+
  show ?thesis
    unfolding parse_primary_def
    by (intro ends_seq_this_range ends_dispatch_Cons ends_dispatch_Nil starts_if_state b p
        starts_mono [OF starts_literal] starts_mono [OF starts_splice] c
        behaves_ends [OF behaves_parse_no_expr]; simp)
qed

lemma ends_postfix:
  assumes c: "sound_fields 8 k c"
  shows "ends 0 k (parse_postfix c lhs)"
proof -
  have p: "starts t 0 k (parse_call c lhs)" "starts t 0 k (parse_index c lhs)" "starts t 0 k (parse_unwrap lhs)"
    if "t \<noteq> TkEof" for t lhs
    unfolding parse_call_def parse_index_def parse_unwrap_def
    by (intro starts_advance that behaves_rules behaves_seq c; simp)+
  have m: "starts t 0 k (parse_member c lhs)" if t: "t = TkDot \<or> t = TkQuestion" for t lhs
    unfolding starts_def
  proof (intro allI impI)
    fix s assume s: "cursor_ok s" "check_kind t s" "8 * left s + 0 \<le> k"
    obtain f where f: "parse_member c lhs = seq (match_kind TkQuestion) (\<lambda>q. seq advance_token (\<lambda>_. f q))"
      "behaves 8 k (f q)" for q
    proof
      show "parse_member c lhs = seq (match_kind TkQuestion) (\<lambda>q. seq advance_token (\<lambda>_. seq make_node (\<lambda>a.
          seq (if_check TkDollar (seq (parse_splice c) (\<lambda>e. produce ([], Some e)))
            (if_state (\<lambda>s. is_member_name (kind_ahead s 0)) (seq lexeme_here (\<lambda>x. produce (x, None)))
              (seq (error_here (''expected member name after '' @ quoted ''.'')) (\<lambda>_. produce ([], None)))))
           (\<lambda>(nm, splice). close_node a (expr_range lhs) (\<lambda>h. MemberExpr h lhs nm splice q)))))"
        by (simp add: parse_member_def)
    qed (intro behaves_rules behaves_seq c)
    show "replies s (parse_member c lhs s)"
    proof (cases "t = TkQuestion")
      case True
      have "starts TkQuestion 0 k (seq advance_token (\<lambda>_. seq advance_token (\<lambda>_. f True)))"
        by (intro starts_advance behaves_seq behaves_rules f) simp
      with s True show ?thesis
        unfolding f by (simp add: starts_def seq_def match_kind_def advance_token_def)
    next
      case False
      with t have "t = TkDot" by simp
      moreover have "starts TkDot 0 k (seq advance_token (\<lambda>_. f False))" by (intro starts_advance f) simp
      ultimately show ?thesis
        using s unfolding f by (simp add: starts_def seq_def match_kind_def check_kind_def)
    qed
  qed
  have a: "starts t 0 k (again (parse_call c lhs))" "starts t 0 k (again (parse_index c lhs))"
    "starts t 0 k (again (parse_unwrap lhs))" if "t \<noteq> TkEof" for t lhs
    unfolding again_def by (intro starts_seq p that behaves_ends [OF behaves_produce]
        behaves_proceeds [OF behaves_parse_call [OF c]] behaves_proceeds [OF behaves_parse_index [OF c]]
        behaves_proceeds [OF behaves_parse_unwrap])+
  have am: "starts t 0 k (again (parse_member c lhs))" if "t = TkDot \<or> t = TkQuestion" for t lhs
    unfolding again_def
    by (rule starts_seq [OF m [OF that] behaves_proceeds [OF behaves_parse_member [OF c]] behaves_ends [OF behaves_produce]])
  have "ends 0 k (if_state (\<lambda>s. check_kind TkDot s \<or> check_kind TkQuestion s \<and> kind_ahead s 1 = TkDot)
      (again (parse_member c lhs)) m2)" if "ends 0 k m2" for m2 lhs
    using that am [of TkDot lhs] am [of TkQuestion lhs] unfolding ends_def if_state_def starts_def by auto
  then have "ends 0 k (postfix_step c lhs)" for lhs
    unfolding postfix_step_def
    by (intro ends_if_check a behaves_ends [OF behaves_produce]) (simp_all add: ends_if_check a behaves_ends [OF behaves_produce])
  then have st: "behaves 0 k (postfix_step c lhs)" for lhs
    unfolding behaves_def using behaves_proceeds [OF behaves_postfix_step [OF c]] by blast
  have "behaves 0 k (parse_postfix c lhs)"
    unfolding parse_postfix_def
    by (intro behaves_loop_forever st eats_postfix_step sound_fields_0 [OF c]) (rule exI, erule postfix_step_eof)
  then show ?thesis by (rule behaves_ends)
qed

lemma ends_prefix:
  assumes c: "sound_fields 8 k c" and p: "behaves 2 k (p_primary c)"
  shows "ends 2 k (parse_prefix c)"
proof -
  have "starts t 2 k (prefixed c st f)" if "t \<noteq> TkEof" for t st f
    unfolding prefixed_def
    by (intro starts_take that behaves_rules behaves_seq c; simp)
  moreover have "ends 2 k (seq (p_primary c) (parse_postfix c))"
    by (rule ends_seq [OF p ends_mono [OF ends_postfix [OF c]]]) simp
  ultimately show ?thesis
    unfolding parse_prefix_def by (intro ends_seq_this_range ends_dispatch_Cons ends_dispatch_Nil; simp)
qed

lemma ends_climb_step:
  assumes c: "sound_fields 8 k c"
  shows "ends 0 k (climb_step c b lhs)"
proof -
  let ?as = "seq (query (check_kind (TkKw KwAsQuestion))) (\<lambda>is_opt. seq advance_token (\<lambda>_. seq make_node (\<lambda>a.
      seq (p_type c) (\<lambda>t. seq (close_node a (expr_range lhs) (\<lambda>h. AsExpr h lhs t is_opt)) (\<lambda>e. produce (Again e))))))"
  let ?op = "seq advance_token (\<lambda>op. seq (p_expr c (snd (infix_bp (tok_kind op)))) (\<lambda>rhs. seq make_node (\<lambda>a.
      produce (Again (BinaryExpr (hdr_of a (merge_ranges (expr_range lhs) (expr_range rhs)))
        (token_to_binop (tok_kind op)) lhs rhs)))))"
  have a: "starts t 0 k ?as" "starts t 0 k ?op" if "t \<noteq> TkEof" for t
    by (intro starts_query starts_advance that behaves_rules behaves_seq c; simp)+
  show ?thesis
    unfolding ends_def
  proof (intro allI impI)
    fix s assume s: "cursor_ok s" "8 * left s + 0 \<le> k"
    show "replies s (climb_step c b lhs s)"
    proof (cases "at_eof s")
      case True
      then show ?thesis by (simp add: climb_step_eof)
    next
      case False
      then have "kind_ahead s 0 \<noteq> TkEof" by (simp add: at_eof_def)
      from startsD [OF a(1) [OF this] s(1) _ s(2)] startsD [OF a(2) [OF this] s(1) _ s(2)]
      show ?thesis by (simp add: climb_step_def if_state_def check_kind_def produce_def)
    qed
  qed
qed

lemma ends_expr:
  assumes c: "sound_fields 8 k c" and p: "behaves 3 k (p_prefix c)"
  shows "ends 3 k (parse_expr_bp c b)"
proof -
  have "behaves 3 k (climb_step c b lhs)" for lhs
    unfolding behaves_def
    using behaves_proceeds [OF behaves_climb_step [OF c]] ends_mono [OF ends_climb_step [OF c]] by simp
  note st = this
  have "behaves 3 k (loop (\<lambda>_ _. True) (climb_step c b) lhs)" for lhs
    by (intro behaves_loop_forever st eats_climb_step sound_fields_0 [OF c]) (rule exI, erule climb_step_eof)
  then show ?thesis
    unfolding parse_expr_bp_def by (intro ends_seq [OF p] behaves_ends)
qed

section \<open>Patterns and blocks\<close>

lemma ends_pattern_alt:
  assumes c: "sound_fields 8 k c" and p: "behaves 4 k (p_primary c)"
  shows "ends 4 k (parse_pattern_alt c)"
proof -
  have l: "ends 4 k (parse_literal_pattern c st)" for st
    unfolding parse_literal_pattern_def by (rule behaves_ends) (intro behaves_seq behaves_rules p)
  have e: "starts t 4 k (seq advance_token (\<lambda>_. f))" if "t \<noteq> TkEof" "behaves 8 k f" for t and f :: "pattern parser"
    by (intro starts_take that)
  have i: "starts TkIdentifier 4 k (seq make_node (\<lambda>a. seq lexeme_here (\<lambda>nm. close_node a st (\<lambda>h. IdentPat h nm))))" for st
    by (intro starts_make_node starts_take_lexeme behaves_rules; simp)
  show ?thesis
    unfolding parse_pattern_alt_def
    by (intro ends_seq_this_range ends_dispatch_Cons ends_dispatch_Nil ends_if_state e i l
        behaves_ends [OF behaves_seq] behaves_rules behaves_seq c; simp)
qed

lemma ends_pattern:
  assumes c: "sound_fields 8 k c" and p: "behaves 4 k (p_primary c)"
  shows "ends 4 k (parse_pattern c)"
proof -
  have a: "behaves 4 k (parse_pattern_alt c)"
    unfolding behaves_def using behaves_proceeds [OF behaves_parse_pattern_alt [OF c]] ends_pattern_alt [OF c p] by blast
  have "behaves 4 k (parse_pattern c)"
    unfolding parse_pattern_def
    by (intro behaves_seq [OF a] behaves_seq behaves_if_state behaves_while_matched [OF a] behaves_make_node behaves_close_node
        behaves_produce; simp)
  then show ?thesis by (rule behaves_ends)
qed

lemma ends_statement:
  assumes c: "sound_fields 8 k c" and e: "\<And>b. behaves 4 k (p_expr c b)"
  shows "ends 4 k (parse_statement c)"
proof -
  have a: "starts t 4 k (seq advance_token (\<lambda>_. f))" if "t \<noteq> TkEof" "behaves 8 k f" for t and f :: "stmt parser"
    by (intro starts_take that)
  have b: "starts t 4 k (parse_binding c st w f)" if "t \<noteq> TkEof" for t st w f
    unfolding parse_binding_def by (intro a that behaves_rules behaves_seq c; simp)
  have d: "ends 4 k (parse_expr_statement c st)" for st
    unfolding parse_expr_statement_def by (rule behaves_ends) (intro behaves_seq behaves_if_state behaves_rules e)
  show ?thesis
    unfolding parse_statement_def
    by (intro ends_seq_this_range ends_dispatch_Cons ends_dispatch_Nil b d a behaves_rules behaves_seq c; simp)
qed

lemma ends_block:
  assumes c: "sound_fields 8 k c" and e: "\<And>b. behaves 4 k (p_expr c b)"
  shows "ends 4 k (parse_block_expr c)" "starts TkLBrace 0 k (parse_block_expr c)"
proof -
  have s: "behaves 4 k (parse_statement c)"
    unfolding behaves_def using behaves_proceeds [OF behaves_parse_statement [OF c]] ends_statement [OF c e] by blast
  have m: "eats repeats (seq (parse_statement c) (\<lambda>x. seq skip_newlines (\<lambda>_. produce (Again (ss @ [x])))))" for ss
    by (intro eats_seq_first eats_parse_statement behaves_rules behaves_seq sound_fields_0 [OF c])
  have ss: "behaves 4 k (parse_statements c)"
    unfolding parse_statements_def
    by (intro behaves_loop_body m behaves_seq [OF s] behaves_seq behaves_skip_newlines behaves_produce)
  show "ends 4 k (parse_block_expr c)"
    unfolding parse_block_expr_def
    by (intro behaves_ends behaves_seq [OF ss] behaves_seq behaves_this_range behaves_make_node behaves_expect behaves_skip_newlines behaves_close_node)
  show "starts TkLBrace 0 k (parse_block_expr c)"
    unfolding parse_block_expr_def
    by (intro starts_this_range starts_make_node starts_expect behaves_rules behaves_seq c; simp)
qed

section \<open>The knot\<close>

lemma productions_at_Suc:
  "productions_at (Suc n) = \<lparr>p_type = parse_type (productions_at n), p_pattern = parse_pattern (productions_at n),
     p_block = parse_block_expr (productions_at n), p_expr = parse_expr_bp (productions_at n),
     p_prefix = parse_prefix (productions_at n), p_primary = parse_primary (productions_at n),
     p_decl = parse_decl (productions_at n)\<rparr>"
  by (simp add: productions_at_def fun_eq_iff)

lemma productions_at_0:
  "productions_at 0 = \<lparr>p_type = (\<lambda>_. None), p_pattern = (\<lambda>_. None), p_block = (\<lambda>_. None), p_expr = (\<lambda>_ _. None),
     p_prefix = (\<lambda>_. None), p_primary = (\<lambda>_. None), p_decl = (\<lambda>_ _. None)\<rparr>"
  by (simp add: productions_at_def fun_eq_iff)

lemma fuelled_0: "fuelled 0 (productions_at 0)"
  by (simp add: productions_at_0 fuelled_def behaves_def proceeds_def ends_def starts_def eats_def takes_def)

lemma starts_Suc: "starts t j k m \<Longrightarrow> starts t (Suc j) (Suc k) m"
  by (simp add: starts_def)

lemma fuelled_Suc:
  assumes r: "fuelled k c"
  shows "fuelled (Suc k) \<lparr>p_type = parse_type c, p_pattern = parse_pattern c, p_block = parse_block_expr c,
     p_expr = parse_expr_bp c, p_prefix = parse_prefix c, p_primary = parse_primary c, p_decl = parse_decl c\<rparr>"
proof -
  have c: "sound_fields 8 k c" by (rule fuelled_sound [OF r])
  have c0: "sound_fields 1 0 c" by (rule sound_fields_0 [OF c])
  have e: "behaves 4 k (p_expr c b)" for b using r by (simp add: fuelled_def)
  have p: "behaves 2 k (p_primary c)" "behaves 3 k (p_prefix c)" "starts TkLBrace 1 k (p_block c)"
    using r by (simp_all add: fuelled_def)
  have s: "behaves (Suc j) (Suc k) m" if "ends j k m" "behaves 8 k m" for j and m :: "'a parser"
    using that ends_Suc unfolding behaves_def by blast
  show ?thesis
    unfolding fuelled_def productions.simps
    using s [OF ends_type [OF c] behaves_parse_type [OF c]] s [OF ends_decl [OF c] behaves_parse_decl [OF c]]
      s [OF ends_primary [OF c p(3)] behaves_parse_primary [OF c]]
      s [OF ends_prefix [OF c p(1)] behaves_parse_prefix [OF c]]
      s [OF ends_expr [OF c p(2)] behaves_parse_expr_bp [OF c]]
      s [OF ends_pattern [OF c behaves_mono [OF p(1), of 4]] behaves_parse_pattern [OF c]]
      s [OF ends_block(1) [OF c e] behaves_parse_block_expr [OF c]] starts_Suc [OF ends_block(2) [OF c e]]
      eats_parse_expr_bp [OF c0] eats_parse_prefix [OF c0] eats_parse_primary [OF c0] eats_parse_decl [OF c0]
      takes_block [OF c0]
    by (simp add: eval_nat_numeral)
qed

lemma fuelled_at: "fuelled n (productions_at n)"
proof (induction n)
  case 0
  then show ?case by (rule fuelled_0)
next
  case (Suc n)
  then show ?case unfolding productions_at_Suc by (rule fuelled_Suc)
qed

section \<open>The whole file\<close>

lemma behaves_parse_module [behaves_rules]: "behaves j k parse_module"
  unfolding parse_module_def by (intro behaves_rules behaves_seq; simp)

text \<open>The header of a C import: a string literal has a lexeme.\<close>

lemma behaves_parse_c_header [behaves_rules]: "behaves j k parse_c_header"
proof -
  let ?m = "seq lexeme_here (\<lambda>x. if x = [] then throw ''std::out_of_range'' else produce (True, strip_quotes x))"
  have "proceeds ?m"
    by (intro proceeds_seq behaves_proceeds [OF behaves_lexeme_here])
       (simp add: proceeds_def throw_def produce_def goes_refl)
  moreover have "starts TkStringLit j k ?m"
    unfolding starts_def
  proof (intro allI impI)
    fix s assume s: "cursor_ok s" "check_kind TkStringLit s"
    let ?t = "ps_tokens s ! ps_pos s"
    have "?t \<in> set (ps_tokens s)" "tok_kind ?t = TkStringLit"
      using s by (simp_all add: cursor_ok_def check_kind_def kind_here)
    then have "tok_lexeme ?t = [] \<Longrightarrow> \<not> list_all convertible (ps_tokens s)"
      by (auto simp: list_all_iff convertible_def)
    then show "replies s (?m s)"
      by (simp add: seq_def lexeme_here_def advance_token_def produce_def throw_def)
  qed
  ultimately have "behaves j k (if_check TkStringLit ?m m2)" if "behaves j k m2" for m2
    using that ends_if_check [of TkStringLit j k ?m m2] by (simp add: behaves_def proceeds_def if_state_def)
  then show ?thesis
    unfolding parse_c_header_def
    by (intro behaves_seq behaves_advance) (simp add: behaves_seq behaves_error_here behaves_produce)
qed

lemma behaves_parse_import [behaves_rules]: "behaves j k parse_import"
  unfolding parse_import_def by (intro behaves_rules behaves_seq; simp)

lemma behaves_parse_imports [behaves_rules]: "behaves j k parse_imports"
proof -
  have "eats_on parse_import"
    unfolding parse_import_def by (intro eats_this_range eats_advance_first behaves_rules behaves_seq; simp)
  then show ?thesis
    unfolding parse_imports_def by (intro behaves_loop_check eats_seq_first behaves_rules behaves_seq; simp)
qed

text \<open>No declaration, but an error.\<close>

definition complains :: "'a option parser \<Rightarrow> bool" where
  "complains m \<longleftrightarrow>
     (\<forall>s s'. cursor_ok s \<longrightarrow> m s = Some (Reply None s') \<longrightarrow>
        error_count (ps_reporter s) < error_count (ps_reporter s'))"

lemma complains_seq:
  assumes "proceeds m" "\<And>x. complains (f x)"
  shows "complains (seq m f)"
  unfolding complains_def
proof (intro allI impI)
  fix s u assume s: "cursor_ok s" and r: "seq m f s = Some (Reply None u)"
  from r obtain x t where t: "m s = Some (Reply x t)" "f x t = Some (Reply None u)" by (rule seq_reply)
  have g: "goes s t" by (rule proceedsD [OF assms(1) s t(1)])
  have "error_count (ps_reporter t) < error_count (ps_reporter u)"
    using assms(2) goes_ok [OF g] t(2) unfolding complains_def by blast
  moreover have "error_count (ps_reporter s) \<le> error_count (ps_reporter t)"
    using g adds_errors_count by (auto simp: goes_def)
  ultimately show "error_count (ps_reporter s) < error_count (ps_reporter u)" by simp
qed

lemma complains_some_of: "complains (some_of m)"
  unfolding complains_def some_of_def by (auto simp: produce_def elim!: seq_reply)

lemma complains_error: "complains (seq (error_here w) (\<lambda>_. produce None))"
  by (simp add: complains_def seq_def error_here_def this_range_def query_def emit_error_def produce_def
      report_def diag_at_def diag_error_def)

lemma complains_if_state: "complains m1 \<Longrightarrow> complains m2 \<Longrightarrow> complains (if_state P m1 m2)"
  by (simp add: complains_def if_state_def)

lemma complains_prod: "(\<And>a b. complains (f a b)) \<Longrightarrow> complains (case p of (a, b) \<Rightarrow> f a b)"
  by (simp split: prod.splits)

lemma complains_parse_decl: "complains (parse_decl c at)"
  unfolding parse_decl_def dispatch.simps fst_conv snd_conv
  by (intro complains_seq [OF behaves_proceeds [OF behaves_parse_visibility]] complains_seq [OF behaves_proceeds [OF behaves_func_modes]]
      complains_seq [OF behaves_proceeds [OF behaves_advance]] complains_seq [OF behaves_proceeds [OF behaves_query]]
      complains_prod complains_if_state complains_some_of complains_error)

lemma complains_decl_at: "complains (p_decl (productions_at n) at)"
  by (cases n) (simp_all add: productions_at_0 productions_at_Suc complains_parse_decl complains_def [of "\<lambda>_. None"])

lemma sound_at: "sound_fields 8 n (productions_at n)"
  by (rule fuelled_sound [OF fuelled_at])

lemma behaves_unit_step: "behaves 8 n (unit_step (productions_at n) ds)"
  unfolding unit_step_def by (intro behaves_rules behaves_seq sound_at)

lemma goes_errors: "goes s s' \<Longrightarrow> error_count (ps_reporter s) \<le> error_count (ps_reporter s')"
  by (simp add: goes_def adds_errors_count)

text \<open>A step of the loop over the declarations takes a token, or reports an error.\<close>

lemma unit_step_progress:
  assumes s: "cursor_ok s" "\<not> at_eof s" and r: "unit_step (productions_at n) ds s = Some (Reply (Again ds') s')"
  shows "\<not> should_stop (ps_reporter s)"
    and "ps_pos s < ps_pos s' \<or> error_count (ps_reporter s) < error_count (ps_reporter s')"
proof -
  let ?c = "productions_at n"
  have c: "sound_fields 8 n ?c" by (rule sound_at)
  let ?after = "\<lambda>d. seq (case d of None \<Rightarrow> seq sync_to_decl (\<lambda>_. produce ds) | Some x \<Rightarrow> produce (ds @ [x]))
      (\<lambda>ds'. seq skip_newlines (\<lambda>_. produce (Again ds')))"
  have after: "proceeds (?after d)" for d
    by (rule behaves_proceeds [of 8 n]) (intro behaves_seq behaves_rules)
  show stop: "\<not> should_stop (ps_reporter s)"
    using r by (auto simp: unit_step_def if_state_def produce_def)
  with r have "seq (parse_attributes ?c) (\<lambda>attrs. if_state at_eof (produce (Break ds)) (seq (p_decl ?c attrs) ?after)) s
      = Some (Reply (Again ds') s')"
    by (simp add: unit_step_def if_state_def)
  then obtain attrs t where t: "parse_attributes ?c s = Some (Reply attrs t)"
    "if_state at_eof (produce (Break ds)) (seq (p_decl ?c attrs) ?after) t = Some (Reply (Again ds') s')"
    by (rule seq_reply)
  have g: "goes s t" by (rule proceedsD [OF behaves_proceeds [OF behaves_parse_attributes [OF c]] s(1) t(1)])
  have e: "\<not> at_eof t" using t(2) by (auto simp: if_state_def produce_def)
  with t(2) have "seq (p_decl ?c attrs) ?after t = Some (Reply (Again ds') s')" by (simp add: if_state_def)
  then obtain d u where u: "p_decl ?c attrs t = Some (Reply d u)" "?after d u = Some (Reply (Again ds') s')"
    by (rule seq_reply)
  have g': "goes t u" by (rule proceedsD [OF behaves_proceeds [OF sound_fieldsD(7) [OF c]] goes_ok [OF g] u(1)])
  have g'': "goes u s'" by (rule proceedsD [OF after goes_ok [OF g'] u(2)])
  show "ps_pos s < ps_pos s' \<or> error_count (ps_reporter s) < error_count (ps_reporter s')"
  proof (cases d)
    case None
    with u(1) complains_decl_at goes_ok [OF g] have "error_count (ps_reporter t) < error_count (ps_reporter u)"
      unfolding complains_def by blast
    with goes_errors [OF g] goes_errors [OF g''] show ?thesis by simp
  next
    case (Some x)
    have "eats (\<lambda>d. d \<noteq> None) (p_decl ?c attrs)" using c by (simp add: sound_fields_def)
    from eatsD [OF this goes_ok [OF g] e u(1)] Some goes_pos [OF g] goes_pos [OF g''] show ?thesis by simp
  qed
qed

lemma ends_unit_loop: "ends 8 n (loop (\<lambda>_ s. \<not> at_eof s) (unit_step (productions_at n)) ds)"
  unfolding ends_def
proof (intro allI impI)
  fix s assume s: "cursor_ok s" "8 * left s + 8 \<le> n"
  show "replies s (loop (\<lambda>_ s. \<not> at_eof s) (unit_step (productions_at n)) ds s)"
  proof (rule replies_loop [where I = "\<lambda>s. cursor_ok s \<and> 8 * left s + 8 \<le> n"
        and f = "\<lambda>s. left s + (error_cap (ps_reporter s) - error_count (ps_reporter s))"])
    fix ds s ds' s'
    assume s: "cursor_ok s \<and> 8 * left s + 8 \<le> n" and e: "\<not> at_eof s"
      and r: "unit_step (productions_at n) ds s = Some (Reply (Again ds') s')"
    from s have g: "goes s s'" by (intro proceedsD [OF behaves_proceeds [OF behaves_unit_step] _ r]) simp
    from unit_step_progress [OF _ e r] s have p: "\<not> should_stop (ps_reporter s)"
      "ps_pos s < ps_pos s' \<or> error_count (ps_reporter s) < error_count (ps_reporter s')" by auto
    have a: "error_cap (ps_reporter s') = error_cap (ps_reporter s)"
      "error_count (ps_reporter s) \<le> error_count (ps_reporter s')"
      using g adds_errors_count by (auto simp: goes_def)
    have "left s' + (error_cap (ps_reporter s') - error_count (ps_reporter s'))
        < left s + (error_cap (ps_reporter s) - error_count (ps_reporter s))"
      using p(2)
    proof
      assume "ps_pos s < ps_pos s'"
      from left_less [OF g this] a show ?thesis by simp
    next
      assume "error_count (ps_reporter s) < error_count (ps_reporter s')"
      with a p(1) goes_left [OF g] show ?thesis by (simp add: should_stop_def)
    qed
    then show "(cursor_ok s' \<and> 8 * left s' + 8 \<le> n) \<and> ps_tokens s' = ps_tokens s
        \<and> left s' + (error_cap (ps_reporter s') - error_count (ps_reporter s'))
          < left s + (error_cap (ps_reporter s) - error_count (ps_reporter s))"
      using s g goes_left [OF g] by (auto simp: goes_ok goes_tokens)
  next
    fix ds s assume "cursor_ok s \<and> 8 * left s + 8 \<le> n"
    then show "replies s (unit_step (productions_at n) ds s)"
      using endsD [OF behaves_ends [OF behaves_unit_step]] by simp
  qed (use s in simp)
qed

lemma behaves_unit_loop: "behaves 8 n (loop (\<lambda>_ s. \<not> at_eof s) (unit_step (productions_at n)) ds)"
  unfolding behaves_def
proof
  show "proceeds (loop (\<lambda>_ s. \<not> at_eof s) (unit_step (productions_at n)) ds)"
    by (rule proceeds_loop) (rule behaves_proceeds [OF behaves_unit_step])
qed (rule ends_unit_loop)

lemma behaves_parse_unit: "behaves 8 n (parse_unit n)"
  unfolding parse_unit_def by (intro behaves_seq behaves_unit_loop behaves_rules)

end
