(* ===== verification/Parser_Pratt.thy ===== *)
theory Parser_Pratt
  imports Parser_Returns
begin

text \<open>
  The expression parser is correct for operators: it inverts the printer that puts parentheses only
  where the binding powers need them. The trees of operators, their tokens, what it means for a node
  to stand for a tree, and the induction that follows the parser along the left spine of a tree.
\<close>

section \<open>Trees of operators and their tokens\<close>

datatype op_tree = Name string | Prefix unary_op op_tree | Infix token_kind op_tree op_tree

type_synonym word_list = "(token_kind \<times> string) list"

definition prefix_token :: "unary_op \<Rightarrow> token_kind" where
  "prefix_token u =
     (case u of NegOp \<Rightarrow> TkOp OpMinus | NotOp \<Rightarrow> TkOp OpBang | BitNotOp \<Rightarrow> TkOp OpTilde | UnwrapOp \<Rightarrow> TkOp OpBang)"

text \<open>The power of an operand of a prefix operator: it is no infix expression.\<close>

definition operand_bp :: nat where
  "operand_bp = 200"

text \<open>
  The tokens of a tree where operators of a left power below \<open>p\<close> need parentheses: on the left of an
  operator its left power, on its right its right power, which is greater.
\<close>

primrec render_ops :: "nat \<Rightarrow> op_tree \<Rightarrow> word_list" where
  "render_ops p (Name x) = [(TkIdentifier, x)]"
| "render_ops p (Prefix u t) = (prefix_token u, []) # render_ops operand_bp t"
| "render_ops p (Infix k l r) =
     (let w = render_ops (fst (infix_bp k)) l @ [(k, [])] @ render_ops (snd (infix_bp k)) r
      in if fst (infix_bp k) < p then [(TkLParen, [])] @ w @ [(TkRParen, [])] else w)"

primrec proper_ops :: "op_tree \<Rightarrow> bool" where
  "proper_ops (Name x) \<longleftrightarrow> True"
| "proper_ops (Prefix u t) \<longleftrightarrow> u \<noteq> UnwrapOp \<and> proper_ops t"
| "proper_ops (Infix k l r) \<longleftrightarrow> fst (infix_bp k) \<noteq> 0 \<and> proper_ops l \<and> proper_ops r"

text \<open>The node stands for the tree, up to parentheses, addresses and ranges.\<close>

inductive stands_for :: "expr \<Rightarrow> op_tree \<Rightarrow> bool" where
  name: "stands_for (IdentExpr h x) (Name x)"
| prefix: "stands_for e t \<Longrightarrow> stands_for (UnaryExpr h u e) (Prefix u t)"
| infix_op: "stands_for a l \<Longrightarrow> stands_for b r \<Longrightarrow> stands_for (BinaryExpr h (token_to_binop k) a b) (Infix k l r)"
| paren: "stands_for e t \<Longrightarrow> stands_for (ParenExpr h e) t"

inductive_cases stands_for_ident: "stands_for (IdentExpr h x) t"
inductive_cases stands_for_unary: "stands_for (UnaryExpr h u e) t"
inductive_cases stands_for_binary: "stands_for (BinaryExpr h p a b) t"
inductive_cases stands_for_paren: "stands_for (ParenExpr h e) t"

lemma infix_bp_power: "fst (infix_bp k) \<noteq> 0 \<Longrightarrow> snd (infix_bp k) = fst (infix_bp k) + 1 \<and> fst (infix_bp k) < operand_bp"
  by (auto simp: infix_bp_def operand_bp_def split: token_kind.splits op_kind.splits)

lemma token_to_binop_inj:
  "fst (infix_bp k) \<noteq> 0 \<Longrightarrow> fst (infix_bp k') \<noteq> 0 \<Longrightarrow> token_to_binop k = token_to_binop k' \<Longrightarrow> k = k'"
  unfolding infix_bp_def token_to_binop_def by (cases k; cases k') (auto split: op_kind.splits)

text \<open>A node stands for one tree at most.\<close>

lemma stands_for_unique:
  assumes "stands_for e t" "stands_for e t'" "proper_ops t" "proper_ops t'"
  shows "t = t'"
  using assms
proof (induction e t arbitrary: t' rule: stands_for.induct)
  case (name h x)
  then show ?case by (auto elim: stands_for_ident)
next
  case (prefix e t h u)
  from prefix.prems(1) show ?case by (rule stands_for_unary) (use prefix in auto)
next
  case (infix_op a l b r h k)
  from infix_op.prems(1) show ?case
    by (rule stands_for_binary) (use infix_op token_to_binop_inj in auto)
next
  case (paren e t h)
  from paren.prems(1) show ?case by (rule stands_for_paren) (use paren in auto)
qed

section \<open>Positions in the tokens\<close>

text \<open>The kind of a token, with its text when it is a name.\<close>

definition word_of :: "token \<Rightarrow> token_kind \<times> string" where
  "word_of t = (tok_kind t, if tok_kind t = TkIdentifier then tok_lexeme t else [])"

definition at_words :: "pstate \<Rightarrow> word_list \<Rightarrow> bool" where
  "at_words s w \<longleftrightarrow> cursor_ok s \<and> map word_of (drop (ps_pos s) (ps_tokens s)) = w"

definition skipped :: "pstate \<Rightarrow> nat \<Rightarrow> pstate \<Rightarrow> bool" where
  "skipped s k s' \<longleftrightarrow>
     ps_tokens s' = ps_tokens s \<and> ps_reporter s' = ps_reporter s \<and> ps_pos s' = ps_pos s + k \<and> cursor_ok s'"

lemma at_words_kind: "at_words s ((k, x) # w) \<Longrightarrow> kind_ahead s 0 = k"
  by (auto simp: at_words_def kind_here cursor_ok_def word_of_def Cons_nth_drop_Suc [symmetric])

lemma at_words_token: "at_words s ((k, x) # w) \<Longrightarrow>
    tok_kind (ps_tokens s ! ps_pos s) = k \<and> (k = TkIdentifier \<longrightarrow> tok_lexeme (ps_tokens s ! ps_pos s) = x)"
  by (auto simp: at_words_def cursor_ok_def word_of_def Cons_nth_drop_Suc [symmetric])

lemma at_words_check: "at_words s ((k, x) # w) \<Longrightarrow> check_kind k' s \<longleftrightarrow> k = k'"
  by (simp add: check_kind_def at_words_kind)

lemma at_words_move:
  assumes "at_words s ((k, x) # w)" "k \<noteq> TkEof"
  shows "at_words (move_on s) w" "skipped s 1 (move_on s)"
proof -
  have e: "\<not> at_eof s" using at_words_kind [OF assms(1)] assms(2) by (simp add: at_eof_def)
  have s: "cursor_ok s" using assms(1) by (simp add: at_words_def)
  have p: "ps_pos (move_on s) = ps_pos s + 1" by (rule pos_move_on [OF s e])
  have g: "goes s (move_on s)" by (rule goes_move_on [OF s])
  have "map word_of (drop (ps_pos s + 1) (ps_tokens s)) = w"
    using assms(1) by (auto simp: at_words_def cursor_ok_def Cons_nth_drop_Suc [symmetric])
  with p g show "at_words (move_on s) w" by (simp add: at_words_def goes_ok goes_tokens)
  show "skipped s 1 (move_on s)"
    using p g by (simp add: skipped_def goes_ok goes_tokens) (simp add: move_on_def)
qed

lemma skipped_refl: "cursor_ok s \<Longrightarrow> skipped s 0 s"
  by (simp add: skipped_def)

lemma skipped_trans: "skipped s i t \<Longrightarrow> skipped t j u \<Longrightarrow> skipped s (i + j) u"
  by (simp add: skipped_def)

lemma skipped_at:
  assumes "at_words s (v @ w)" "skipped s (length v) t"
  shows "at_words t w"
proof -
  from assms(1) have "drop (length v) (map word_of (drop (ps_pos s) (ps_tokens s))) = w"
    by (simp add: at_words_def)
  with assms(2) show ?thesis by (simp add: at_words_def skipped_def drop_map add.commute)
qed

lemma at_words_next: "at_words (s\<lparr>ps_next := n\<rparr>) w = at_words s w"
  by (simp add: at_words_def cursor_ok_def)

lemma skipped_next: "skipped s k (t\<lparr>ps_next := n\<rparr>) = skipped s k t" "skipped (s\<lparr>ps_next := n\<rparr>) k t = skipped s k t"
  by (simp_all add: skipped_def cursor_ok_def)

section \<open>What may follow an operand\<close>

text \<open>A token that continues no primary expression, and one that continues none of power \<open>p\<close>.\<close>

definition no_postfix :: "token_kind \<Rightarrow> bool" where
  "no_postfix k \<longleftrightarrow> k \<notin> {TkLParen, TkDot, TkQuestion, TkLBracket, TkOp OpBang, TkKw KwAs, TkKw KwAsQuestion}"

definition next_kind :: "word_list \<Rightarrow> token_kind" where
  "next_kind w = fst (hd w)"

definition may_follow :: "nat \<Rightarrow> word_list \<Rightarrow> bool" where
  "may_follow p w \<longleftrightarrow> w \<noteq> [] \<and> no_postfix (next_kind w) \<and> fst (infix_bp (next_kind w)) \<le> p"

lemma infix_no_postfix: "fst (infix_bp k) \<noteq> 0 \<Longrightarrow> no_postfix k \<and> k \<noteq> TkEof"
  by (auto simp: infix_bp_def no_postfix_def)

lemma may_follow_mono: "may_follow p w \<Longrightarrow> p \<le> q \<Longrightarrow> may_follow q w"
  by (auto simp: may_follow_def)

lemma may_follow_kind: "at_words s w \<Longrightarrow> may_follow p w \<Longrightarrow> kind_ahead s 0 = next_kind w"
  by (cases w) (auto simp: may_follow_def next_kind_def dest: at_words_kind)

lemma may_follow_paren: "may_follow p ((TkRParen, []) # w)"
  by (simp add: may_follow_def next_kind_def no_postfix_def infix_bp_def)

lemma may_follow_infix: "fst (infix_bp k) \<noteq> 0 \<Longrightarrow> may_follow (fst (infix_bp k)) ((k, []) # w)"
  by (simp add: may_follow_def next_kind_def infix_no_postfix)

lemma postfix_stops:
  assumes "at_words s w" "may_follow p w"
  shows "parse_postfix c e s = Some (Reply e s)"
  using assms(2) unfolding parse_postfix_def
  by (subst loop.simps)
     (simp add: postfix_step_def if_state_def check_kind_def may_follow_kind [OF assms] may_follow_def no_postfix_def
       produce_def)

lemma climb_stops:
  assumes "at_words s w" "may_follow p w" "fst (infix_bp (next_kind w)) < b \<or> fst (infix_bp (next_kind w)) = 0"
  shows "loop (\<lambda>_ _. True) (climb_step c b) e s = Some (Reply e s)"
  using assms(2,3)
  by (subst loop.simps)
     (simp add: climb_step_def if_state_def check_kind_def may_follow_kind [OF assms(1,2)] may_follow_def no_postfix_def
       produce_def case_prod_beta)

text \<open>One round of the loop, at an infix operator.\<close>

lemma climb_infix:
  assumes s: "at_words s ((k, x) # w)" and k: "fst (infix_bp k) \<noteq> 0" "b \<le> fst (infix_bp k)"
    and r: "p_expr c (snd (infix_bp k)) (move_on s) = Some (Reply rhs t)"
  obtains h where "loop (\<lambda>_ _. True) (climb_step c b) lhs s
    = loop (\<lambda>_ _. True) (climb_step c b) (BinaryExpr h (token_to_binop k) lhs rhs) (t\<lparr>ps_next := ps_next t + 1\<rparr>)"
proof -
  let ?h = "hdr_of (ps_next t) (merge_ranges (expr_range lhs) (expr_range rhs))"
  have "k \<noteq> TkKw KwAs" "k \<noteq> TkKw KwAsQuestion" using infix_no_postfix [OF k(1)] by (auto simp: no_postfix_def)
  then have "climb_step c b lhs s
      = Some (Reply (Again (BinaryExpr ?h (token_to_binop k) lhs rhs)) (t\<lparr>ps_next := ps_next t + 1\<rparr>))"
    using k r at_words_token [OF s]
    by (simp add: climb_step_def if_state_def at_words_check [OF s] at_words_kind [OF s] seq_def advance_token_def
        make_node_def produce_def case_prod_beta)
  then have "loop (\<lambda>_ _. True) (climb_step c b) lhs s
      = loop (\<lambda>_ _. True) (climb_step c b) (BinaryExpr ?h (token_to_binop k) lhs rhs) (t\<lparr>ps_next := ps_next t + 1\<rparr>)"
    by (subst loop.simps) simp
  with that show thesis .
qed

section \<open>Operands\<close>

lemma primary_ident:
  assumes "at_words s ((TkIdentifier, x) # w)"
  obtains h t where "parse_primary c s = Some (Reply (IdentExpr h x) t)" "skipped s 1 t"
proof -
  let ?s = "s\<lparr>ps_next := ps_next s + 1\<rparr>"
  have s: "at_words ?s ((TkIdentifier, x) # w)" using assms by (simp add: at_words_next)
  have "parse_primary c s = parse_literal (tok_range (peek_ahead s 0)) (\<lambda>h t. IdentExpr h (tok_lexeme t)) s"
    by (simp add: parse_primary_def seq_def this_range_def query_def if_state_def at_words_check [OF assms])
  also have "\<dots> = close_node (ps_next s) (tok_range (peek_ahead s 0))
      (\<lambda>h. IdentExpr h (tok_lexeme (ps_tokens ?s ! ps_pos ?s))) (move_on ?s)"
    by (simp add: parse_literal_def seq_def make_node_def advance_token_def)
  finally have "\<exists>h. parse_primary c s = Some (Reply (IdentExpr h x) (move_on ?s))"
    using at_words_token [OF s] by (simp add: close_node_def seq_def span_from_def query_def produce_def)
  moreover have "skipped s 1 (move_on ?s)" using at_words_move(2) [OF s] by (simp add: skipped_next)
  ultimately show thesis using that by blast
qed

lemma primary_paren:
  assumes s: "at_words s ((TkLParen, []) # v @ [(TkRParen, [])] @ w)"
    and e: "p_expr c 0 (move_on s) = Some (Reply e t)" "skipped (move_on s) (length v) t"
  obtains h u where "parse_primary c s = Some (Reply (ParenExpr h e) u)" "skipped s (length v + 2) u"
proof -
  have m: "at_words (move_on s) (v @ [(TkRParen, [])] @ w)" "skipped s 1 (move_on s)"
    using at_words_move [OF s] by auto
  have t: "at_words t ((TkRParen, []) # w)" using skipped_at [OF m(1) e(2)] by simp
  have k: "check_kind TkRParen t" "\<not> check_kind TkComma t" by (simp_all add: at_words_check [OF t])
  have "parse_primary c s = parse_paren_expr c (tok_range (peek_ahead s 0)) s"
    by (simp add: parse_primary_def seq_def this_range_def query_def if_state_def at_words_check [OF s])
  also have "\<exists>h. \<dots> = Some (Reply (ParenExpr h e) ((move_on t)\<lparr>ps_next := ps_next (move_on t) + 1\<rparr>))"
    using e(1) k by (simp add: parse_paren_expr_def seq_def advance_token_def if_match_def match_kind_def
        expect_kind_def produce_def make_node_def close_node_def span_from_def query_def)
  finally have p: "\<exists>h. parse_primary c s = Some (Reply (ParenExpr h e) ((move_on t)\<lparr>ps_next := ps_next (move_on t) + 1\<rparr>))" .
  have "skipped s (1 + length v + 1) (move_on t)"
    by (intro skipped_trans [of _ _ t] skipped_trans [OF m(2) e(2)] at_words_move(2) [OF t]) simp
  then have "skipped s (length v + 2) ((move_on t)\<lparr>ps_next := ps_next (move_on t) + 1\<rparr>)"
    by (simp add: skipped_next)
  with p that show thesis by blast
qed

text \<open>A primary expression followed by a token that continues none.\<close>

lemma prefix_primary:
  assumes s: "at_words s (v @ w)" "may_follow p w" "at_words s ((k, x) # w')" "k \<in> {TkIdentifier, TkLParen}"
    and p: "p_primary c s = Some (Reply e t)" "skipped s (length v) t"
  shows "parse_prefix c s = Some (Reply e t)"
proof -
  have "parse_prefix c s = seq (p_primary c) (parse_postfix c) s"
    using s(4) by (auto simp: parse_prefix_def seq_def this_range_def query_def if_state_def at_words_check [OF s(3)])
  also have "\<dots> = Some (Reply e t)"
    using p(1) postfix_stops [OF skipped_at [OF s(1) p(2)] s(2)] by (simp add: seq_def)
  finally show ?thesis .
qed

lemma prefix_operator:
  assumes s: "at_words s ((prefix_token u, x) # w)" "u \<noteq> UnwrapOp"
    and p: "p_prefix c ((move_on s)\<lparr>ps_next := ps_next (move_on s) + 1\<rparr>) = Some (Reply e t)"
  obtains h where "parse_prefix c s = Some (Reply (UnaryExpr h u e) t)"
proof -
  have "parse_prefix c s = prefixed c (tok_range (peek_ahead s 0)) (\<lambda>h. UnaryExpr h u) s"
    using s(2) by (cases u) (simp_all add: parse_prefix_def seq_def this_range_def query_def if_state_def
        at_words_check [OF s(1)] prefix_token_def)
  also have "\<exists>h. \<dots> = Some (Reply (UnaryExpr h u e) t)"
    using p by (simp add: prefixed_def seq_def advance_token_def make_node_def close_node_def span_from_def
        query_def produce_def)
  finally show thesis using that by blast
qed

section \<open>Trees\<close>

text \<open>A tree that is rendered as an operand of the prefix level where infix operators below \<open>p\<close> get parentheses.\<close>

definition closed_at :: "nat \<Rightarrow> op_tree \<Rightarrow> bool" where
  "closed_at p t \<longleftrightarrow> (case t of Infix k l r \<Rightarrow> fst (infix_bp k) < p | _ \<Rightarrow> True)"

text \<open>What the induction proves of a tree: at the level of operands, and along the left spine of a climb.\<close>

definition reads_operand :: "op_tree \<Rightarrow> bool" where
  "reads_operand t \<longleftrightarrow>
     (\<forall>m p q s w. at_words s (render_ops p t @ w) \<longrightarrow> may_follow q w \<longrightarrow> closed_at p t \<longrightarrow> 2 * length (render_ops p t) \<le> m \<longrightarrow>
        (\<exists>e u. prefix_at m s = Some (Reply e u) \<and> stands_for e t \<and> skipped s (length (render_ops p t)) u))"

definition reads_spine :: "nat \<Rightarrow> op_tree \<Rightarrow> bool" where
  "reads_spine p t \<longleftrightarrow>
     (\<forall>m b s w. at_words s (render_ops p t @ w) \<longrightarrow> may_follow p w \<longrightarrow> b \<le> p \<longrightarrow> 2 * length (render_ops p t) \<le> m \<longrightarrow>
        (\<exists>e u. parse_expr_bp (productions_at m) b s = loop (\<lambda>_ _. True) (climb_step (productions_at m) b) e u \<and>
           stands_for e t \<and> skipped s (length (render_ops p t)) u))"

lemma reads_operandI:
  assumes "\<And>m p q s w. at_words s (render_ops p t @ w) \<Longrightarrow> may_follow q w \<Longrightarrow> closed_at p t \<Longrightarrow>
    2 * length (render_ops p t) \<le> m \<Longrightarrow>
      \<exists>e u. prefix_at m s = Some (Reply e u) \<and> stands_for e t \<and> skipped s (length (render_ops p t)) u"
  shows "reads_operand t"
  unfolding reads_operand_def using assms by blast

lemma reads_operandD:
  assumes "reads_operand t" "at_words s (render_ops p t @ w)" "may_follow q w" "closed_at p t"
    "2 * length (render_ops p t) \<le> m"
  obtains e u where "prefix_at m s = Some (Reply e u)" "stands_for e t" "skipped s (length (render_ops p t)) u"
  using assms unfolding reads_operand_def by blast

lemma reads_spineD:
  assumes "reads_spine p t" "at_words s (render_ops p t @ w)" "may_follow p w" "b \<le> p" "2 * length (render_ops p t) \<le> m"
  obtains e u where "parse_expr_bp (productions_at m) b s = loop (\<lambda>_ _. True) (climb_step (productions_at m) b) e u"
    "stands_for e t" "skipped s (length (render_ops p t)) u"
  using assms unfolding reads_spine_def by blast

text \<open>A tree on its own, up to a token that continues none of its power.\<close>

lemma reads_expr:
  assumes t: "reads_spine b t" and s: "at_words s (render_ops b t @ w)" "may_follow b w"
    "fst (infix_bp (next_kind w)) < b \<or> fst (infix_bp (next_kind w)) = 0" and m: "2 * length (render_ops b t) < m"
  obtains e u where "expr_at m b s = Some (Reply e u)" "stands_for e t" "skipped s (length (render_ops b t)) u"
proof -
  from m obtain n where n: "m = Suc n" "2 * length (render_ops b t) \<le> n" by (cases m) auto
  from t s(1,2) order_refl n(2) obtain e u where
    e: "parse_expr_bp (productions_at n) b s = loop (\<lambda>_ _. True) (climb_step (productions_at n) b) e u"
      "stands_for e t" "skipped s (length (render_ops b t)) u" by (rule reads_spineD)
  have "expr_at m b s = Some (Reply e u)"
    using e(1) climb_stops [OF skipped_at [OF s(1) e(3)] s(2,3)] by (simp add: n(1) productions_at_def)
  with e(2,3) that show thesis by blast
qed

lemma reads_name: "reads_operand (Name x)"
proof (rule reads_operandI)
  fix m p q s w
  assume a: "at_words s (render_ops p (Name x) @ w)" "may_follow q w" "2 * length (render_ops p (Name x)) \<le> m"
  from a(3) have m: "m = Suc (Suc (m - 2))" by simp
  from a(1) have s: "at_words s ((TkIdentifier, x) # w)" by simp
  obtain h t where t: "parse_primary (productions_at (m - 2)) s = Some (Reply (IdentExpr h x) t)" "skipped s 1 t"
    by (rule primary_ident [OF s])
  have "prefix_at m s = parse_prefix (productions_at (Suc (m - 2))) s" by (subst m) (simp add: productions_at_def)
  also have "\<dots> = Some (Reply (IdentExpr h x) t)"
    by (rule prefix_primary [of s "[(TkIdentifier, x)]" w q TkIdentifier x w])
       (use a(2) s t in \<open>simp_all add: productions_at_def\<close>)
  finally show "\<exists>e u. prefix_at m s = Some (Reply e u) \<and> stands_for e (Name x) \<and> skipped s (length (render_ops p (Name x))) u"
    using t(2) stands_for.name by auto
qed

lemma closed_at_operand: "proper_ops t \<Longrightarrow> closed_at operand_bp t"
  using infix_bp_power by (cases t) (auto simp: closed_at_def)

lemma reads_prefix:
  assumes t: "reads_operand t" "proper_ops t" and u: "u \<noteq> UnwrapOp"
  shows "reads_operand (Prefix u t)"
proof (rule reads_operandI)
  fix m p q s w
  assume a: "at_words s (render_ops p (Prefix u t) @ w)" "may_follow q w" "2 * length (render_ops p (Prefix u t)) \<le> m"
  let ?v = "render_ops operand_bp t"
  let ?s = "(move_on s)\<lparr>ps_next := ps_next (move_on s) + 1\<rparr>"
  from a(3) obtain n where n: "m = Suc n" "2 * length ?v \<le> n" by (cases m) auto
  from a(1) have s: "at_words s ((prefix_token u, []) # ?v @ w)" by simp
  have k: "prefix_token u \<noteq> TkEof" by (cases u) (simp_all add: prefix_token_def)
  have s': "at_words ?s (?v @ w)" using at_words_move(1) [OF s k] by (simp add: at_words_next)
  from t(1) s' a(2) closed_at_operand [OF t(2)] n(2)
  obtain e r where e: "prefix_at n ?s = Some (Reply e r)" "stands_for e t" "skipped ?s (length ?v) r"
    by (rule reads_operandD)
  have p: "p_prefix (productions_at n) ?s = Some (Reply e r)" using e(1) by (simp add: productions_at_def)
  obtain h where h: "parse_prefix (productions_at n) s = Some (Reply (UnaryExpr h u e) r)"
    by (rule prefix_operator [OF s u p])
  have "skipped s (1 + length ?v) r"
    by (rule skipped_trans [OF at_words_move(2) [OF s k]]) (use e(3) in \<open>simp add: skipped_next\<close>)
  then show "\<exists>e u'. prefix_at m s = Some (Reply e u') \<and> stands_for e (Prefix u t) \<and> skipped s (length (render_ops p (Prefix u t))) u'"
    using h stands_for.prefix [OF e(2)] by (auto simp: n(1) productions_at_def)
qed

text \<open>An operand is where a spine starts.\<close>

lemma reads_start:
  assumes t: "reads_operand t" "closed_at p t"
  shows "reads_spine p t"
  unfolding reads_spine_def
proof (intro allI impI)
  fix m b s w
  assume a: "at_words s (render_ops p t @ w)" "may_follow p w" "2 * length (render_ops p t) \<le> m"
  from t(1) a(1,2) t(2) a(3) obtain e u where
    "prefix_at m s = Some (Reply e u)" "stands_for e t" "skipped s (length (render_ops p t)) u"
    by (rule reads_operandD)
  then show "\<exists>e u. parse_expr_bp (productions_at m) b s = loop (\<lambda>_ _. True) (climb_step (productions_at m) b) e u \<and>
    stands_for e t \<and> skipped s (length (render_ops p t)) u"
    by (auto simp: parse_expr_bp_def seq_def productions_at_def)
qed

text \<open>An infix expression in parentheses is an operand.\<close>

lemma reads_paren:
  assumes t: "reads_spine 0 t" and render: "render_ops p' t = [(TkLParen, [])] @ render_ops 0 t @ [(TkRParen, [])]"
    and s: "at_words s (render_ops p' t @ w)" "may_follow q w" and m: "2 * length (render_ops p' t) \<le> m"
  shows "\<exists>e u. prefix_at m s = Some (Reply e u) \<and> stands_for e t \<and> skipped s (length (render_ops p' t)) u"
proof -
  let ?v = "render_ops 0 t"
  from m have m': "m = Suc (Suc (m - 2))" "2 * length ?v < m - 2" by (simp_all add: render)
  from s(1) have s': "at_words s ((TkLParen, []) # ?v @ [(TkRParen, [])] @ w)" by (simp add: render)
  have s1: "at_words (move_on s) (?v @ (TkRParen, []) # w)" using at_words_move(1) [OF s'] by simp
  have f: "fst (infix_bp (next_kind ((TkRParen, []) # w))) < 0 \<or> fst (infix_bp (next_kind ((TkRParen, []) # w))) = 0"
    by (simp add: next_kind_def infix_bp_def)
  from t s1 may_follow_paren f m'(2)
  obtain e r where e: "expr_at (m - 2) 0 (move_on s) = Some (Reply e r)" "stands_for e t" "skipped (move_on s) (length ?v) r"
    by (rule reads_expr)
  have x: "p_expr (productions_at (m - 2)) 0 (move_on s) = Some (Reply e r)" using e(1) by (simp add: productions_at_def)
  obtain h u where u: "parse_primary (productions_at (m - 2)) s = Some (Reply (ParenExpr h e) u)" "skipped s (length ?v + 2) u"
    by (rule primary_paren [OF s' x e(3)])
  have "prefix_at m s = parse_prefix (productions_at (Suc (m - 2))) s" by (subst m'(1)) (simp add: productions_at_def)
  also have "\<dots> = Some (Reply (ParenExpr h e) u)"
    by (rule prefix_primary [of s "(TkLParen, []) # ?v @ [(TkRParen, [])]" w q TkLParen "[]" "?v @ [(TkRParen, [])] @ w"])
       (use s' s(2) u in \<open>simp_all add: productions_at_def\<close>)
  finally show ?thesis using u(2) stands_for.paren [OF e(2)] by (auto simp: render)
qed

text \<open>An infix expression without parentheses: the climb reads its left operand, then the operator with the right one.\<close>

lemma reads_climb:
  assumes l: "reads_spine (fst (infix_bp k)) l" and r: "reads_spine (snd (infix_bp k)) r" and k: "fst (infix_bp k) \<noteq> 0" "b \<le> fst (infix_bp k)" "p \<le> fst (infix_bp k)"
    and render: "v = render_ops (fst (infix_bp k)) l @ [(k, [])] @ render_ops (snd (infix_bp k)) r"
    and s: "at_words s (v @ w)" "may_follow p w" and m: "2 * length v \<le> m"
  shows "\<exists>e u. parse_expr_bp (productions_at m) b s = loop (\<lambda>_ _. True) (climb_step (productions_at m) b) e u \<and>
    stands_for e (Infix k l r) \<and> skipped s (length v) u"
proof -
  let ?l = "render_ops (fst (infix_bp k)) l" and ?r = "render_ops (snd (infix_bp k)) r"
  have q: "fst (infix_bp k) < snd (infix_bp k)" using infix_bp_power [OF k(1)] by simp
  have s': "at_words s (?l @ (k, []) # ?r @ w)" using s(1) by (simp add: render)
  have ml: "2 * length ?l \<le> m" and mr: "2 * length ?r < m" using m by (simp_all add: render)
  from l s' may_follow_infix [OF k(1)] k(2) ml obtain e u where
    e: "parse_expr_bp (productions_at m) b s = loop (\<lambda>_ _. True) (climb_step (productions_at m) b) e u"
      "stands_for e l" "skipped s (length ?l) u" by (rule reads_spineD) blast
  have u: "at_words u ((k, []) # ?r @ w)" by (rule skipped_at [OF s' e(3)])
  have k': "k \<noteq> TkEof" using infix_no_postfix [OF k(1)] by simp
  have wr: "may_follow (snd (infix_bp k)) w" using may_follow_mono [OF s(2)] k(3) q by simp
  have wp: "fst (infix_bp (next_kind w)) < snd (infix_bp k) \<or> fst (infix_bp (next_kind w)) = 0"
    using s(2) k(3) q by (simp add: may_follow_def)
  from r at_words_move(1) [OF u k'] wr wp mr obtain f x where
    f: "expr_at m (snd (infix_bp k)) (move_on u) = Some (Reply f x)" "stands_for f r" "skipped (move_on u) (length ?r) x"
    by (rule reads_expr)
  have fe: "p_expr (productions_at m) (snd (infix_bp k)) (move_on u) = Some (Reply f x)"
    using f(1) by (simp add: productions_at_def)
  obtain h where "loop (\<lambda>_ _. True) (climb_step (productions_at m) b) e u
    = loop (\<lambda>_ _. True) (climb_step (productions_at m) b) (BinaryExpr h (token_to_binop k) e f) (x\<lparr>ps_next := ps_next x + 1\<rparr>)"
    by (rule climb_infix [OF u k(1,2) fe])
  moreover have "skipped s (length ?l + (1 + length ?r)) x"
    by (intro skipped_trans [OF e(3)] skipped_trans [OF at_words_move(2) [OF u k'] f(3)])
  then have "skipped s (length v) (x\<lparr>ps_next := ps_next x + 1\<rparr>)" by (simp add: skipped_next render)
  ultimately show ?thesis using e(1) stands_for.infix_op [OF e(2) f(2)] by auto
qed

lemma render_open: "p \<le> fst (infix_bp k) \<Longrightarrow>
    render_ops p (Infix k l r) = render_ops (fst (infix_bp k)) l @ [(k, [])] @ render_ops (snd (infix_bp k)) r"
  by (simp add: Let_def)

lemma render_closed: "fst (infix_bp k) < p \<Longrightarrow>
    render_ops p (Infix k l r) = [(TkLParen, [])] @ render_ops 0 (Infix k l r) @ [(TkRParen, [])]"
  by (simp add: Let_def)

lemma reads_infix:
  assumes "\<And>p. reads_spine p l" "\<And>p. reads_spine p r" "fst (infix_bp k) \<noteq> 0"
  shows "reads_operand (Infix k l r) \<and> (\<forall>p. reads_spine p (Infix k l r))"
proof -
  let ?t = "Infix k l r"
  have spine: "reads_spine p ?t" if p: "p \<le> fst (infix_bp k)" for p
    unfolding reads_spine_def
    by (intro allI impI reads_climb [OF assms(1,2,3) _ p render_open [OF p]]) (use p in simp_all)
  have operand: "reads_operand ?t"
    by (intro reads_operandI reads_paren [OF spine render_closed]) (simp_all add: closed_at_def)
  have "reads_spine p ?t" for p
    by (cases "p \<le> fst (infix_bp k)") (use spine reads_start [OF operand, of p] in \<open>simp_all add: closed_at_def\<close>)
  with operand show ?thesis by blast
qed

lemma reads_trees: "proper_ops t \<Longrightarrow> reads_operand t \<and> (\<forall>p. reads_spine p t)"
proof (induction t)
  case (Name x)
  show ?case using reads_name reads_start by (simp add: closed_at_def)
next
  case (Prefix u t)
  then show ?case using reads_prefix reads_start by (simp add: closed_at_def)
next
  case (Infix k l r)
  then show ?case by (intro reads_infix) simp_all
qed

end
