(* ===== verification/Parser_Props.thy ===== *)
theory Parser_Props
  imports Parser_Pratt Lexer_Props
begin

text \<open>
  What the parser promises: it returns on every file that the lexer returns tokens for, it reads all
  of them unless the errors reach the cap, its operators are those of the table of binding powers, and
  where its error recovery and its conversions of numbers fail.
\<close>

declare One_nat_def [simp del]

section \<open>Parsing a file\<close>

lemma parse_file_replies:
  assumes "cursor_ok (new_parser ts rep 1)"
  shows "replies (new_parser ts rep 1) (parse_file ts rep)"
proof -
  have "8 * left (new_parser ts rep 1) + 8 \<le> fuel_for ts" by (simp add: left_def new_parser_def fuel_for_def)
  then show ?thesis unfolding parse_file_def using assms by (intro endsD [OF behaves_ends [OF behaves_parse_unit]])
qed

lemma parse_file_goes:
  assumes "cursor_ok (new_parser ts rep 1)" "parse_file ts rep = Some (Reply u s)"
  shows "goes (new_parser ts rep 1) s"
  using assms by (auto simp: parse_file_def intro: proceedsD [OF behaves_proceeds [OF behaves_parse_unit]])

section \<open>The tokens that the parser relies on\<close>

text \<open>What the parser needs of its input: a list of tokens with one end-of-file token, at the end.\<close>

locale token_source =
  fixes tokens_of :: "source_manager \<Rightarrow> file_id \<Rightarrow> reporter \<Rightarrow> sm_error + token list \<times> reporter"
  assumes one_eof: "tokens_of sm f rep = Inr (ts, rep') \<Longrightarrow>
    \<exists>body e. ts = body @ [e] \<and> tok_kind e = TkEof \<and> TkEof \<notin> set (map tok_kind body)"
begin

lemma cursor: "tokens_of sm f rep = Inr (ts, rep') \<Longrightarrow> cursor_ok (new_parser ts r n)"
  by (auto dest!: one_eof simp: cursor_ok_def new_parser_def)

lemma answers: "tokens_of sm f rep = Inr (ts, rep') \<Longrightarrow> replies (new_parser ts rep' 1) (parse_file ts rep')"
  by (intro parse_file_replies cursor)

lemma goes_all: "tokens_of sm f rep = Inr (ts, rep') \<Longrightarrow> parse_file ts rep' = Some (Reply u s) \<Longrightarrow> goes (new_parser ts rep' 1) s"
  by (rule parse_file_goes [OF cursor])

text \<open>The cursor sees the end of the file only at its last token.\<close>

lemma end_position:
  assumes "tokens_of sm f rep = Inr (ts, rep')" "parse_file ts rep' = Some (Reply u s)" "at_eof s"
  shows "ps_pos s = length ts - 1"
proof (rule ccontr)
  assume p: "ps_pos s \<noteq> length ts - 1"
  from one_eof [OF assms(1)] obtain body e where ts: "ts = body @ [e]" "TkEof \<notin> set (map tok_kind body)" by blast
  have g: "cursor_ok s" "ps_tokens s = ts" using goes_all [OF assms(1,2)] by (simp_all add: goes_def new_parser_def)
  with p ts(1) have "ps_pos s < length body" by (auto simp: cursor_ok_def)
  then have "body ! ps_pos s \<in> set body" "tok_kind (body ! ps_pos s) = TkEof"
    using assms(3) ts(1) g(2) kind_here [OF g(1)] by (auto simp: at_eof_def nth_append)
  with ts(2) show False by (metis image_eqI list.set_map)
qed

end

interpretation lexed: token_source lex_file
proof unfold_locales
  fix sm f rep ts rep'
  assume "lex_file sm f rep = Inr (ts, rep')"
  then show "\<exists>body e. ts = body @ [e] \<and> tok_kind e = TkEof \<and> TkEof \<notin> set (map tok_kind body)"
    by (rule lex_fileE) (auto simp: good_def eof_token_def)
qed

section \<open>The parser returns\<close>

text \<open>
  C4: The front end returns: for a file that the lexer turns into tokens the parser gives a tree, or an
  exception leaves it; the latter only when the file has an integer literal that \<^verbatim>\<open>std::stoll\<close> rejects
  or a string literal without characters.
\<close>
theorem front_end_returns:
  assumes "lex_file sm f rep = Inr (ts, rep')"
  shows "(\<exists>u s. parse_file ts rep' = Some (Reply u s))
    \<or> (\<exists>e. parse_file ts rep' = Some (Uncaught e)) \<and> list_ex (\<lambda>t. \<not> convertible t) ts"
  using lexed.answers [OF assms] by (rule repliesE) (auto simp: new_parser_def list_all_iff list_ex_iff)

lemma demo_convertible: "list_ex (\<lambda>t. \<not> convertible t) demo_tokens = False"
  by code_simp

theorem front_end_returns_witness:
  "\<exists>u s. parse_file demo_tokens (new_reporter 32) = Some (Reply u s)"
  using front_end_returns [OF demo_lex] demo_convertible by simp

section \<open>The parser reads all\<close>

text \<open>A loop ends because its condition fails, or by a break.\<close>

lemma loop_exit:
  assumes "\<And>a s x t. body a s = Some (Reply (Break x) t) \<Longrightarrow> J t" and "\<And>a s. \<not> c a s \<Longrightarrow> J s"
    and r: "loop c body a s = Some (Reply x t)"
  shows "J t"
proof -
  let ?P = "\<lambda>c' b' a s r. c' = c \<and> b' = body \<longrightarrow> (case r of Reply y u \<Rightarrow> J u | Uncaught e \<Rightarrow> True)"
  have "?P c body a s (Reply x t)"
  proof (rule loop.raw_induct [where P = ?P, OF _ r], rule impI, elim conjE)
    fix lp c' b' a s r
    assume IH: "\<And>c' b' a s r. lp c' b' a s = Some r \<Longrightarrow> ?P c' b' a s r" and cb: "c' = c" "b' = body"
      and r: "(if c' a s then Option.bind (b' a s) (\<lambda>r. case r of
          Reply (Again a') s' \<Rightarrow> lp c' b' a' s'
        | Reply (Break a') s' \<Rightarrow> Some (Reply a' s')
        | Uncaught e \<Rightarrow> Some (Uncaught e)) else Some (Reply a s)) = Some r"
    show "case r of Reply y u \<Rightarrow> J u | Uncaught e \<Rightarrow> True"
    proof (cases "c a s")
      case False
      with r cb assms(2) show ?thesis by auto
    next
      case True
      with r cb obtain q where q: "body a s = Some q" by (cases "body a s") auto
      with r cb True IH assms(1) show ?thesis
        by (cases q) (auto split: signal.splits reply.splits)
    qed
  qed
  then show ?thesis by simp
qed

definition finished :: "pstate \<Rightarrow> bool" where
  "finished s \<longleftrightarrow> at_eof s \<or> should_stop (ps_reporter s)"

lemma unit_loop_finished:
  "loop (\<lambda>_ s. \<not> at_eof s) (unit_step c) ds s = Some (Reply x t) \<Longrightarrow> finished t"
  by (rule loop_exit [where J = finished])
     (auto simp: finished_def unit_step_def if_state_def produce_def elim!: seq_reply split: if_splits option.splits)

lemma parse_unit_finished: "parse_unit n s = Some (Reply u t) \<Longrightarrow> finished t"
  unfolding parse_unit_def by (elim seq_reply) (auto simp: produce_def dest: unit_loop_finished)

text \<open>
  C6: A parse that ends has read the file: the cursor is at the end-of-file token unless the errors
  reached the cap of the reporter; the tokens are the ones it was given; and it only appended error
  diagnostics to the reporter, which counts them.
\<close>
theorem parser_reads_all:
  assumes "lex_file sm f rep = Inr (ts, rep')" "parse_file ts rep' = Some (Reply u s)"
  shows "(at_eof s \<and> ps_pos s = length ts - 1 \<or> should_stop (ps_reporter s)) \<and> ps_tokens s = ts
    \<and> adds_errors rep' (ps_reporter s)"
  using parse_unit_finished assms(2) lexed.goes_all [OF assms] lexed.end_position [OF assms]
  unfolding parse_file_def finished_def goes_def by (auto simp: new_parser_def)

text \<open>A file with an empty declaration.\<close>

lemma demo_parse: "\<exists>u s. parse_file demo_tokens (new_reporter 32) = Some (Reply u s)"
  using lexed.answers [OF demo_lex] demo_convertible
  by (auto simp: new_parser_def list_all_iff list_ex_iff elim!: repliesE)

theorem parser_reads_all_witness:
  "\<exists>u s. parse_file demo_tokens (new_reporter 32) = Some (Reply u s)
    \<and> (at_eof s \<and> ps_pos s = length demo_tokens - 1 \<or> should_stop (ps_reporter s))
    \<and> ps_tokens s = demo_tokens \<and> adds_errors (new_reporter 32) (ps_reporter s)"
  using demo_parse parser_reads_all [OF demo_lex] by blast

section \<open>Operators\<close>

text \<open>
  C5: The expression parser inverts the printer that puts parentheses only where the binding powers
  need them: from the tokens of a tree of operators, followed by a token that continues none of them, it
  returns a node that stands for this tree and for no other, and takes exactly these tokens without an
  error. In particular operators of one power group to the left.
\<close>
theorem operators_roundtrip:
  assumes t: "proper_ops t" and s: "at_words s (render_ops b t @ w)" "may_follow b w"
    and w: "fst (infix_bp (next_kind w)) < b \<or> fst (infix_bp (next_kind w)) = 0"
    and n: "2 * length (render_ops b t) < n"
  shows "\<exists>e s'. expr_at n b s = Some (Reply e s') \<and> stands_for e t \<and> skipped s (length (render_ops b t)) s'
    \<and> {t'. proper_ops t' \<and> stands_for e t'} = {t}"
proof -
  from reads_trees [OF t] have "reads_spine b t" by blast
  from this s w n obtain e s' where
    e: "expr_at n b s = Some (Reply e s')" "stands_for e t" "skipped s (length (render_ops b t)) s'" by (rule reads_expr)
  have "{t'. proper_ops t' \<and> stands_for e t'} = {t}" using e(2) t stands_for_unique by blast
  with e show ?thesis by blast
qed

text \<open>The tokens of \<^verbatim>\<open>a - (b - -c)\<close>.\<close>

definition op_words :: "(token_kind \<times> string) list" where
  "op_words = [(TkIdentifier, ''a''), (TkOp OpMinus, ''-''), (TkLParen, ''(''), (TkIdentifier, ''b''), (TkOp OpMinus, ''-''),
     (TkOp OpMinus, ''-''), (TkIdentifier, ''c''), (TkRParen, '')''), (TkEof, [])]"

definition op_state :: pstate where
  "op_state = new_parser (map (\<lambda>(k, x). demo_token k 0 x) op_words) (new_reporter 32) 1"

definition op_sample :: op_tree where
  "op_sample = Infix (TkOp OpMinus) (Name ''a'') (Infix (TkOp OpMinus) (Name ''b'') (Prefix NegOp (Name ''c'')))"

theorem operators_roundtrip_witness:
  "\<exists>e s'. expr_at 100 0 op_state = Some (Reply e s') \<and> stands_for e op_sample \<and> skipped op_state 8 s'
    \<and> {t'. proper_ops t' \<and> stands_for e t'} = {op_sample}"
proof -
  have r: "render_ops 0 op_sample = [(TkIdentifier, ''a''), (TkOp OpMinus, []), (TkLParen, []), (TkIdentifier, ''b''),
      (TkOp OpMinus, []), (TkOp OpMinus, []), (TkIdentifier, ''c''), (TkRParen, [])]"
    by (simp add: op_sample_def infix_bp_def prefix_token_def)
  have t: "proper_ops op_sample" by (simp add: op_sample_def infix_bp_def)
  have s: "at_words op_state (render_ops 0 op_sample @ [(TkEof, [])])"
    by (simp add: r op_state_def op_words_def at_words_def word_of_def new_parser_def cursor_ok_def demo_token_def)
  have f: "may_follow 0 [(TkEof, [])]" "fst (infix_bp (next_kind [(TkEof, [])])) < 0 \<or> fst (infix_bp (next_kind [(TkEof, [])])) = 0"
    by (simp_all add: may_follow_def next_kind_def no_postfix_def infix_bp_def)
  have l: "length (render_ops 0 op_sample) = 8" by (simp add: r)
  show ?thesis using operators_roundtrip [OF t s f, of 100] by (simp add: l)
qed

section \<open>Error recovery\<close>

text \<open>
  Where recovery continues: behind the first newline, or at the first token that starts a declaration,
  whichever comes first.
\<close>

definition recovers_at :: "token \<Rightarrow> bool" where
  "recovers_at t \<longleftrightarrow> tok_kind t = TkNewline \<or> starts_decl (tok_kind t)"

definition recovery_point :: "token list \<Rightarrow> nat \<Rightarrow> nat" where
  "recovery_point ts p =
     (let q = p + length (takeWhile (\<lambda>t. \<not> recovers_at t) (drop p ts))
      in if tok_kind (ts ! q) = TkNewline then q + 1 else q)"

lemma recovery_point_here:
  "p < length ts \<Longrightarrow> recovers_at (ts ! p) \<Longrightarrow>
     recovery_point ts p = (if tok_kind (ts ! p) = TkNewline then p + 1 else p)"
  by (simp add: recovery_point_def Cons_nth_drop_Suc [symmetric])

lemma recovery_point_next:
  "p < length ts \<Longrightarrow> \<not> recovers_at (ts ! p) \<Longrightarrow> recovery_point ts p = recovery_point ts (p + 1)"
  by (simp add: One_nat_def recovery_point_def Cons_nth_drop_Suc [symmetric])

lemma move_on_pos: "cursor_ok s \<Longrightarrow> \<not> at_eof s \<Longrightarrow> move_on s = s\<lparr>ps_pos := ps_pos s + 1\<rparr>"
  using not_eof_pos by (simp add: move_on_def)


lemma op_state_ok: "cursor_ok op_state"
  by (simp add: op_state_def op_words_def new_parser_def cursor_ok_def demo_token_def)


text \<open>A state with \<open>k\<close> more errors at its next token.\<close>

definition stray_message :: "token_kind \<Rightarrow> string" where
  "stray_message k = ''expected declaration, got '' @ spelling k"

definition more_errors :: "nat \<Rightarrow> string \<Rightarrow> pstate \<Rightarrow> pstate" where
  "more_errors k msg s = s\<lparr>ps_reporter :=
     (report (diag_at (tok_range (peek_ahead s 0)) (diag_error msg)) ^^ k) (ps_reporter s)\<rparr>"

lemma check_stray: "check_kind k s \<Longrightarrow> check_kind k' s \<longleftrightarrow> k = k'"
  by (auto simp: check_kind_def)

lemma no_step: "\<not> c a s \<Longrightarrow> loop c body a s = Some (Reply a s)"
  by (subst loop.simps) simp

lemma no_match: "\<not> check_kind k s \<Longrightarrow> match_kind k s = Some (Reply False s)"
  by (simp add: match_kind_def)

lemma no_if_match: "\<not> check_kind k s \<Longrightarrow> if_match k m1 m2 s = m2 s"
  by (simp add: if_match_def seq_def no_match)

lemma no_take: "\<not> P s \<Longrightarrow> take_if P s = Some (Reply False s)"
  by (simp add: take_if_def if_state_def produce_def)

lemma no_dispatch: "kind_ahead s 0 \<notin> set (map fst es) \<Longrightarrow> dispatch es m s = m s"
  by (induction es) (auto simp: if_state_def check_kind_def)

lemma no_visibility:
  "kind_ahead s 0 \<notin> {TkKw KwPrivate, TkKw KwInternal, TkKw KwPackage, TkKw KwPublic} \<Longrightarrow>
     parse_visibility s = Some (Reply Internal s)"
  by (simp add: parse_visibility_def no_if_match check_kind_def produce_def)

lemma no_modes:
  "kind_ahead s 0 \<notin> {TkKw KwComptime, TkKw KwAsync, TkKw KwInout, TkKw KwSink} \<Longrightarrow>
     func_modes s = Some (Reply (False, False, RecvNone) s)"
  by (simp add: func_modes_def seq_def no_take no_match takes_comptime_def check_kind_def produce_def)

lemma stray_decl:
  assumes "check_kind k s" "k \<in> {TkKw KwImport, TkKw KwModule}"
  shows "parse_decl c at s = Some (Reply None (more_errors 1 (stray_message k) s))"
proof -
  have k: "kind_ahead s 0 = k" using assms(1) by (simp add: check_kind_def)
  have v: "parse_visibility s = Some (Reply Internal s)" using assms(2) by (intro no_visibility) (auto simp: k)
  have m: "func_modes s = Some (Reply (False, False, RecvNone) s)" using assms(2) by (intro no_modes) (auto simp: k)
  have "parse_decl c at s = seq (query (\<lambda>s. kind_ahead s 0)) (\<lambda>got.
          seq (error_here (''expected declaration, got '' @ spelling got)) (\<lambda>_. produce None)) s"
    unfolding parse_decl_def seq_def [of parse_visibility] seq_def [of func_modes] v m option.case reply.case prod.case
    by (rule no_dispatch) (use assms(2) in \<open>auto simp: k\<close>)
  then show ?thesis
    by (simp add: seq_def query_def k error_here_def this_range_def emit_error_def produce_def more_errors_def stray_message_def
        One_nat_def)
qed

lemma sync_stays:
  "kind_ahead s 0 = k \<Longrightarrow> starts_decl k \<Longrightarrow> k \<noteq> TkNewline \<Longrightarrow> k \<noteq> TkEof \<Longrightarrow> sync_to_decl s = Some (Reply () s)"
  unfolding sync_to_decl_def by (subst loop.simps) (simp add: at_eof_def seq_def query_def produce_def)

lemma stray_round:
  assumes k: "check_kind k s" "k \<in> {TkKw KwImport, TkKw KwModule}" and n: "\<not> should_stop (ps_reporter s)"
    "p_decl c = parse_decl c'"
  shows "unit_step c ds s = Some (Reply (Again ds) (more_errors 1 (stray_message k) s))"
proof -
  let ?u = "more_errors 1 (stray_message k) s"
  have u: "kind_ahead ?u j = kind_ahead s j" for j
    by (simp add: kind_ahead_def peek_ahead_def more_errors_def)
  have a: "parse_attributes c s = Some (Reply [] s)"
    unfolding parse_attributes_def by (rule no_step) (use k in \<open>auto simp: check_kind_def\<close>)
  have d: "p_decl c [] s = Some (Reply None ?u)"
    by (simp only: n(2) stray_decl [OF k])
  have ku: "kind_ahead ?u 0 = k" using k(1) by (simp add: u check_kind_def)
  have r: "sync_to_decl ?u = Some (Reply () ?u)" by (rule sync_stays [OF ku]) (use k(2) in \<open>auto simp: starts_decl_def\<close>)
  have w: "skip_newlines ?u = Some (Reply () ?u)"
    unfolding skip_newlines_def by (rule no_step) (use k(2) in \<open>auto simp: at_newline_def check_kind_def ku\<close>)
  have "\<not> at_eof s" using k by (auto simp: check_kind_def at_eof_def)
  with n(1) a d r w show ?thesis by (simp add: unit_step_def if_state_def seq_def produce_def)
qed

lemma more_errors_more: "more_errors j msg (more_errors 1 msg s) = more_errors (Suc j) msg s"
  by (simp add: more_errors_def peek_ahead_def One_nat_def funpow_Suc_right del: funpow.simps(2))

lemma more_errors_kind: "check_kind k (more_errors j msg s) = check_kind k s"
  by (simp add: check_kind_def kind_ahead_def peek_ahead_def more_errors_def)

lemma report_error: "report (diag_at r (diag_error m)) rep =
    rep\<lparr>error_count := error_count rep + 1, diagnostics := diagnostics rep @ [diag_at r (diag_error m)]\<rparr>"
  by (simp add: report_def diag_at_def diag_error_def)

lemma stray_loop:
  assumes "check_kind k s" "k \<in> {TkKw KwImport, TkKw KwModule}" "p_decl c = parse_decl c'"
    and "error_cap (ps_reporter s) - error_count (ps_reporter s) = j"
  shows "loop (\<lambda>_ s. \<not> at_eof s) (unit_step c) ds s = Some (Reply ds (more_errors j (stray_message k) s))"
  using assms
proof (induction j arbitrary: s)
  case 0
  then have "\<not> at_eof s" "should_stop (ps_reporter s)" by (auto simp: check_kind_def at_eof_def should_stop_def)
  then show ?case by (subst loop.simps) (simp add: unit_step_def if_state_def produce_def more_errors_def)
next
  case (Suc j)
  let ?u = "more_errors 1 (stray_message k) s"
  have e: "\<not> at_eof s" "\<not> should_stop (ps_reporter s)" using Suc.prems by (auto simp: check_kind_def at_eof_def should_stop_def)
  have "error_cap (ps_reporter ?u) - error_count (ps_reporter ?u) = j"
    using Suc.prems(4) by (simp add: more_errors_def report_error One_nat_def)
  with Suc.IH [of ?u] Suc.prems(1-3)
  have "loop (\<lambda>_ s. \<not> at_eof s) (unit_step c) ds ?u = Some (Reply ds (more_errors j (stray_message k) ?u))"
    by (simp add: more_errors_kind)
  then show ?case
    using e(1) stray_round [OF Suc.prems(1,2) e(2) Suc.prems(3)] by (subst loop.simps) (simp add: more_errors_more)
qed

text \<open>
  C33: An \<^verbatim>\<open>import\<close> or \<^verbatim>\<open>module\<close> among the declarations is where recovery makes no progress: the token is
  never taken, the same error is reported again until the cap of the reporter is reached, and the rest
  of the file is dropped.
\<close>
theorem stray_import_repeats:
  assumes "check_kind k s" "k \<in> {TkKw KwImport, TkKw KwModule}"
  shows "loop (\<lambda>_ s. \<not> at_eof s) (unit_step (productions_at (Suc n))) ds s
    = Some (Reply ds (s\<lparr>ps_reporter :=
        (report (diag_at (tok_range (peek_ahead s 0)) (diag_error (stray_message k)))
          ^^ (error_cap (ps_reporter s) - error_count (ps_reporter s))) (ps_reporter s)\<rparr>))"
  by (rule stray_loop [OF assms _ refl, of _ "productions_at n", unfolded more_errors_def])
     (simp add: productions_at_Suc)

text \<open>A state at a stray import, with a cap of three errors.\<close>

definition stray_state :: pstate where
  "stray_state = new_parser [demo_token (TkKw KwImport) 0 ''import'', demo_token TkIdentifier 7 ''io'', demo_token TkEof 9 []]
     (new_reporter 3) 1"

theorem stray_import_repeats_witness:
  "\<exists>s'. loop (\<lambda>_ s. \<not> at_eof s) (unit_step (productions_at (Suc 9))) [] stray_state = Some (Reply [] s')
     \<and> ps_pos s' = 0 \<and> error_count (ps_reporter s') = 3"
proof -
  have k: "check_kind (TkKw KwImport) stray_state" by code_simp
  have r: "error_cap (ps_reporter stray_state) = 3"
    "ps_pos stray_state = 0" "error_count (ps_reporter stray_state) = 0"
    by (simp_all add: stray_state_def new_parser_def new_reporter_def)
  from stray_import_repeats [OF k, of 9 "[]"] show ?thesis by (simp add: r report_error numeral_eq_Suc)
qed

section \<open>Numbers\<close>

text \<open>
  C34: The length of a vector type goes to \<^verbatim>\<open>std::stoll\<close> as it is written, and its exception is not
  caught by the parser: a length that does not fit 64 bits ends it without a diagnostic.
\<close>
theorem oversized_length_throws:
  assumes "cursor_ok s" "check_kind TkLBracket s" "kind_ahead s 1 = TkIntLit" "stoll (tok_lexeme (peek_ahead s 1)) = Inl e"
  shows "type_at (Suc n) s = Some (Uncaught e)"
proof -
  let ?c = "productions_at n" and ?s = "s\<lparr>ps_pos := ps_pos s + 1\<rparr>"
  have e: "\<not> at_eof s" using assms(2) by (simp add: check_kind_def at_eof_def)
  have m: "move_on s = ?s" by (rule move_on_pos [OF assms(1) e])
  have t: "ps_tokens s ! (ps_pos s + 1) = peek_ahead s 1" using not_eof_pos [OF assms(1) e] by (simp add: peek_ahead_def)
  have k: "kind_ahead (?s\<lparr>ps_next := a\<rparr>) 0 = TkIntLit" "kind_ahead ?s 0 = TkIntLit" for a
    using assms(3) by (auto simp: kind_ahead_def peek_ahead_def split: if_splits)
  have b: "parse_bracket_type ?c r ?s = Some (Uncaught e)" for r
    by (simp add: parse_bracket_type_def if_state_def check_kind_def k seq_def make_node_def lexeme_here_def
        advance_token_def produce_def t parse_stoll_def throw_def assms(4))
  have "parse_base_type ?c r s = Some (Uncaught e)" for r
    using assms(2) by (simp add: parse_base_type_def if_state_def check_kind_def some_of_def seq_def advance_token_def m b)
  then show ?thesis by (simp add: productions_at_Suc productions_at_def [symmetric] parse_type_def seq_def this_range_def query_def)
qed

text \<open>The tokens of \<^verbatim>\<open>[99999999999999999999]Int\<close>.\<close>

definition oversized_state :: pstate where
  "oversized_state = new_parser [demo_token TkLBracket 0 ''['', demo_token TkIntLit 1 ''99999999999999999999'',
     demo_token TkRBracket 21 '']'', demo_token TkIdentifier 22 ''Int'', demo_token TkEof 25 []] (new_reporter 32) 1"

theorem oversized_length_throws_witness: "type_at (Suc 9) oversized_state = Some (Uncaught ''std::out_of_range'')"
proof (rule oversized_length_throws)
  show "cursor_ok oversized_state" by (simp add: oversized_state_def new_parser_def cursor_ok_def demo_token_def)
  show "check_kind TkLBracket oversized_state" "kind_ahead oversized_state 1 = TkIntLit"
    "stoll (tok_lexeme (peek_ahead oversized_state 1)) = Inl ''std::out_of_range''" by code_simp+
qed

end
