(* ===== verification/Spec2Isabelle.thy ===== *)
theory Spec2Isabelle
  imports Lexer_Props Types_Props Scopes_Props Exclusivity_Props Provenance Ownership_Laws Capability_Props
    Parser_Props
begin

text \<open>
  A verification development for the Vestra transpiler, which translates Vestra to C++.

  The program runs a unit through a pipeline: the source manager holds the text, the lexer
  makes tokens, the parser makes a tree, the resolver annotates the tree with types and symbols
  in side tables, the checkers walk the annotated tree and report, and the emitter prints C++.
  All stages report through one reporter. The theories model the parts below.

  \<^item> \<^verbatim>\<open>Prelude\<close>: the shared lemma collections and lemmas on lists, options and maps.
  \<^item> \<^verbatim>\<open>Diag\<close>: \<^verbatim>\<open>source_manager\<close> and \<^verbatim>\<open>diagnostic\<close>. Files, the line index, lines and columns, and
    the reporter with its counts and its error cap, which is the state of every checker.
  \<^item> \<^verbatim>\<open>Tokens\<close>, \<^verbatim>\<open>Lexer\<close>, \<^verbatim>\<open>Lexer_Props\<close>: \<^verbatim>\<open>token\<close> and \<^verbatim>\<open>lexer\<close>. The scanner with its
    interpolation mode and its rule for newlines. The tokens tile the input, and with the gaps
    they give the file back; the spelling of a kind scans as that kind; a newline token stands
    only where the rule allows one; the errors reported are one for every error token, and one
    for a block comment that the file ends in, which leaves no token.
  \<^item> \<^verbatim>\<open>Types\<close>, \<^verbatim>\<open>Types_Props\<close>: \<^verbatim>\<open>sema/types\<close>. Type values with addresses, their arena, equality,
    assignability and substitution. Equality is structural; substitution agrees with the
    textbook one and returns the same pointer when nothing changed.
  \<^item> \<^verbatim>\<open>Ast\<close>, \<^verbatim>\<open>Traversal\<close>: \<^verbatim>\<open>ast/nodes\<close>. The tree, the address and range of every node, and the
    parts of a node that run, with an induction rule over them.
  \<^item> \<^verbatim>\<open>Parser_Core\<close>, \<^verbatim>\<open>Parser\<close>: \<^verbatim>\<open>parse/parser\<close>, all of its files. The cursor over the tokens, error
    recovery, and one definition per production or branch of one, each a function on the state that
    gives a reply, an exception that leaves the parser, or nothing when the code does not return.
  \<^item> \<^verbatim>\<open>Parser_Laws\<close>, \<^verbatim>\<open>Parser_Safety\<close>, \<^verbatim>\<open>Parser_Returns\<close>: every production moves the cursor forward, only
    appends errors, and returns when its fuel is above its rank. \<^verbatim>\<open>Parser_Pratt\<close>: the induction along
    the left spine of a tree of operators. \<^verbatim>\<open>Parser_Props\<close>: with the lexer as the \<^verbatim>\<open>token_source\<close>, the
    front end returns and reads the file; operators parse back; where recovery gets stuck.
  \<^item> \<^verbatim>\<open>Scopes\<close>, \<^verbatim>\<open>Scopes_Props\<close>: \<^verbatim>\<open>sema/scope\<close>. Scopes, the stack and its guard, over symbols with
    addresses. The interface is the locale \<^verbatim>\<open>symbol_table\<close>, interpreted on the model: lookup ends, a
    guard restores the scopes around it, and a run stops exactly where it pops too often.
  \<^item> \<^verbatim>\<open>Resolution\<close>: the side tables of \<^verbatim>\<open>sema/resolver\<close>, which the checkers read.
  \<^item> \<^verbatim>\<open>Exclusivity\<close>, \<^verbatim>\<open>Exclusivity_Props\<close>: \<^verbatim>\<open>sema/exclusivity\<close>. The pass is silent exactly when
    every function obeys the law of exclusivity, on the constructs it walks. The law is stated
    over what an argument denotes and how it is passed; borrows of indexed elements, which the
    pass does not see, are left out.
  \<^item> \<^verbatim>\<open>Provenance\<close>: \<^verbatim>\<open>record_partition_provenance\<close> of the resolver, which writes through the scope
    stack what the exclusivity checker reads: the halves of a split do not overlap, and a split
    of a view loses its parents.
  \<^item> \<^verbatim>\<open>Ownership\<close>, \<^verbatim>\<open>Ownership_Props\<close>, \<^verbatim>\<open>Ownership_Leaks\<close>, \<^verbatim>\<open>Ownership_Laws\<close>:
    \<^verbatim>\<open>sema/ownership\<close>. The pass against executions of the body: a silent pass means no use and no
    move after a move, and no linear value forgotten where nothing is skipped and nothing leaves
    early; the programs where this ends.
  \<^item> \<^verbatim>\<open>Capability\<close>, \<^verbatim>\<open>Capability_Props\<close>: \<^verbatim>\<open>sema/capability\<close>. The pass is silent exactly when
    every construct it walks has the capabilities it needs; capabilities flow along calls.
  \<^item> \<^verbatim>\<open>Verdicts\<close>: what the checkers share, as the locale \<^verbatim>\<open>unit_walk\<close>, interpreted on the
    exclusivity and the capability checker. \<^verbatim>\<open>Samples\<close>: small programs.

  Recursion over the tree terminates by the size of the node, the scanner by the input that is
  left, the closure of the linear structs by the declarations outside the set. The walk along
  the parents of a scope may not end on a cyclic store; it is a partial function, and it is
  proved to end on the stores the operations build.

  The recursion of the parser goes around seven functions, some of which recur without taking a token.
  They carry fuel, \<open>8 n + 8\<close> for \<open>n\<close> tokens: a chain of calls that takes no token goes down seven ranks
  at most, so that eight units a token are enough, and \<^verbatim>\<open>front_end_returns\<close> proves it. The depth of the
  machine's stack, which long nestings exhaust, is not modelled. The loops of the parser are partial
  functions, proved to end. A null pointer in the tree is a node with address zero, since the parser
  gives the others addresses from one on.

  Not modelled: the copy of the tree; the printer of the tree, which is text for people; the rest of
  the resolver, whose tables are inputs of the checkers here; the evaluation of compile-time code; the
  emitter, whose text has its meaning in a C++ compiler; and the driver, which handles files and
  processes.
\<close>

end
